(* ===== verification/Prelude.thy ===== *)
theory Prelude
  imports Main "HOL-Library.List_Lexorder" "HOL-Library.Char_ord" "HOL-Library.Sublist"
begin

text \<open>
  Shared vocabulary of the Shingo development.

  The theory holds the collections of rewrite rules the component theories fill
  (\<^verbatim>\<open>status_simps\<close>, \<^verbatim>\<open>table_simps\<close>), the Go standard-library routines on byte strings
  the code calls (\<^verbatim>\<open>strings.Join\<close>, \<^verbatim>\<open>strings.Split\<close>, \<^verbatim>\<open>strconv.FormatInt\<close>), the vocabulary of
  errors as values, and the lemmas on lists used by more than one component.  A Go
  string is a byte string, and an Isabelle \<^typ>\<open>char\<close> is a byte, so \<^typ>\<open>string\<close> models it
  directly; \<^verbatim>\<open>sort.Strings\<close> is the list order of \<^verbatim>\<open>List_Lexorder\<close> over \<^verbatim>\<open>Char_ord\<close>.
\<close>

named_theorems status_simps \<open>evaluation of the order status predicates\<close>
named_theorems table_simps \<open>lookup and membership after a table update\<close>

type_synonym order_id = int
type_synonym bin_id = int
type_synonym node_id = int
type_synonym instant = int


section \<open>strings.Join and strings.Split\<close>

fun join_strings :: "string \<Rightarrow> string list \<Rightarrow> string" where
  "join_strings sep [] = []"
| "join_strings sep [p] = p"
| "join_strings sep (p # q # ps) = p @ sep @ join_strings sep (q # ps)"

fun split_on :: "char \<Rightarrow> string \<Rightarrow> string list" where
  "split_on c [] = [[]]"
| "split_on c (x # xs) =
     (if x = c then [] # split_on c xs
      else (case split_on c xs of [] \<Rightarrow> [[x]] | p # ps \<Rightarrow> (x # p) # ps))"

lemma split_on_not_Nil [simp]: "split_on c s \<noteq> []"
  by (induction s) (auto split: list.splits)

lemma split_on_free: "c \<notin> set p \<Longrightarrow> split_on c p = [p]"
  by (induction p) auto

lemma split_on_append:
  "c \<notin> set p \<Longrightarrow> split_on c (p @ c # rest) = p # split_on c rest"
  by (induction p) auto

lemma split_join:
  assumes "ps \<noteq> []" and "\<forall>p\<in>set ps. c \<notin> set p"
  shows "split_on c (join_strings [c] ps) = ps"
  using assms
proof (induction "[c]" ps rule: join_strings.induct)
  case (3 p q ps)
  then show ?case by (simp add: split_on_append)
qed (simp_all add: split_on_free)

lemma split_on_parts_free: "p \<in> set (split_on c s) \<Longrightarrow> c \<notin> set p"
  by (induction s arbitrary: p) (auto split: list.splits if_splits)

lemma join_split: "join_strings [c] (split_on c s) = s"
proof (induction s)
  case (Cons x xs)
  obtain p ps where ps: "split_on c xs = p # ps"
    by (cases "split_on c xs") auto
  show ?case
    using Cons by (cases ps) (auto simp: ps)
qed simp


section \<open>strconv.FormatInt and strconv.Itoa\<close>

definition digit_char :: "nat \<Rightarrow> char" where
  "digit_char d = char_of (48 + d)"

definition is_digit :: "char \<Rightarrow> bool" where
  "is_digit c = (48 \<le> (of_char c :: nat) \<and> (of_char c :: nat) \<le> 57)"

definition digit_val :: "char \<Rightarrow> nat" where
  "digit_val c = of_char c - 48"

fun nat_digits :: "nat \<Rightarrow> string" where
  "nat_digits n = (if n < 10 then [digit_char n] else nat_digits (n div 10) @ [digit_char (n mod 10)])"

declare nat_digits.simps [simp del]

definition digits_val :: "string \<Rightarrow> nat" where
  "digits_val = foldl (\<lambda>v c. v * 10 + digit_val c) 0"

definition format_int :: "int \<Rightarrow> string" where
  "format_int i = (if i < 0 then CHR ''-'' # nat_digits (nat (- i)) else nat_digits (nat i))"

lemma of_char_digit: "d < 10 \<Longrightarrow> (of_char (digit_char d) :: nat) = 48 + d"
  by (simp add: digit_char_def)

lemma digit_val_digit_char [simp]: "d < 10 \<Longrightarrow> digit_val (digit_char d) = d"
  by (simp add: digit_val_def of_char_digit)

lemma is_digit_digit_char [simp]: "d < 10 \<Longrightarrow> is_digit (digit_char d)"
  by (simp add: is_digit_def of_char_digit)

lemma nat_digits_all_digit: "list_all is_digit (nat_digits n)"
  by (induction n rule: nat_digits.induct) (subst nat_digits.simps, simp)

lemma nat_digits_not_Nil [simp]: "nat_digits n \<noteq> []"
  by (subst nat_digits.simps) simp

lemma digits_val_nat_digits [simp]: "digits_val (nat_digits n) = n"
proof (induction n rule: nat_digits.induct)
  case (1 n)
  then show ?case
    by (subst nat_digits.simps) (auto simp: digits_val_def)
qed

lemma not_digit_notin_nat_digits: "\<not> is_digit c \<Longrightarrow> c \<notin> set (nat_digits n)"
  using nat_digits_all_digit by (auto simp: list_all_iff)

lemma format_int_nat: "0 \<le> i \<Longrightarrow> format_int i = nat_digits (nat i)"
  by (simp add: format_int_def)

lemma format_int_free:
  "\<not> is_digit c \<Longrightarrow> c \<noteq> CHR ''-'' \<Longrightarrow> c \<notin> set (format_int i)"
  by (simp add: format_int_def not_digit_notin_nat_digits)

lemma nat_digits_inj: "nat_digits m = nat_digits n \<longleftrightarrow> m = n"
  by (metis digits_val_nat_digits)

lemma format_int_inj: "format_int i = format_int j \<longleftrightarrow> i = j"
proof
  assume eq: "format_int i = format_int j"
  have minus: "\<not> is_digit CHR ''-''" by (simp add: is_digit_def)
  have hd: "CHR ''-'' \<in> set (format_int k) \<longleftrightarrow> k < 0" for k
    using not_digit_notin_nat_digits [OF minus] by (simp add: format_int_def)
  from eq hd have "i < 0 \<longleftrightarrow> j < 0" by metis
  with eq show "i = j" by (auto simp: format_int_def nat_digits_inj split: if_splits)
qed simp


section \<open>Lists read as tables\<close>

text \<open>
  A database table is the list of its rows.  The two helpers are the shapes the
  code's statements use: the first row that satisfies a predicate, and an update
  of the rows that satisfy one.
\<close>

definition select_row :: "('r \<Rightarrow> bool) \<Rightarrow> 'r list \<Rightarrow> 'r option" where
  "select_row P rs = List.find P rs"

definition update_rows :: "('r \<Rightarrow> bool) \<Rightarrow> ('r \<Rightarrow> 'r) \<Rightarrow> 'r list \<Rightarrow> 'r list" where
  "update_rows P f rs = map (\<lambda>r. if P r then f r else r) rs"

definition delete_rows :: "('r \<Rightarrow> bool) \<Rightarrow> 'r list \<Rightarrow> 'r list" where
  "delete_rows P rs = filter (\<lambda>r. \<not> P r) rs"

definition count_rows :: "('r \<Rightarrow> bool) \<Rightarrow> 'r list \<Rightarrow> nat" where
  "count_rows P rs = length (filter P rs)"

lemma set_delete_rows [simp, table_simps]: "set (delete_rows P rs) = {r \<in> set rs. \<not> P r}"
  by (auto simp: delete_rows_def)

lemma delete_rows_Nil [simp]: "delete_rows P [] = []"
  by (simp add: delete_rows_def)

lemma delete_rows_append [simp]: "delete_rows P (xs @ ys) = delete_rows P xs @ delete_rows P ys"
  by (simp add: delete_rows_def)

lemma set_update_rows [table_simps]:
  "set (update_rows P f rs) = {r \<in> set rs. \<not> P r} \<union> f ` {r \<in> set rs. P r}"
  by (auto simp: update_rows_def)

lemma update_rows_none: "\<forall>r\<in>set rs. \<not> P r \<Longrightarrow> update_rows P f rs = rs"
  by (simp add: update_rows_def map_idI)

lemma delete_rows_none: "\<forall>r\<in>set rs. \<not> P r \<Longrightarrow> delete_rows P rs = rs"
  by (simp add: delete_rows_def)

lemma find_SomeD: "List.find P xs = Some x \<Longrightarrow> x \<in> set xs \<and> P x"
  by (auto simp: find_Some_iff)

lemma select_row_Some: "select_row P rs = Some r \<Longrightarrow> r \<in> set rs \<and> P r"
  by (auto simp: select_row_def find_Some_iff)

lemma select_row_None [table_simps]: "select_row P rs = None \<longleftrightarrow> (\<forall>r\<in>set rs. \<not> P r)"
  by (auto simp: select_row_def find_None_iff)

lemma count_rows_append [simp, table_simps]:
  "count_rows P (xs @ ys) = count_rows P xs + count_rows P ys"
  by (simp add: count_rows_def)

lemma count_rows_Nil [simp]: "count_rows P [] = 0"
  by (simp add: count_rows_def)

lemma count_rows_delete_le: "count_rows P (delete_rows Q rs) \<le> count_rows P rs"
  by (induction rs) (auto simp: count_rows_def delete_rows_def)

lemma count_rows_0 [table_simps]: "count_rows P rs = 0 \<longleftrightarrow> (\<forall>r\<in>set rs. \<not> P r)"
  by (auto simp: count_rows_def filter_empty_conv)

text \<open>
  \<^verbatim>\<open>uniq_key P k rs\<close>: among the rows that satisfy \<^verbatim>\<open>P\<close> the key \<^verbatim>\<open>k\<close> occurs once (a partial
  unique index).
\<close>

definition uniq_key :: "('r \<Rightarrow> bool) \<Rightarrow> ('r \<Rightarrow> 'k) \<Rightarrow> 'r list \<Rightarrow> bool" where
  "uniq_key P k rs = distinct (map k (filter P rs))"

lemma uniq_key_Nil [simp]: "uniq_key P k []"
  by (simp add: uniq_key_def)

lemma uniq_key_Cons:
  "uniq_key P k (r # rs) \<longleftrightarrow> uniq_key P k rs \<and> (P r \<longrightarrow> (\<forall>r'\<in>set rs. P r' \<longrightarrow> k r' \<noteq> k r))"
  by (auto simp: uniq_key_def image_iff)

lemma uniq_key_append1 [table_simps]:
  "uniq_key P k (rs @ [r]) \<longleftrightarrow> uniq_key P k rs \<and> (P r \<longrightarrow> (\<forall>r'\<in>set rs. P r' \<longrightarrow> k r' \<noteq> k r))"
  by (auto simp: uniq_key_def image_iff)

lemma uniq_key_delete: "uniq_key P k rs \<Longrightarrow> uniq_key P k (delete_rows Q rs)"
  by (induction rs) (auto simp: uniq_key_Cons delete_rows_def)

lemma uniq_key_update:
  "(\<And>r. Q r \<Longrightarrow> P (f r) = P r \<and> k (f r) = k r) \<Longrightarrow> uniq_key P k (update_rows Q f rs) = uniq_key P k rs"
proof -
  assume "\<And>r. Q r \<Longrightarrow> P (f r) = P r \<and> k (f r) = k r"
  then have "map k (filter P (update_rows Q f rs)) = map k (filter P rs)"
    by (induction rs) (auto simp: update_rows_def)
  then show ?thesis by (simp add: uniq_key_def)
qed

lemma uniq_keyD:
  "uniq_key P k rs \<Longrightarrow> r \<in> set rs \<Longrightarrow> r' \<in> set rs \<Longrightarrow> P r \<Longrightarrow> P r' \<Longrightarrow> k r = k r' \<Longrightarrow> r = r'"
  by (induction rs) (auto simp: uniq_key_Cons)

lemma uniq_key_count: "uniq_key P k rs \<Longrightarrow> count_rows (\<lambda>r. P r \<and> k r = x) rs \<le> 1"
  by (induction rs) (auto simp: uniq_key_Cons count_rows_def filter_empty_conv)

lemma delete_update_rows:
  "(\<And>r. P r \<Longrightarrow> Q r \<and> Q (f r)) \<Longrightarrow> delete_rows Q (update_rows P f rs) = delete_rows Q rs"
  by (induction rs) (auto simp: delete_rows_def update_rows_def)

lemma distinct_remdups_adj_sorted: "sorted (xs :: 'a :: linorder list) \<Longrightarrow> distinct (remdups_adj xs)"
  by (induction xs rule: remdups_adj.induct) (auto simp: order.antisym)

lemma select_row_update_rows:
  "(\<And>r. P (f r) = P r) \<Longrightarrow> select_row P (update_rows Q f rs) = map_option (\<lambda>r. if Q r then f r else r) (select_row P rs)"
  by (induction rs) (auto simp: select_row_def update_rows_def)

end
