(* ===== verification/OrderStatus.thy ===== *)
theory OrderStatus
  imports Prelude
begin

text \<open>
  The order state machine both processes share: \<^verbatim>\<open>protocol/status.go\<close> and the
  transition table of \<^verbatim>\<open>protocol/types.go\<close>.

  A Go \<^verbatim>\<open>Status\<close> is a string, and \<^verbatim>\<open>Scan\<close> accepts any value a row holds.  The fifteen
  constants are constructors; \<^verbatim>\<open>StatusOther\<close> carries every other string, so that the
  behaviour of the code on a value it does not know (a lookup miss in
  \<^verbatim>\<open>validTransitions\<close>) is part of the model.  \<^verbatim>\<open>status_ok\<close> says that the carried string is
  not one of the fifteen.
\<close>

section \<open>Statuses\<close>

datatype status =
    StatusPending | StatusSourcing | StatusQueued | StatusSubmitted | StatusDispatched
  | StatusAcknowledged | StatusInTransit | StatusDelivered | StatusConfirmed | StatusStaged
  | StatusFailed | StatusCancelled | StatusReshuffling | StatusSkipped | StatusFaulted
  | StatusOther string

fun status_string :: "status \<Rightarrow> string" where
  "status_string StatusPending = ''pending''"
| "status_string StatusSourcing = ''sourcing''"
| "status_string StatusQueued = ''queued''"
| "status_string StatusSubmitted = ''submitted''"
| "status_string StatusDispatched = ''dispatched''"
| "status_string StatusAcknowledged = ''acknowledged''"
| "status_string StatusInTransit = ''in_transit''"
| "status_string StatusDelivered = ''delivered''"
| "status_string StatusConfirmed = ''confirmed''"
| "status_string StatusStaged = ''staged''"
| "status_string StatusFailed = ''failed''"
| "status_string StatusCancelled = ''cancelled''"
| "status_string StatusReshuffling = ''reshuffling''"
| "status_string StatusSkipped = ''skipped''"
| "status_string StatusFaulted = ''faulted''"
| "status_string (StatusOther x) = x"

definition AllStatuses :: "status list" where
  "AllStatuses =
    [StatusPending, StatusSourcing, StatusQueued, StatusSubmitted,
     StatusDispatched, StatusAcknowledged, StatusInTransit, StatusStaged,
     StatusDelivered, StatusConfirmed, StatusFaulted, StatusFailed, StatusCancelled,
     StatusReshuffling, StatusSkipped]"

definition status_ok :: "status \<Rightarrow> bool" where
  "status_ok s = (case s of StatusOther x \<Rightarrow> x \<notin> set (map status_string AllStatuses) | _ \<Rightarrow> True)"

definition status_scan :: "string \<Rightarrow> status" where
  "status_scan x = (case List.find (\<lambda>s. status_string s = x) AllStatuses of Some s \<Rightarrow> s | None \<Rightarrow> StatusOther x)"


section \<open>The transition table\<close>

fun validTransitions :: "status \<Rightarrow> status list option" where
  "validTransitions StatusPending = Some
     [StatusSourcing, StatusSubmitted, StatusQueued, StatusReshuffling, StatusCancelled, StatusFailed, StatusSkipped]"
| "validTransitions StatusSourcing = Some
     [StatusQueued, StatusSubmitted, StatusDispatched, StatusReshuffling, StatusCancelled, StatusFailed, StatusSkipped]"
| "validTransitions StatusSubmitted = Some
     [StatusAcknowledged, StatusQueued, StatusCancelled, StatusFailed, StatusSkipped]"
| "validTransitions StatusQueued = Some
     [StatusAcknowledged, StatusDispatched, StatusInTransit, StatusSourcing, StatusReshuffling,
      StatusCancelled, StatusFailed, StatusSkipped]"
| "validTransitions StatusAcknowledged = Some
     [StatusDispatched, StatusInTransit, StatusSourcing, StatusCancelled, StatusFaulted, StatusFailed]"
| "validTransitions StatusDispatched = Some
     [StatusInTransit, StatusDelivered, StatusSourcing, StatusCancelled, StatusFaulted, StatusFailed]"
| "validTransitions StatusInTransit = Some
     [StatusDelivered, StatusStaged, StatusCancelled, StatusFaulted, StatusFailed]"
| "validTransitions StatusStaged = Some
     [StatusInTransit, StatusDelivered, StatusCancelled, StatusFaulted, StatusFailed]"
| "validTransitions StatusFaulted = Some [StatusInTransit, StatusDelivered, StatusFailed, StatusCancelled]"
| "validTransitions StatusDelivered = Some [StatusConfirmed, StatusCancelled, StatusFailed]"
| "validTransitions StatusReshuffling = Some [StatusConfirmed, StatusQueued, StatusCancelled, StatusFailed]"
| "validTransitions _ = None"

definition IsTerminal :: "status \<Rightarrow> bool" where
  "IsTerminal s = (validTransitions s = None)"

definition IsValidTransition :: "status \<Rightarrow> status \<Rightarrow> bool" where
  "IsValidTransition src dst = (case validTransitions src of None \<Rightarrow> False | Some allowed \<Rightarrow> dst \<in> set allowed)"

text \<open>
  The map's keys in the order of the literal; the iteration order of a Go map is
  unspecified, and \<^verbatim>\<open>TerminalStatuses\<close> sorts what it collects.
\<close>

definition transition_keys :: "status list" where
  "transition_keys =
    [StatusPending, StatusSourcing, StatusSubmitted, StatusQueued, StatusAcknowledged, StatusDispatched,
     StatusInTransit, StatusStaged, StatusFaulted, StatusDelivered, StatusReshuffling]"

definition targets_of :: "status \<Rightarrow> status list" where
  "targets_of s = (case validTransitions s of None \<Rightarrow> [] | Some ts \<Rightarrow> ts)"

definition TerminalStatuses :: "status list" where
  "TerminalStatuses =
     sort_key status_string (remdups (filter IsTerminal (concat (map targets_of transition_keys))))"

text \<open>
  \<^verbatim>\<open>IsForwardJump\<close>: the inner loop over the successors of the current status either
  finds the target or extends the seen set and the queue.
\<close>

fun jump_scan :: "status \<Rightarrow> status list \<Rightarrow> status list \<times> status list \<Rightarrow> (status list \<times> status list) option" where
  "jump_scan dst [] (seen, queue) = Some (seen, queue)"
| "jump_scan dst (nxt # rest) (seen, queue) =
     (if nxt = dst then None
      else if nxt \<notin> set seen then jump_scan dst rest (nxt # seen, queue @ [nxt])
      else jump_scan dst rest (seen, queue))"

definition unseen :: "status list \<Rightarrow> nat" where
  "unseen seen = card (set AllStatuses - set seen)"

lemma set_targets: "set (targets_of s) \<subseteq> set AllStatuses"
  by (cases s) (simp_all add: targets_of_def AllStatuses_def)

lemma unseen_Cons: "nxt \<in> set AllStatuses \<Longrightarrow> nxt \<notin> set seen \<Longrightarrow> unseen (nxt # seen) < unseen seen"
  unfolding unseen_def by (rule psubset_card_mono) auto

lemma jump_scan_measure:
  "jump_scan dst ns (seen, queue) = Some (seen', queue') \<Longrightarrow> set ns \<subseteq> set AllStatuses \<Longrightarrow>
     (unseen seen' < unseen seen \<or> (unseen seen' = unseen seen \<and> queue' = queue))"
proof (induction ns arbitrary: seen queue)
  case (Cons n ns)
  then show ?case
    using unseen_Cons [of n seen] by (fastforce split: if_splits)
qed simp

function jump_bfs :: "status \<Rightarrow> status list \<Rightarrow> status list \<Rightarrow> bool" where
  "jump_bfs dst seen [] = False"
| "jump_bfs dst seen (cur # queue) =
     (case jump_scan dst (targets_of cur) (seen, queue) of
        None \<Rightarrow> True
      | Some (seen', queue') \<Rightarrow> jump_bfs dst seen' queue')"
  by pat_completeness auto
termination
proof (relation "measures [\<lambda>(dst, seen, queue). unseen seen, \<lambda>(dst, seen, queue). length queue]")
  fix dst seen cur queue x seen' queue'
  assume "jump_scan dst (targets_of cur) (seen, queue) = Some x" and "(seen', queue') = x"
  then show "((dst, seen', queue'), (dst, seen, cur # queue)) \<in>
      measures [\<lambda>(dst, seen, queue). unseen seen, \<lambda>(dst, seen, queue). length queue]"
    using jump_scan_measure [OF _ set_targets] by fastforce
qed simp

definition IsForwardJump :: "status \<Rightarrow> status \<Rightarrow> bool" where
  "IsForwardJump src dst =
     (if src = dst \<or> IsValidTransition src dst then False else jump_bfs dst [src] [src])"


section \<open>Status set predicates\<close>

definition IsFailureTerminal :: "status \<Rightarrow> bool" where
  [status_simps]: "IsFailureTerminal s = (s = StatusCancelled \<or> s = StatusFailed)"

definition IsVendorActive :: "status \<Rightarrow> bool" where
  [status_simps]: "IsVendorActive s = (s = StatusDispatched \<or> s = StatusInTransit \<or> s = StatusStaged)"

definition IsVendorTracked :: "status \<Rightarrow> bool" where
  [status_simps]: "IsVendorTracked s = (IsVendorActive s \<or> s = StatusFaulted)"

definition IsPreDispatch :: "status \<Rightarrow> bool" where
  [status_simps]: "IsPreDispatch s = (s = StatusPending \<or> s = StatusSourcing \<or> s = StatusQueued)"

definition IsAcquiring :: "status \<Rightarrow> bool" where
  [status_simps]: "IsAcquiring s = (s = StatusQueued \<or> s = StatusSourcing)"

fun IsRuntimeStuckCandidate :: "status \<Rightarrow> bool" where
  "IsRuntimeStuckCandidate StatusPending = True"
| "IsRuntimeStuckCandidate StatusQueued = True"
| "IsRuntimeStuckCandidate StatusSourcing = True"
| "IsRuntimeStuckCandidate StatusSubmitted = True"
| "IsRuntimeStuckCandidate StatusAcknowledged = True"
| "IsRuntimeStuckCandidate StatusDispatched = True"
| "IsRuntimeStuckCandidate StatusInTransit = True"
| "IsRuntimeStuckCandidate StatusStaged = True"
| "IsRuntimeStuckCandidate _ = False"

definition IsStuckSweepCandidate :: "status \<Rightarrow> bool" where
  [status_simps]: "IsStuckSweepCandidate s = (s = StatusDispatched \<or> s = StatusStaged)"

definition IsOperatorVisible :: "status \<Rightarrow> bool" where
  [status_simps]: "IsOperatorVisible s = (s \<noteq> StatusConfirmed \<and> s \<noteq> StatusCancelled \<and> s \<noteq> StatusSkipped)"

datatype ChangeoverStartAction =
    ChangeoverStartUnclassified | ChangeoverStartCancel | ChangeoverStartBlock | ChangeoverStartPass

fun ChangeoverStartActionFor :: "status \<Rightarrow> ChangeoverStartAction" where
  "ChangeoverStartActionFor StatusPending = ChangeoverStartCancel"
| "ChangeoverStartActionFor StatusSubmitted = ChangeoverStartCancel"
| "ChangeoverStartActionFor StatusAcknowledged = ChangeoverStartCancel"
| "ChangeoverStartActionFor StatusSourcing = ChangeoverStartCancel"
| "ChangeoverStartActionFor StatusQueued = ChangeoverStartCancel"
| "ChangeoverStartActionFor StatusDispatched = ChangeoverStartBlock"
| "ChangeoverStartActionFor StatusInTransit = ChangeoverStartBlock"
| "ChangeoverStartActionFor StatusStaged = ChangeoverStartBlock"
| "ChangeoverStartActionFor StatusFaulted = ChangeoverStartBlock"
| "ChangeoverStartActionFor StatusDelivered = ChangeoverStartPass"
| "ChangeoverStartActionFor StatusReshuffling = ChangeoverStartPass"
| "ChangeoverStartActionFor StatusConfirmed = ChangeoverStartPass"
| "ChangeoverStartActionFor StatusCancelled = ChangeoverStartPass"
| "ChangeoverStartActionFor StatusFailed = ChangeoverStartPass"
| "ChangeoverStartActionFor StatusSkipped = ChangeoverStartPass"
| "ChangeoverStartActionFor (StatusOther _) = ChangeoverStartUnclassified"

definition BlocksChangeoverStart :: "status \<Rightarrow> bool" where
  "BlocksChangeoverStart s = (ChangeoverStartActionFor s = ChangeoverStartBlock)"


section \<open>SQL projectors\<close>

definition quote_status :: "status \<Rightarrow> string" where
  "quote_status s = [CHR 0x27] @ status_string s @ [CHR 0x27]"

definition buildStatusSQLList :: "(status \<Rightarrow> bool) \<Rightarrow> string" where
  "buildStatusSQLList pred = join_strings [CHR 0x2C] (sort (map quote_status (filter pred AllStatuses)))"

definition TerminalStatusSQLList :: string where
  "TerminalStatusSQLList = buildStatusSQLList IsTerminal"

definition NonTerminalStatusSQLList :: string where
  "NonTerminalStatusSQLList = buildStatusSQLList (\<lambda>s. \<not> IsTerminal s)"


section \<open>Facts about the statuses\<close>

lemma AllStatuses_cases: "s \<in> set AllStatuses \<longleftrightarrow> (\<forall>x. s \<noteq> StatusOther x)"
  by (cases s) (simp_all add: AllStatuses_def)

lemma status_string_canonical_inj:
  "s \<in> set AllStatuses \<Longrightarrow> t \<in> set AllStatuses \<Longrightarrow> status_string s = status_string t \<Longrightarrow> s = t"
  by (cases s; cases t) (simp_all add: AllStatuses_def)

lemma status_string_inj:
  assumes "status_ok s" and "status_ok t" and "status_string s = status_string t"
  shows "s = t"
proof (cases "s \<in> set AllStatuses \<longleftrightarrow> t \<in> set AllStatuses")
  case True
  then show ?thesis
    using assms status_string_canonical_inj [of s t]
    by (cases "s \<in> set AllStatuses") (auto simp: AllStatuses_cases)
next
  case False
  have out: "u \<notin> set AllStatuses \<Longrightarrow> status_ok u \<Longrightarrow> status_string u \<notin> status_string ` set AllStatuses" for u
    by (cases u) (auto simp: AllStatuses_cases status_ok_def)
  from False assms out [of s] out [of t] show ?thesis by (metis imageI)
qed

lemma status_scan_string: "status_ok s \<Longrightarrow> status_scan (status_string s) = s"
proof (cases "s \<in> set AllStatuses")
  case True
  then obtain t where t: "List.find (\<lambda>u. status_string u = status_string s) AllStatuses = Some t"
    by (cases "List.find (\<lambda>u. status_string u = status_string s) AllStatuses") (auto simp: find_None_iff)
  then have "t \<in> set AllStatuses" "status_string t = status_string s"
    by (auto simp: find_Some_iff)
  with True have "t = s" using status_string_canonical_inj by blast
  with t show ?thesis by (simp add: status_scan_def)
next
  case False
  assume ok: "status_ok s"
  from False obtain x where x: "s = StatusOther x" by (auto simp: AllStatuses_cases)
  with ok have "List.find (\<lambda>u. status_string u = x) AllStatuses = None"
    by (auto simp: status_ok_def find_None_iff)
  with x show ?thesis by (simp add: status_scan_def)
qed

lemma status_ok_scan: "status_ok (status_scan x)" and status_string_scan: "status_string (status_scan x) = x"
proof -
  have "status_ok (status_scan x) \<and> status_string (status_scan x) = x"
  proof (cases "List.find (\<lambda>u. status_string u = x) AllStatuses")
    case None
    then have "x \<notin> status_string ` set AllStatuses" by (auto simp: find_None_iff)
    with None show ?thesis by (simp add: status_scan_def status_ok_def)
  next
    case (Some t)
    then have "t \<in> set AllStatuses" "status_string t = x" by (auto simp: find_Some_iff)
    with Some show ?thesis by (auto simp: status_scan_def status_ok_def AllStatuses_cases split: status.splits)
  qed
  then show "status_ok (status_scan x)" and "status_string (status_scan x) = x" by auto
qed

lemma IsTerminal_simps [simp, status_simps]:
  "\<not> IsTerminal StatusPending" "\<not> IsTerminal StatusSourcing" "\<not> IsTerminal StatusQueued"
  "\<not> IsTerminal StatusSubmitted" "\<not> IsTerminal StatusDispatched" "\<not> IsTerminal StatusAcknowledged"
  "\<not> IsTerminal StatusInTransit" "\<not> IsTerminal StatusDelivered" "\<not> IsTerminal StatusStaged"
  "\<not> IsTerminal StatusReshuffling" "\<not> IsTerminal StatusFaulted"
  "IsTerminal StatusConfirmed" "IsTerminal StatusFailed" "IsTerminal StatusCancelled"
  "IsTerminal StatusSkipped" "IsTerminal (StatusOther x)"
  by (simp_all add: IsTerminal_def)

lemma IsValidTransition_targets: "IsValidTransition s t \<longleftrightarrow> t \<in> set (targets_of s)"
  by (simp add: IsValidTransition_def targets_of_def split: option.splits)

lemma terminal_iff_no_targets: "IsTerminal s \<longleftrightarrow> targets_of s = []"
  by (cases s) (simp_all add: targets_of_def)

lemma not_terminal_key: "\<not> IsTerminal s \<longleftrightarrow> s \<in> set transition_keys"
  by (cases s) (simp_all add: transition_keys_def)


section \<open>Transition systems\<close>

text \<open>
  What the clients of a status table rely on: the terminal test is the absence of
  a legal step.  The order table and the bin table are both instances.
\<close>

locale transition_system =
  fixes valid :: "'s \<Rightarrow> 's \<Rightarrow> bool"
    and terminal :: "'s \<Rightarrow> bool"
  assumes terminal_iff: "terminal s \<longleftrightarrow> (\<forall>t. \<not> valid s t)"
begin

lemma absorbing: "(s, t) \<in> {(x, y). valid x y}\<^sup>* \<Longrightarrow> terminal s \<Longrightarrow> t = s"
  by (erule converse_rtranclE) (auto simp: terminal_iff)

lemma no_exit: "terminal s \<Longrightarrow> (s, t) \<notin> {(x, y). valid x y}\<^sup>+"
  by (auto simp: terminal_iff dest: tranclD)

lemma terminal_iff_reach: "terminal s \<longleftrightarrow> {t. (s, t) \<in> {(x, y). valid x y}\<^sup>+} = {}"
  using no_exit by (auto simp: terminal_iff)

lemma two_terminals_apart:
  "terminal s \<Longrightarrow> terminal t \<Longrightarrow> (s, t) \<in> {(x, y). valid x y}\<^sup>* \<Longrightarrow> s = t"
  using absorbing by blast

end

interpretation order_machine: transition_system IsValidTransition IsTerminal
  by unfold_locales (auto simp: IsValidTransition_targets terminal_iff_no_targets)


section \<open>Correctness of the forward-jump search\<close>

abbreviation order_steps :: "(status \<times> status) set" where
  "order_steps \<equiv> {(x, y). IsValidTransition x y}"

lemma jump_scan_None: "jump_scan dst ns sq = None \<longleftrightarrow> dst \<in> set ns"
  by (induction dst ns sq rule: jump_scan.induct) auto

lemma jump_scan_Some:
  "jump_scan dst ns (seen, queue) = Some (seen', queue') \<Longrightarrow>
     set seen' = set seen \<union> set ns \<and> set queue' = set queue \<union> (set ns - set seen)"
  by (induction ns arbitrary: seen queue) (fastforce split: if_splits)+

lemma jump_bfs_sound:
  "jump_bfs dst seen queue \<Longrightarrow> \<exists>q\<in>set queue. (q, dst) \<in> order_steps\<^sup>+"
proof (induction dst seen queue rule: jump_bfs.induct)
  case (2 dst seen cur queue)
  show ?case
  proof (cases "jump_scan dst (targets_of cur) (seen, queue)")
    case None
    then have "IsValidTransition cur dst" by (simp add: jump_scan_None IsValidTransition_targets)
    then show ?thesis by (auto intro!: r_into_trancl)
  next
    case (Some sq)
    obtain seen' queue' where sq: "sq = (seen', queue')" by fastforce
    with "2.prems" Some have "jump_bfs dst seen' queue'" by simp
    with "2.IH" [OF Some [unfolded sq] refl] obtain q where q: "q \<in> set queue'" "(q, dst) \<in> order_steps\<^sup>+"
      by blast
    show ?thesis
    proof (cases "q \<in> set queue")
      case False
      with q jump_scan_Some [OF Some [unfolded sq]] have "IsValidTransition cur q"
        by (auto simp: IsValidTransition_targets)
      with q show ?thesis by (auto intro: trancl_into_trancl2)
    qed (use q in auto)
  qed
qed simp

lemma jump_bfs_complete:
  assumes "\<not> jump_bfs dst seen queue" and "set queue \<subseteq> set seen"
    and "\<forall>s\<in>set seen - set queue. set (targets_of s) \<subseteq> set seen - {dst}"
  shows "\<forall>s\<in>set seen. (s, dst) \<notin> order_steps\<^sup>+"
  using assms
proof (induction dst seen queue rule: jump_bfs.induct)
  case (1 dst seen)
  have "(s, dst) \<in> order_steps\<^sup>+ \<Longrightarrow> s \<notin> set seen" for s
    by (erule converse_trancl_induct) (use 1 in \<open>auto simp: IsValidTransition_targets\<close>)
  then show ?case by blast
next
  case (2 dst seen cur queue)
  then obtain seen' queue' where sc: "jump_scan dst (targets_of cur) (seen, queue) = Some (seen', queue')"
    by (auto split: option.splits)
  note ex = jump_scan_Some [OF sc]
  have dst: "dst \<notin> set (targets_of cur)" using sc jump_scan_None by (metis option.distinct(1))
  have "\<forall>s\<in>set seen'. (s, dst) \<notin> order_steps\<^sup>+"
  proof (rule "2.IH" [OF sc refl])
    show "\<not> jump_bfs dst seen' queue'" using 2 sc by simp
    show "set queue' \<subseteq> set seen'" using 2 ex by auto
    show "\<forall>s\<in>set seen' - set queue'. set (targets_of s) \<subseteq> set seen' - {dst}"
      using 2 ex dst by (auto; blast)
  qed
  then show ?case using ex by simp
qed


section \<open>The SQL lists\<close>

lemma comma_free_status: "s \<in> set AllStatuses \<Longrightarrow> CHR 0x2C \<notin> set (quote_status s)"
  by (cases s) (simp_all add: quote_status_def AllStatuses_def)

lemma distinct_quoted: "distinct (map quote_status (filter P AllStatuses))"
proof -
  have "inj_on quote_status (set AllStatuses)"
    by (rule inj_onI) (auto simp: quote_status_def intro: status_string_canonical_inj)
  then have "inj_on quote_status (set (filter P AllStatuses))"
    by (rule inj_on_subset) auto
  moreover have "distinct AllStatuses" by (simp add: AllStatuses_def)
  ultimately show ?thesis by (simp add: distinct_map)
qed

lemma split_buildStatusSQLList:
  "split_on (CHR 0x2C) (buildStatusSQLList P) =
     (if filter P AllStatuses = [] then [[]] else sort (map quote_status (filter P AllStatuses)))"
proof (cases "filter P AllStatuses = []")
  case False
  let ?ps = "sort (map quote_status (filter P AllStatuses))"
  have "?ps \<noteq> []" using False by (metis Nil_is_map_conv length_0_conv length_sort)
  moreover have "\<forall>p\<in>set ?ps. CHR 0x2C \<notin> set p" using comma_free_status by auto
  ultimately show ?thesis using False split_join [of ?ps] by (simp add: buildStatusSQLList_def)
qed (simp add: buildStatusSQLList_def)

lemma set_TerminalStatuses: "set TerminalStatuses = {s \<in> set AllStatuses. IsTerminal s}"
  by (auto simp: TerminalStatuses_def transition_keys_def targets_of_def AllStatuses_def)


section \<open>Properties\<close>

text \<open>C39. \<^verbatim>\<open>IsForwardJump\<close> accepts exactly the targets that some path of legal steps reaches
  but no single legal step does; the breadth-first search neither misses a path nor
  invents one, and it ends on every input.\<close>

theorem IsForwardJump_reachable:
  "IsForwardJump src dst \<longleftrightarrow>
     src \<noteq> dst \<and> \<not> IsValidTransition src dst \<and> (src, dst) \<in> order_steps\<^sup>+"
  using jump_bfs_sound [of dst "[src]" "[src]"] jump_bfs_complete [of dst "[src]" "[src]"]
  by (auto simp: IsForwardJump_def)

text \<open>Terminal statuses are exactly the ones no step leaves, nothing is reachable from
  them, and every status that is not terminal has a legal step to cancelled and a
  legal step to failed: a live order can always be ended.\<close>

theorem terminal_statuses_absorb:
  "(IsTerminal s \<longleftrightarrow> {t. (s, t) \<in> order_steps\<^sup>+} = {}) \<and>
   (IsTerminal s \<longleftrightarrow> \<not> (IsValidTransition s StatusCancelled \<and> IsValidTransition s StatusFailed))"
proof
  show "IsTerminal s \<longleftrightarrow> {t. (s, t) \<in> order_steps\<^sup>+} = {}"
    by (rule order_machine.terminal_iff_reach)
  show "IsTerminal s \<longleftrightarrow> \<not> (IsValidTransition s StatusCancelled \<and> IsValidTransition s StatusFailed)"
    by (cases s) (simp_all add: IsValidTransition_def)
qed

text \<open>The changeover gate: a status blocks a changeover exactly when the fleet tracker
  keeps watching it, the statuses cancelled at changeover start are exactly the live
  ones from which no bin has been handed to the fleet (the contiguous pre-fleet
  region, submitted and acknowledged included), and only a status outside the enum
  is unclassified.\<close>

theorem changeover_gate:
  "BlocksChangeoverStart s = IsVendorTracked s \<and>
   (ChangeoverStartActionFor s = ChangeoverStartCancel \<longleftrightarrow>
      IsPreDispatch s \<or> s = StatusSubmitted \<or> s = StatusAcknowledged) \<and>
   (ChangeoverStartActionFor s = ChangeoverStartUnclassified \<longleftrightarrow> s \<notin> set AllStatuses) \<and>
   \<not> (IsStuckSweepCandidate s \<and> \<not> BlocksChangeoverStart s) \<and>
   \<not> (BlocksChangeoverStart s \<and> IsTerminal s)"
  by (cases s) (simp_all add: status_simps BlocksChangeoverStart_def AllStatuses_def)

text \<open>C40. The spliced SQL list: reading \<^verbatim>\<open>buildStatusSQLList pred\<close> back at the commas gives, in
  ascending byte order and without repetition, the quoted names of exactly the
  statuses the predicate accepts.\<close>

theorem status_sql_list_exact:
  "set (split_on (CHR 0x2C) (buildStatusSQLList pred)) - {[]} =
     quote_status ` {s \<in> set AllStatuses. pred s} \<and>
   sorted (split_on (CHR 0x2C) (buildStatusSQLList pred)) \<and>
   distinct (split_on (CHR 0x2C) (buildStatusSQLList pred))"
proof -
  have "[] \<notin> quote_status ` A" for A by (auto simp: quote_status_def)
  then show ?thesis
    using distinct_quoted [of pred]
    by (auto simp: split_buildStatusSQLList filter_empty_conv)
qed

end
