(* ===== verification/Reservations.thy ===== *)
theory Reservations
  imports OrderStatus
begin

text \<open>
  The reservations table of Core: \<^verbatim>\<open>store/reservations\<close> (bins, slots, lane mouths,
  occupancy, the dig exclusion) and \<^verbatim>\<open>dispatch/binresolver/lane_lock.go\<close>, whose lock is
  the table's rows.

  The table is the list of its rows in id order: an INSERT appends, an UPDATE
  rewrites in place, a DELETE filters.  The two partial unique indexes of the schema
  (one active row per bin, one active row per slot) are what \<^verbatim>\<open>ON CONFLICT DO NOTHING\<close>
  reacts to; lane mouths and occupancy have no index, so that one owner never has
  two rows on one lane is a fact about the code.  Each operation is one
  transaction, and the per-lane advisory lock makes the transactions on one lane
  follow one another, so a run is a sequence of operations.
\<close>

section \<open>Rows\<close>

datatype mode = ModeNone | ModeInbound | ModeOutbound | ModeDig

datatype kind = KindBin | KindSlot | KindMouth | KindOccupancy

datatype res_state = StatePending | StateConfirmed

datatype ref = Ref kind int

record reservation =
  r_order :: order_id
  r_kind :: kind
  r_bin :: "bin_id option"
  r_node :: "node_id option"
  r_state :: res_state
  r_by :: string
  r_mode :: mode

record MouthHold =
  h_order :: order_id
  h_mode :: mode
  h_by :: string

record DigAsker =
  a_order :: order_id
  a_lane_owner :: order_id

datatype res_error =
    ErrReservationConflict
  | ErrHoldsOtherMode order_id node_id mode mode

type_synonym reservations = "reservation list"

definition ByExcavation :: string where "ByExcavation = ''lanelock''"
definition BySourceLock :: string where "BySourceLock = ''lanegate''"
definition ByDigHandoff :: string where "ByDigHandoff = ''dighandoff''"

definition IsExcavation :: "string \<Rightarrow> bool" where
  "IsExcavation reservedBy = (reservedBy = ByExcavation)"

definition BinRef :: "bin_id \<Rightarrow> ref" where "BinRef b = Ref KindBin b"
definition SlotRef :: "node_id \<Rightarrow> ref" where "SlotRef n = Ref KindSlot n"

definition r_target :: "reservation \<Rightarrow> int option" where
  "r_target r = (case r_bin r of Some b \<Rightarrow> Some b | None \<Rightarrow> r_node r)"

definition r_active :: "reservation \<Rightarrow> bool" where
  "r_active r = (r_state r = StatePending \<or> r_state r = StateConfirmed)"


section \<open>Who may ignore a dig\<close>

definition Anyone :: DigAsker where
  "Anyone = \<lparr>a_order = 0, a_lane_owner = 0\<rparr>"

definition AskerFor :: "order_id \<Rightarrow> order_id \<Rightarrow> DigAsker" where
  "AskerFor orderID laneOwner =
     \<lparr>a_order = orderID, a_lane_owner = (if laneOwner = 0 then orderID else laneOwner)\<rparr>"

definition Owns :: "DigAsker \<Rightarrow> order_id \<Rightarrow> bool" where
  "Owns a orderID = (if orderID = 0 then False else orderID = a_order a \<or> orderID = a_lane_owner a)"

definition ExcludedBy :: "DigAsker \<Rightarrow> order_id \<Rightarrow> bool" where
  "ExcludedBy a digOwner = (if digOwner = 0 then False else \<not> Owns a digOwner)"


section \<open>Bin and slot reservations\<close>

definition index_conflict :: "ref \<Rightarrow> reservation \<Rightarrow> bool" where
  "index_conflict rf r = (case rf of Ref k i \<Rightarrow>
     (k = KindBin \<and> r_kind r = KindBin \<and> r_active r \<and> r_bin r = Some i) \<or>
     (k = KindSlot \<and> r_kind r = KindSlot \<and> r_active r \<and> r_node r = Some i))"

definition acquire :: "reservations \<Rightarrow> order_id \<Rightarrow> ref \<Rightarrow> string \<Rightarrow> res_error + reservations" where
  "acquire t orderID rf reservedBy = (case rf of Ref k i \<Rightarrow>
     if list_ex (index_conflict rf) t then Inl ErrReservationConflict
     else Inr (t @ [\<lparr>r_order = orderID, r_kind = k,
                     r_bin = (if k = KindBin then Some i else None),
                     r_node = (if k \<noteq> KindBin then Some i else None),
                     r_state = StatePending, r_by = reservedBy, r_mode = ModeNone\<rparr>]))"

definition ref_row :: "order_id \<Rightarrow> ref \<Rightarrow> reservation \<Rightarrow> bool" where
  "ref_row orderID rf r = (case rf of Ref k i \<Rightarrow>
     r_order r = orderID \<and> r_kind r = k \<and> r_target r = Some i)"

definition confirm :: "reservations \<Rightarrow> order_id \<Rightarrow> ref \<Rightarrow> reservations" where
  "confirm t orderID rf =
     update_rows (\<lambda>r. ref_row orderID rf r \<and> r_state r = StatePending) (\<lambda>r. r\<lparr>r_state := StateConfirmed\<rparr>) t"

definition release :: "reservations \<Rightarrow> order_id \<Rightarrow> ref \<Rightarrow> reservations" where
  "release t orderID rf = delete_rows (ref_row orderID rf) t"

definition ReleaseByOrder :: "reservations \<Rightarrow> order_id \<Rightarrow> reservations" where
  "ReleaseByOrder t orderID = delete_rows (\<lambda>r. r_order r = orderID) t"

definition ReleaseByBin :: "reservations \<Rightarrow> bin_id \<Rightarrow> reservations" where
  "ReleaseByBin t binID = delete_rows (\<lambda>r. r_bin r = Some binID) t"

definition ReleaseByNode :: "reservations \<Rightarrow> node_id \<Rightarrow> reservations" where
  "ReleaseByNode t nodeID = delete_rows (\<lambda>r. r_node r = Some nodeID) t"

definition ListByOrder :: "reservations \<Rightarrow> order_id \<Rightarrow> (kind \<times> int \<times> int \<times> res_state) list" where
  "ListByOrder t orderID =
     map (\<lambda>r. (r_kind r, case r_bin r of Some b \<Rightarrow> b | None \<Rightarrow> 0, case r_node r of Some n \<Rightarrow> n | None \<Rightarrow> 0, r_state r))
       (filter (\<lambda>r. r_order r = orderID) t)"

text \<open>
  The reaper reads the orders table: \<^verbatim>\<open>ost\<close> gives the status of an existing order.
  \<^verbatim>\<open>status IN (TerminalStatusSQLList)\<close> compares the stored string with the terminal
  constants.
\<close>

definition reapable :: "(order_id \<Rightarrow> status option) \<Rightarrow> reservation \<Rightarrow> bool" where
  "reapable ost r = (case ost (r_order r) of
       Some s \<Rightarrow> status_string s \<in> status_string ` set (filter IsTerminal AllStatuses)
     | None \<Rightarrow> True)"

definition ReapOrphaned :: "(order_id \<Rightarrow> status option) \<Rightarrow> reservations \<Rightarrow> reservations \<times> nat" where
  "ReapOrphaned ost t = (delete_rows (reapable ost) t, count_rows (reapable ost) t)"


section \<open>Lane mouths\<close>

definition mouth_row :: "node_id \<Rightarrow> reservation \<Rightarrow> bool" where
  "mouth_row lane r = (r_kind r = KindMouth \<and> r_node r = Some lane)"

definition owner_mouth :: "order_id \<Rightarrow> node_id \<Rightarrow> reservation \<Rightarrow> bool" where
  "owner_mouth owner lane r = (r_order r = owner \<and> mouth_row lane r)"

definition activeMouthRows :: "reservations \<Rightarrow> node_id \<Rightarrow> MouthHold list" where
  "activeMouthRows t lane =
     map (\<lambda>r. \<lparr>h_order = r_order r, h_mode = r_mode r, h_by = r_by r\<rparr>)
       (sort_key r_order (filter (\<lambda>r. mouth_row lane r \<and> r_active r) t))"

datatype mouthVerdict = admitFresh | admitIdempotent | admitUpgrade | admitConflict

text \<open>
  The holder loop of \<^verbatim>\<open>admitMouth\<close>: None is the early return with a conflict, otherwise
  the two flags \<^verbatim>\<open>ownerHolds\<close> and \<^verbatim>\<open>ownerHoldsOtherMode\<close>.
\<close>

fun admit_loop :: "order_id \<Rightarrow> mode \<Rightarrow> DigAsker \<Rightarrow> MouthHold list \<Rightarrow> bool \<Rightarrow> mode \<Rightarrow> (bool \<times> mode) option" where
  "admit_loop owner mode ben [] holds other = Some (holds, other)"
| "admit_loop owner mode ben (h # hs) holds other =
     (if h_order h = owner then
        (if h_mode h = mode then admit_loop owner mode ben hs True other
         else admit_loop owner mode ben hs holds (h_mode h))
      else if Owns ben (h_order h) then admit_loop owner mode ben hs holds other
      else if mode = ModeDig \<or> h_mode h = ModeDig \<or> h_mode h \<noteq> mode then None
      else admit_loop owner mode ben hs holds other)"

definition admitMouth ::
  "reservations \<Rightarrow> node_id \<Rightarrow> order_id \<Rightarrow> mode \<Rightarrow> DigAsker \<Rightarrow> res_error + mouthVerdict" where
  "admitMouth t lane owner mode ben =
     (case admit_loop owner mode ben (activeMouthRows t lane) False ModeNone of
        None \<Rightarrow> Inr admitConflict
      | Some (holds, other) \<Rightarrow>
          if other \<noteq> ModeNone then
            (if mode = ModeDig \<and> Owns ben owner then Inr admitUpgrade
             else Inl (ErrHoldsOtherMode owner lane other mode))
          else if holds then Inr admitIdempotent
          else Inr admitFresh)"

definition mouth_insert :: "order_id \<Rightarrow> node_id \<Rightarrow> string \<Rightarrow> mode \<Rightarrow> reservation" where
  "mouth_insert owner lane reservedBy mode =
     \<lparr>r_order = owner, r_kind = KindMouth, r_bin = None, r_node = Some lane,
      r_state = StateConfirmed, r_by = reservedBy, r_mode = mode\<rparr>"

definition take_lane ::
  "reservations \<Rightarrow> order_id \<Rightarrow> mode \<Rightarrow> DigAsker \<Rightarrow> string \<Rightarrow> node_id \<Rightarrow> res_error + reservations" where
  "take_lane t owner mode ben reservedBy lane =
     (case admitMouth t lane owner mode ben of
        Inl e \<Rightarrow> Inl e
      | Inr admitIdempotent \<Rightarrow>
          Inr (if IsExcavation reservedBy
               then update_rows (\<lambda>r. owner_mouth owner lane r \<and> r_active r \<and> r_by r \<noteq> reservedBy)
                      (\<lambda>r. r\<lparr>r_by := reservedBy\<rparr>) t
               else t)
      | Inr admitConflict \<Rightarrow> Inl ErrReservationConflict
      | Inr admitUpgrade \<Rightarrow>
          Inr (update_rows (\<lambda>r. owner_mouth owner lane r \<and> r_active r)
                 (\<lambda>r. r\<lparr>r_mode := mode, r_by := reservedBy\<rparr>) t)
      | Inr admitFresh \<Rightarrow> Inr (t @ [mouth_insert owner lane reservedBy mode]))"

fun take_lanes ::
  "reservations \<Rightarrow> order_id \<Rightarrow> mode \<Rightarrow> DigAsker \<Rightarrow> string \<Rightarrow> node_id list \<Rightarrow> res_error + reservations" where
  "take_lanes t owner mode ben reservedBy [] = Inr t"
| "take_lanes t owner mode ben reservedBy (lane # lanes) =
     (case take_lane t owner mode ben reservedBy lane of
        Inl e \<Rightarrow> Inl e
      | Inr t' \<Rightarrow> take_lanes t' owner mode ben reservedBy lanes)"

definition sortedUniqueLanes :: "node_id list \<Rightarrow> node_id list" where
  "sortedUniqueLanes ids = remdups_adj (sort ids)"

text \<open>
  The transaction commits only when every lane was taken; the table after an error is
  the table before the call.
\<close>

definition AcquireLanesFor ::
  "reservations \<Rightarrow> order_id \<Rightarrow> mode \<Rightarrow> DigAsker \<Rightarrow> string \<Rightarrow> node_id list \<Rightarrow> reservations \<times> res_error option" where
  "AcquireLanesFor t owner mode ben reservedBy laneIDs =
     (case take_lanes t owner mode ben reservedBy (sortedUniqueLanes laneIDs) of
        Inl e \<Rightarrow> (t, Some e)
      | Inr t' \<Rightarrow> (t', None))"

definition AcquireLanes ::
  "reservations \<Rightarrow> order_id \<Rightarrow> mode \<Rightarrow> string \<Rightarrow> node_id list \<Rightarrow> reservations \<times> res_error option" where
  "AcquireLanes t owner mode reservedBy laneIDs = AcquireLanesFor t owner mode Anyone reservedBy laneIDs"

definition DigAdmissible :: "reservations \<Rightarrow> node_id \<Rightarrow> DigAsker \<Rightarrow> bool" where
  "DigAdmissible t lane ben = list_all (\<lambda>h. Owns ben (h_order h)) (activeMouthRows t lane)"

definition ReleaseLane :: "reservations \<Rightarrow> order_id \<Rightarrow> node_id \<Rightarrow> reservations" where
  "ReleaseLane t owner lane = delete_rows (owner_mouth owner lane) t"

definition ReleaseLaneHandoff :: "reservations \<Rightarrow> order_id \<Rightarrow> node_id \<Rightarrow> reservations" where
  "ReleaseLaneHandoff t owner lane = delete_rows (\<lambda>r. owner_mouth owner lane r \<and> r_mode r \<noteq> ModeDig) t"

definition lanes_of :: "order_id \<Rightarrow> reservations \<Rightarrow> node_id list" where
  "lanes_of owner t =
     map (\<lambda>r. case r_node r of Some n \<Rightarrow> n | None \<Rightarrow> 0) (filter (\<lambda>r. r_order r = owner \<and> r_kind r = KindMouth) t)"

definition ReleaseLanesByOwner :: "reservations \<Rightarrow> order_id \<Rightarrow> reservations \<times> node_id list" where
  "ReleaseLanesByOwner t owner =
     (delete_rows (\<lambda>r. r_order r = owner \<and> r_kind r = KindMouth) t, lanes_of owner t)"

definition LanesHeldByOwner :: "reservations \<Rightarrow> order_id \<Rightarrow> node_id list" where
  "LanesHeldByOwner t owner = lanes_of owner t"

definition ListDigHolds :: "reservations \<Rightarrow> (node_id \<times> order_id) list" where
  "ListDigHolds t = sort_key fst
     (map (\<lambda>r. (case r_node r of Some n \<Rightarrow> n | None \<Rightarrow> 0, r_order r))
        (filter (\<lambda>r. r_kind r = KindMouth \<and> r_mode r = ModeDig \<and> r_active r) t))"

definition HandOffLaneToPicker ::
  "reservations \<Rightarrow> node_id \<Rightarrow> order_id \<Rightarrow> order_id \<Rightarrow> string \<Rightarrow> reservations \<times> bool" where
  "HandOffLaneToPicker t lane digOwner picker reservedBy =
     (let P = (\<lambda>r. owner_mouth digOwner lane r \<and> r_mode r = ModeDig) in
      if count_rows P t = 0 then (t, False)
      else let t' = delete_rows P t in
        case List.find (\<lambda>h. h_order h = picker) (activeMouthRows t' lane) of
          Some h \<Rightarrow> (t', h_mode h = ModeOutbound)
        | None \<Rightarrow> (t' @ [mouth_insert picker lane reservedBy ModeOutbound], True))"

definition ExcavationOwner :: "reservations \<Rightarrow> node_id \<Rightarrow> order_id" where
  "ExcavationOwner t lane =
     (case List.find (\<lambda>h. h_mode h = ModeDig \<and> IsExcavation (h_by h)) (activeMouthRows t lane) of
        Some h \<Rightarrow> h_order h | None \<Rightarrow> 0)"

definition DigHoldOwner :: "reservations \<Rightarrow> node_id \<Rightarrow> order_id" where
  "DigHoldOwner t lane =
     (case List.find (\<lambda>h. h_mode h = ModeDig) (activeMouthRows t lane) of Some h \<Rightarrow> h_order h | None \<Rightarrow> 0)"


section \<open>Occupancy\<close>

definition owner_occ :: "order_id \<Rightarrow> node_id \<Rightarrow> reservation \<Rightarrow> bool" where
  "owner_occ owner node r = (r_order r = owner \<and> r_kind r = KindOccupancy \<and> r_node r = Some node)"

definition AcquireOccupancy :: "reservations \<Rightarrow> order_id \<Rightarrow> node_id \<Rightarrow> reservations \<times> bool" where
  "AcquireOccupancy t owner node =
     (if list_ex (\<lambda>r. owner_occ owner node r \<and> r_active r) t then (t, False)
      else (t @ [\<lparr>r_order = owner, r_kind = KindOccupancy, r_bin = None, r_node = Some node,
                  r_state = StateConfirmed, r_by = ''lane-occupancy'', r_mode = ModeNone\<rparr>], True))"

definition ReleaseOccupancy :: "reservations \<Rightarrow> order_id \<Rightarrow> node_id \<Rightarrow> reservations" where
  "ReleaseOccupancy t owner node = delete_rows (owner_occ owner node) t"

definition ReleaseAllOccupancy :: "reservations \<Rightarrow> order_id \<Rightarrow> reservations" where
  "ReleaseAllOccupancy t owner = delete_rows (\<lambda>r. r_order r = owner \<and> r_kind r = KindOccupancy) t"

definition OccupantsOf :: "reservations \<Rightarrow> node_id \<Rightarrow> order_id list" where
  "OccupantsOf t node =
     sort (map r_order (filter (\<lambda>r. r_kind r = KindOccupancy \<and> r_node r = Some node \<and> r_active r) t))"


section \<open>The lane lock\<close>

text \<open>
  \<^verbatim>\<open>LaneLock\<close> holds nothing but the database handle.  \<^verbatim>\<open>readable\<close> says whether the query the
  method issues answers; the two dispositions of a failed read differ on purpose.
\<close>

definition TryLockFor ::
  "bool \<Rightarrow> reservations \<Rightarrow> node_id \<Rightarrow> order_id \<Rightarrow> DigAsker \<Rightarrow> reservations \<times> bool" where
  "TryLockFor readable t lane orderID ben =
     (if \<not> readable then (t, False)
      else case AcquireLanesFor t orderID ModeDig ben ByExcavation [lane] of
             (t', None) \<Rightarrow> (t', True)
           | (t', Some _) \<Rightarrow> (t', False))"

definition TryLock :: "bool \<Rightarrow> reservations \<Rightarrow> node_id \<Rightarrow> order_id \<Rightarrow> reservations \<times> bool" where
  "TryLock readable t lane orderID = TryLockFor readable t lane orderID Anyone"

definition Unlock :: "reservations \<Rightarrow> node_id \<Rightarrow> order_id \<Rightarrow> reservations" where
  "Unlock t lane orderID = ReleaseLane t orderID lane"

definition UnlockByOwner :: "reservations \<Rightarrow> order_id \<Rightarrow> reservations \<times> node_id list" where
  "UnlockByOwner t orderID = ReleaseLanesByOwner t orderID"

definition IsLocked :: "bool \<Rightarrow> reservations \<Rightarrow> node_id \<Rightarrow> bool" where
  "IsLocked readable t lane = (if \<not> readable then True else DigHoldOwner t lane \<noteq> 0)"

definition CanTakeFor :: "bool \<Rightarrow> reservations \<Rightarrow> node_id \<Rightarrow> DigAsker \<Rightarrow> bool" where
  "CanTakeFor readable t lane ben = (if \<not> readable then False else DigAdmissible t lane ben)"

definition LockedBy :: "bool \<Rightarrow> reservations \<Rightarrow> node_id \<Rightarrow> order_id" where
  "LockedBy readable t lane = (if \<not> readable then 0 else DigHoldOwner t lane)"


section \<open>Runs\<close>

text \<open>
  \<^verbatim>\<open>E\<close> is the rescue relation of a run: \<^verbatim>\<open>(owner, x)\<close> in \<^verbatim>\<open>E\<close> says that \<^verbatim>\<open>owner\<close> may take a lane
  for the benefit of \<^verbatim>\<open>x\<close>.  With the empty relation every dig is raised for its own owner
  or for nobody.
\<close>

definition excused :: "(order_id \<times> order_id) set \<Rightarrow> order_id \<Rightarrow> order_id \<Rightarrow> bool" where
  "excused E x y = ((x, y) \<in> E \<or> (y, x) \<in> E)"

definition serves :: "(order_id \<times> order_id) set \<Rightarrow> order_id \<Rightarrow> DigAsker \<Rightarrow> bool" where
  "serves E owner ben = (\<forall>x. Owns ben x \<longrightarrow> x = owner \<or> (owner, x) \<in> E)"

inductive res_reach :: "(order_id \<times> order_id) set \<Rightarrow> reservations \<Rightarrow> bool" for E where
  reach_empty: "res_reach E []"
| reach_acquire_bin: "res_reach E t \<Longrightarrow> acquire t ord (BinRef b) tag = Inr t' \<Longrightarrow> res_reach E t'"
| reach_acquire_slot: "res_reach E t \<Longrightarrow> acquire t ord (SlotRef n) tag = Inr t' \<Longrightarrow> res_reach E t'"
| reach_confirm: "res_reach E t \<Longrightarrow> res_reach E (confirm t ord rf)"
| reach_release: "res_reach E t \<Longrightarrow> res_reach E (release t ord rf)"
| reach_release_order: "res_reach E t \<Longrightarrow> res_reach E (ReleaseByOrder t ord)"
| reach_release_bin: "res_reach E t \<Longrightarrow> res_reach E (ReleaseByBin t b)"
| reach_release_node: "res_reach E t \<Longrightarrow> res_reach E (ReleaseByNode t n)"
| reach_reap: "res_reach E t \<Longrightarrow> res_reach E (fst (ReapOrphaned ost t))"
| reach_lanes: "res_reach E t \<Longrightarrow> m \<noteq> ModeNone \<Longrightarrow> serves E owner ben \<Longrightarrow>
    res_reach E (fst (AcquireLanesFor t owner m ben tag lanes))"
| reach_release_lane: "res_reach E t \<Longrightarrow> res_reach E (ReleaseLane t owner lane)"
| reach_release_handoff: "res_reach E t \<Longrightarrow> res_reach E (ReleaseLaneHandoff t owner lane)"
| reach_release_lanes: "res_reach E t \<Longrightarrow> res_reach E (fst (ReleaseLanesByOwner t owner))"
| reach_handoff: "res_reach E t \<Longrightarrow>
    (\<And>x. excused E digOwner x \<Longrightarrow> x = picker \<or> excused E picker x) \<Longrightarrow>
    res_reach E (fst (HandOffLaneToPicker t lane digOwner picker tag))"
| reach_occupy: "res_reach E t \<Longrightarrow> res_reach E (fst (AcquireOccupancy t owner n))"
| reach_vacate: "res_reach E t \<Longrightarrow> res_reach E (ReleaseOccupancy t owner n)"
| reach_vacate_all: "res_reach E t \<Longrightarrow> res_reach E (ReleaseAllOccupancy t owner)"

definition kind_target_ok :: "reservation \<Rightarrow> bool" where
  "kind_target_ok r = (if r_kind r = KindBin then r_bin r \<noteq> None \<and> r_node r = None
                       else r_node r \<noteq> None \<and> r_bin r = None)"

definition res_inv :: "reservations \<Rightarrow> bool" where
  "res_inv t \<longleftrightarrow>
     list_all kind_target_ok t \<and>
     list_all (\<lambda>r. r_kind r = KindMouth \<longrightarrow> r_mode r \<noteq> ModeNone \<and> r_state r = StateConfirmed) t \<and>
     uniq_key (\<lambda>r. r_kind r = KindBin) r_bin t \<and>
     uniq_key (\<lambda>r. r_kind r = KindSlot) r_node t \<and>
     uniq_key (\<lambda>r. r_kind r = KindMouth) (\<lambda>r. (r_order r, r_node r)) t \<and>
     uniq_key (\<lambda>r. r_kind r = KindOccupancy) (\<lambda>r. (r_order r, r_node r)) t"

definition mouths_compatible :: "(order_id \<times> order_id) set \<Rightarrow> reservations \<Rightarrow> bool" where
  "mouths_compatible E t \<longleftrightarrow>
     (\<forall>r\<in>set t. \<forall>r'\<in>set t. r_kind r = KindMouth \<longrightarrow> r_kind r' = KindMouth \<longrightarrow> r_node r = r_node r' \<longrightarrow>
        r_order r \<noteq> r_order r' \<longrightarrow>
        (r_mode r = r_mode r' \<and> r_mode r \<noteq> ModeDig) \<or> excused E (r_order r) (r_order r'))"


section \<open>Admission\<close>

lemma r_active_all [simp]: "r_active r"
  by (cases "r_state r") (simp_all add: r_active_def)

lemma set_activeMouthRows [table_simps]:
  "set (activeMouthRows t lane) =
     (\<lambda>r. \<lparr>h_order = r_order r, h_mode = r_mode r, h_by = r_by r\<rparr>) ` {r \<in> set t. mouth_row lane r}"
  by (auto simp: activeMouthRows_def)

lemma admit_loop_None:
  "admit_loop owner m ben hs holds other = None \<longleftrightarrow>
     (\<exists>h\<in>set hs. h_order h \<noteq> owner \<and> \<not> Owns ben (h_order h) \<and> (m = ModeDig \<or> h_mode h \<noteq> m))"
  by (induction owner m ben hs holds other rule: admit_loop.induct) auto

lemma admit_loop_Some:
  "admit_loop owner m ben hs holds other = Some (holds', other') \<Longrightarrow>
   \<forall>h\<in>set hs. h_mode h \<noteq> ModeNone \<Longrightarrow>
     (holds' \<longleftrightarrow> holds \<or> (\<exists>h\<in>set hs. h_order h = owner \<and> h_mode h = m)) \<and>
     (other' = ModeNone \<longleftrightarrow> other = ModeNone \<and> (\<forall>h\<in>set hs. h_order h = owner \<longrightarrow> h_mode h = m))"
  by (induction owner m ben hs holds other rule: admit_loop.induct) (auto split: if_splits)

lemma res_inv_mode:
  "res_inv t \<Longrightarrow> r \<in> set t \<Longrightarrow> mouth_row lane r \<Longrightarrow> r_mode r \<noteq> ModeNone"
  by (auto simp: res_inv_def list_all_iff mouth_row_def)

lemma res_inv_one_mouth:
  "res_inv t \<Longrightarrow> r \<in> set t \<Longrightarrow> r' \<in> set t \<Longrightarrow> owner_mouth owner lane r \<Longrightarrow> owner_mouth owner lane r' \<Longrightarrow> r = r'"
  unfolding res_inv_def
  by (elim conjE, erule uniq_keyD [where P = "\<lambda>r. r_kind r = KindMouth"])
    (auto simp: owner_mouth_def mouth_row_def)

definition blocked :: "reservations \<Rightarrow> node_id \<Rightarrow> order_id \<Rightarrow> mode \<Rightarrow> DigAsker \<Rightarrow> bool" where
  "blocked t lane owner m ben \<longleftrightarrow>
     (\<exists>r\<in>set t. mouth_row lane r \<and> r_order r \<noteq> owner \<and> \<not> Owns ben (r_order r) \<and> (m = ModeDig \<or> r_mode r \<noteq> m))"

lemma admitMouth_cases:
  assumes inv: "res_inv t"
  shows "admitMouth t lane owner m ben =
    (if blocked t lane owner m ben then Inr admitConflict
     else if \<exists>r\<in>set t. owner_mouth owner lane r \<and> r_mode r \<noteq> m then
       (if m = ModeDig \<and> Owns ben owner then Inr admitUpgrade else admitMouth t lane owner m ben)
     else if \<exists>r\<in>set t. owner_mouth owner lane r then Inr admitIdempotent else Inr admitFresh)" (is ?cases)
    and "\<not> blocked t lane owner m ben \<Longrightarrow> \<exists>r\<in>set t. owner_mouth owner lane r \<and> r_mode r \<noteq> m \<Longrightarrow>
      \<not> (m = ModeDig \<and> Owns ben owner) \<Longrightarrow> \<exists>e. admitMouth t lane owner m ben = Inl e" (is "_ \<Longrightarrow> _ \<Longrightarrow> _ \<Longrightarrow> ?err")
proof -
  let ?loop = "admit_loop owner m ben (activeMouthRows t lane) False ModeNone"
  have none: "?loop = None \<longleftrightarrow> blocked t lane owner m ben"
    by (auto simp: admit_loop_None blocked_def set_activeMouthRows)
  have modes: "\<forall>h\<in>set (activeMouthRows t lane). h_mode h \<noteq> ModeNone"
    using res_inv_mode [OF inv] by (auto simp: set_activeMouthRows)
  have some: "(holds \<longleftrightarrow> (\<exists>r\<in>set t. owner_mouth owner lane r \<and> r_mode r = m)) \<and>
      (other = ModeNone \<longleftrightarrow> (\<forall>r\<in>set t. owner_mouth owner lane r \<longrightarrow> r_mode r = m))"
    if "?loop = Some (holds, other)" for holds other
    using admit_loop_Some [OF that modes] by (auto simp: set_activeMouthRows owner_mouth_def)
  show ?cases
    using none some by (cases ?loop) (fastforce simp: admitMouth_def)+
  show ?err if "\<not> blocked t lane owner m ben" "\<exists>r\<in>set t. owner_mouth owner lane r \<and> r_mode r \<noteq> m"
    "\<not> (m = ModeDig \<and> Owns ben owner)"
    using that none some by (cases ?loop) (auto simp: admitMouth_def)
qed


section \<open>Taking a lane\<close>

lemma owner_mouth_fields [simp]:
  "owner_mouth owner lane (r\<lparr>r_mode := m, r_by := b\<rparr>) = owner_mouth owner lane r"
  "owner_mouth owner lane (r\<lparr>r_by := b\<rparr>) = owner_mouth owner lane r"
  by (simp_all add: owner_mouth_def mouth_row_def)

lemma owner_mouth_insert [simp]:
  "owner_mouth owner lane (mouth_insert owner' lane' tag m) \<longleftrightarrow> owner = owner' \<and> lane = lane'"
  by (auto simp: owner_mouth_def mouth_row_def mouth_insert_def)

definition same_target :: "reservation \<Rightarrow> reservation \<Rightarrow> bool" where
  "same_target r r' \<longleftrightarrow> r_kind r' = r_kind r \<and> r_bin r' = r_bin r \<and> r_node r' = r_node r \<and>
     r_order r' = r_order r \<and> r_state r' = r_state r"

lemma same_target_owner_mouth: "same_target r r' \<Longrightarrow> owner_mouth owner lane r' = owner_mouth owner lane r"
  by (simp add: same_target_def owner_mouth_def mouth_row_def)

lemma take_laneE:
  assumes inv: "res_inv t" and ok: "take_lane t owner m ben tag lane = Inr t'"
  obtains
    (rewrite) f where "\<not> blocked t lane owner m ben" "t' = update_rows (owner_mouth owner lane) f t"
      "\<And>r. same_target r (f r)" "\<And>r. r \<in> set t \<Longrightarrow> owner_mouth owner lane r \<Longrightarrow> r_mode (f r) = m"
      "\<exists>r\<in>set t. owner_mouth owner lane r"
  | (fresh) "\<not> blocked t lane owner m ben" "t' = t @ [mouth_insert owner lane tag m]"
      "\<forall>r\<in>set t. \<not> owner_mouth owner lane r"
proof -
  note adm = admitMouth_cases [OF inv, of lane owner m ben]
  consider
      (idem) "admitMouth t lane owner m ben = Inr admitIdempotent"
    | (up) "admitMouth t lane owner m ben = Inr admitUpgrade"
    | (new) "admitMouth t lane owner m ben = Inr admitFresh"
    using ok by (auto simp: take_lane_def split: sum.splits mouthVerdict.splits)
  then show thesis
  proof cases
    case idem
    let ?f = "\<lambda>r. if IsExcavation tag then r\<lparr>r_by := tag\<rparr> else r"
    show thesis
    proof (rule rewrite [of ?f])
      have "update_rows (\<lambda>r. owner_mouth owner lane r \<and> r_by r \<noteq> tag) (\<lambda>r. r\<lparr>r_by := tag\<rparr>) t =
          update_rows (owner_mouth owner lane) (\<lambda>r. r\<lparr>r_by := tag\<rparr>) t"
        by (auto simp: update_rows_def)
      with ok idem show "t' = update_rows (owner_mouth owner lane) ?f t"
        by (cases "IsExcavation tag") (auto simp: take_lane_def update_rows_def)
    qed (use idem adm in \<open>auto simp: same_target_def split: if_splits\<close>)
  next
    case up
    show thesis
    proof (rule rewrite [of "\<lambda>r. r\<lparr>r_mode := m, r_by := tag\<rparr>"])
      from ok up show "t' = update_rows (owner_mouth owner lane) (\<lambda>r. r\<lparr>r_mode := m, r_by := tag\<rparr>) t"
        by (simp add: take_lane_def)
    qed (use up adm in \<open>auto simp: same_target_def split: if_splits\<close>)
  next
    case new
    show thesis
      by (rule fresh) (use new adm ok in \<open>auto simp: take_lane_def split: if_splits\<close>)
  qed
qed

lemma mouth_insert_fields [simp]:
  "r_order (mouth_insert owner lane tag m) = owner" "r_kind (mouth_insert owner lane tag m) = KindMouth"
  "r_bin (mouth_insert owner lane tag m) = None" "r_node (mouth_insert owner lane tag m) = Some lane"
  "r_state (mouth_insert owner lane tag m) = StateConfirmed" "r_mode (mouth_insert owner lane tag m) = m"
  by (simp_all add: mouth_insert_def)

lemma take_lane_effect:
  assumes inv: "res_inv t" and ok: "take_lane t owner m ben tag lane = Inr t'"
  shows "delete_rows (owner_mouth owner lane) t' = delete_rows (owner_mouth owner lane) t"
    and "\<exists>r\<in>set t'. owner_mouth owner lane r"
    and "\<forall>r\<in>set t'. owner_mouth owner lane r \<longrightarrow> r_mode r = m"
    and "\<not> blocked t lane owner m ben"
proof -
  let ?Q = "owner_mouth owner lane"
  have "delete_rows ?Q t' = delete_rows ?Q t \<and> (\<exists>r\<in>set t'. ?Q r) \<and>
    (\<forall>r\<in>set t'. ?Q r \<longrightarrow> r_mode r = m) \<and> \<not> blocked t lane owner m ben"
    using inv ok
  proof (cases rule: take_laneE)
    case (rewrite f)
    then show ?thesis
      using same_target_owner_mouth [OF rewrite(3)] by (auto simp: set_update_rows delete_update_rows bex_Un)
  next
    case fresh
    then show ?thesis by (auto simp: delete_rows_def)
  qed
  then show "delete_rows ?Q t' = delete_rows ?Q t" and "\<exists>r\<in>set t'. ?Q r"
    and "\<forall>r\<in>set t'. ?Q r \<longrightarrow> r_mode r = m" and "\<not> blocked t lane owner m ben"
    by auto
qed

lemma res_inv_update:
  assumes "res_inv t"
    and "\<And>r. P r \<Longrightarrow> r_kind (f r) = r_kind r \<and> r_bin (f r) = r_bin r \<and> r_node (f r) = r_node r \<and> r_order (f r) = r_order r"
    and "\<And>r. r \<in> set t \<Longrightarrow> P r \<Longrightarrow> r_kind r = KindMouth \<Longrightarrow> r_mode (f r) \<noteq> ModeNone \<and> r_state (f r) = StateConfirmed"
  shows "res_inv (update_rows P f t)"
proof -
  have "kind_target_ok (f r) = kind_target_ok r" if "P r" for r
    using assms(2) [OF that] by (simp add: kind_target_ok_def)
  with assms show ?thesis
    by (auto simp: res_inv_def uniq_key_update list_all_iff set_update_rows)
qed

lemma res_inv_delete: "res_inv t \<Longrightarrow> res_inv (delete_rows P t)"
  by (auto simp: res_inv_def uniq_key_delete list_all_iff)

lemma res_inv_insert_mouth:
  assumes "res_inv t" and "m \<noteq> ModeNone" and "\<forall>r\<in>set t. \<not> owner_mouth owner lane r"
  shows "res_inv (t @ [mouth_insert owner lane tag m])"
  using assms
  by (auto simp: res_inv_def uniq_key_append1 list_all_iff mouth_insert_def kind_target_ok_def
      owner_mouth_def mouth_row_def)

lemma res_inv_take_lane:
  assumes inv: "res_inv t" and m: "m \<noteq> ModeNone" and ok: "take_lane t owner m ben tag lane = Inr t'"
  shows "res_inv t'"
  using inv ok
proof (cases rule: take_laneE)
  case (rewrite f)
  have "r \<in> set t \<Longrightarrow> r_kind r = KindMouth \<Longrightarrow> r_state r = StateConfirmed" for r
    using inv by (auto simp: res_inv_def list_all_iff)
  with rewrite m inv show ?thesis
    by (auto simp: same_target_def intro!: res_inv_update)
qed (use inv m in \<open>auto intro: res_inv_insert_mouth\<close>)


lemma delete_rows_eq_iff:
  "delete_rows P t' = delete_rows P t \<Longrightarrow> \<not> P r \<Longrightarrow> r \<in> set t' \<longleftrightarrow> r \<in> set t"
  by (metis (mono_tags, lifting) mem_Collect_eq set_delete_rows)

lemma blocked_other_rows:
  "(\<And>r. r_order r \<noteq> owner \<Longrightarrow> r \<in> set t' \<longleftrightarrow> r \<in> set t) \<Longrightarrow> blocked t' lane owner m ben = blocked t lane owner m ben"
  by (auto simp: blocked_def)

lemma mouths_compatible_take_lane:
  assumes inv: "res_inv t" and ok: "take_lane t owner m ben tag lane = Inr t'"
    and ser: "serves E owner ben" and comp: "mouths_compatible E t"
  shows "mouths_compatible E t'"
proof -
  note eff = take_lane_effect [OF inv ok]
  note old = delete_rows_eq_iff [OF eff(1)]
  have own: "(r_mode r = r_mode r' \<and> r_mode r \<noteq> ModeDig) \<or> excused E (r_order r) (r_order r')"
    if "r \<in> set t'" "r' \<in> set t'" "owner_mouth owner lane r" "mouth_row lane r'" "r_order r \<noteq> r_order r'" for r r'
  proof -
    have "r' \<in> set t" using that old [of r'] by (simp add: owner_mouth_def)
    with that eff(4) have "Owns ben (r_order r') \<or> (r_mode r' = m \<and> m \<noteq> ModeDig)"
      by (auto simp: blocked_def owner_mouth_def)
    then show ?thesis
      using that eff(3) ser by (auto simp: serves_def excused_def owner_mouth_def)
  qed
  show ?thesis
    unfolding mouths_compatible_def
  proof (intro ballI impI)
    fix r r'
    assume A: "r \<in> set t'" "r' \<in> set t'" "r_kind r = KindMouth" "r_kind r' = KindMouth"
      "r_node r = r_node r'" "r_order r \<noteq> r_order r'"
    consider "owner_mouth owner lane r" | "owner_mouth owner lane r'"
      | "\<not> owner_mouth owner lane r" "\<not> owner_mouth owner lane r'" by blast
    then show "(r_mode r = r_mode r' \<and> r_mode r \<noteq> ModeDig) \<or> excused E (r_order r) (r_order r')"
    proof cases
      case 1
      then show ?thesis using own [of r r'] A by (auto simp: owner_mouth_def mouth_row_def)
    next
      case 2
      then show ?thesis using own [of r' r] A by (auto simp: owner_mouth_def mouth_row_def excused_def)
    next
      case 3
      then show ?thesis using comp A old by (auto simp: mouths_compatible_def)
    qed
  qed
qed

lemma take_lanes_effect:
  assumes "res_inv t" and "m \<noteq> ModeNone" and "take_lanes t owner m ben tag lanes = Inr t'"
  shows "res_inv t' \<and>
     (\<forall>r. (\<forall>lane\<in>set lanes. \<not> owner_mouth owner lane r) \<longrightarrow> (r \<in> set t' \<longleftrightarrow> r \<in> set t)) \<and>
     (\<forall>lane\<in>set lanes. (\<exists>r\<in>set t'. owner_mouth owner lane r \<and> r_mode r = m) \<and> \<not> blocked t lane owner m ben)"
  using assms
proof (induction lanes arbitrary: t)
  case (Cons lane lanes)
  then obtain u where u: "take_lane t owner m ben tag lane = Inr u" "take_lanes u owner m ben tag lanes = Inr t'"
    by (auto split: sum.splits)
  note eff = take_lane_effect [OF Cons.prems(1) u(1)]
  note old = delete_rows_eq_iff [OF eff(1)]
  have inv_u: "res_inv u" using Cons.prems u by (auto intro: res_inv_take_lane)
  note IH = Cons.IH [OF inv_u Cons.prems(2) u(2)]
  have bl: "blocked u l owner m ben = blocked t l owner m ben" for l
    by (rule blocked_other_rows) (auto simp: old owner_mouth_def)
  obtain r where r: "r \<in> set u" "owner_mouth owner lane r" "r_mode r = m" using eff by blast
  have "\<exists>r\<in>set t'. owner_mouth owner lane r \<and> r_mode r = m"
  proof (cases "lane \<in> set lanes")
    case False
    then have "\<forall>l\<in>set lanes. \<not> owner_mouth owner l r" using r by (auto simp: owner_mouth_def mouth_row_def)
    then show ?thesis using IH r by auto
  qed (use IH in auto)
  then show ?case using IH bl eff(4) old by auto
qed simp

lemma mouths_compatible_take_lanes:
  "res_inv t \<Longrightarrow> m \<noteq> ModeNone \<Longrightarrow> take_lanes t owner m ben tag lanes = Inr t' \<Longrightarrow> serves E owner ben \<Longrightarrow>
   mouths_compatible E t \<Longrightarrow> mouths_compatible E t'"
proof (induction lanes arbitrary: t)
  case (Cons lane lanes)
  then obtain u where u: "take_lane t owner m ben tag lane = Inr u" "take_lanes u owner m ben tag lanes = Inr t'"
    by (auto split: sum.splits)
  have "res_inv u" using Cons.prems u(1) by (auto intro: res_inv_take_lane)
  moreover have "mouths_compatible E u"
    by (rule mouths_compatible_take_lane [OF Cons.prems(1) u(1) Cons.prems(4,5)])
  ultimately show ?case using Cons.IH [OF _ Cons.prems(2) u(2) Cons.prems(4)] by blast
qed simp

lemma mouths_compatible_mono:
  assumes "mouths_compatible E t"
    and "\<And>r. r \<in> set t' \<Longrightarrow> r_kind r = KindMouth \<Longrightarrow> \<exists>q\<in>set t. r_kind q = KindMouth \<and> r_node q = r_node r \<and>
      r_order q = r_order r \<and> r_mode q = r_mode r"
  shows "mouths_compatible E t'"
  unfolding mouths_compatible_def
proof (intro ballI impI)
  fix r r'
  assume A: "r \<in> set t'" "r' \<in> set t'" "r_kind r = KindMouth" "r_kind r' = KindMouth"
    "r_node r = r_node r'" "r_order r \<noteq> r_order r'"
  obtain q where q: "q \<in> set t" "r_kind q = KindMouth" "r_node q = r_node r" "r_order q = r_order r" "r_mode q = r_mode r"
    using assms(2) [of r] A by blast
  obtain q' where q': "q' \<in> set t" "r_kind q' = KindMouth" "r_node q' = r_node r'" "r_order q' = r_order r'" "r_mode q' = r_mode r'"
    using assms(2) [of r'] A by blast
  show "(r_mode r = r_mode r' \<and> r_mode r \<noteq> ModeDig) \<or> excused E (r_order r) (r_order r')"
    using assms(1) [unfolded mouths_compatible_def, rule_format, OF q(1) q'(1)] q q' A by simp
qed


section \<open>Invariants of every run\<close>

definition run_inv :: "(order_id \<times> order_id) set \<Rightarrow> reservations \<Rightarrow> bool" where
  "run_inv E t \<longleftrightarrow> res_inv t \<and> mouths_compatible E t"

lemma run_inv_delete: "run_inv E t \<Longrightarrow> run_inv E (delete_rows P t)"
  unfolding run_inv_def
proof (elim conjE, intro conjI)
  assume "mouths_compatible E t"
  then show "mouths_compatible E (delete_rows P t)" by (rule mouths_compatible_mono) auto
qed (rule res_inv_delete)

lemma run_inv_insert_other:
  assumes "run_inv E t" and "r_kind r \<noteq> KindMouth" and "kind_target_ok r"
    and "r_kind r = KindBin \<Longrightarrow> \<forall>q\<in>set t. r_kind q = KindBin \<longrightarrow> r_bin q \<noteq> r_bin r"
    and "r_kind r = KindSlot \<Longrightarrow> \<forall>q\<in>set t. r_kind q = KindSlot \<longrightarrow> r_node q \<noteq> r_node r"
    and "r_kind r = KindOccupancy \<Longrightarrow>
      \<forall>q\<in>set t. r_kind q = KindOccupancy \<longrightarrow> (r_order q, r_node q) \<noteq> (r_order r, r_node r)"
  shows "run_inv E (t @ [r])"
proof -
  have "mouths_compatible E (t @ [r])"
    by (rule mouths_compatible_mono [of E t]) (use assms(1,2) in \<open>auto simp: run_inv_def\<close>)
  with assms show ?thesis
    by (simp add: run_inv_def res_inv_def uniq_key_append1)
qed

lemma run_inv_acquire:
  assumes "run_inv E t" and "acquire t ord rf tag = Inr t'" and "rf = BinRef i \<or> rf = SlotRef i"
  shows "run_inv E t'"
proof -
  from assms(2,3) obtain r where t': "t' = t @ [r]" and r: "r_kind r \<noteq> KindMouth" "r_kind r \<noteq> KindOccupancy"
      "kind_target_ok r" and free: "\<forall>q\<in>set t. \<not> index_conflict rf q"
      and keys: "rf = BinRef i \<and> r_kind r = KindBin \<and> r_bin r = Some i \<or> rf = SlotRef i \<and> r_kind r = KindSlot \<and> r_node r = Some i"
    by (auto simp: acquire_def BinRef_def SlotRef_def kind_target_ok_def list_ex_iff split: if_splits)
  show ?thesis
    unfolding t'
    by (rule run_inv_insert_other [OF assms(1)])
      (use r free keys in \<open>auto simp: index_conflict_def BinRef_def SlotRef_def\<close>)
qed

lemma run_inv_confirm: "run_inv E t \<Longrightarrow> run_inv E (confirm t ord rf)"
  unfolding run_inv_def confirm_def
proof (intro conjI; elim conjE)
  assume inv: "res_inv t"
  then show "res_inv (update_rows (\<lambda>r. ref_row ord rf r \<and> r_state r = StatePending) (\<lambda>r. r\<lparr>r_state := StateConfirmed\<rparr>) t)"
    by (rule res_inv_update) (use inv in \<open>auto simp: res_inv_def list_all_iff\<close>)
  assume "mouths_compatible E t"
  then show "mouths_compatible E (update_rows (\<lambda>r. ref_row ord rf r \<and> r_state r = StatePending) (\<lambda>r. r\<lparr>r_state := StateConfirmed\<rparr>) t)"
    by (rule mouths_compatible_mono) (auto simp: set_update_rows)
qed

lemma run_inv_lanes:
  "run_inv E t \<Longrightarrow> m \<noteq> ModeNone \<Longrightarrow> serves E owner ben \<Longrightarrow> run_inv E (fst (AcquireLanesFor t owner m ben tag lanes))"
  using take_lanes_effect [of t m owner ben tag "sortedUniqueLanes lanes"]
    mouths_compatible_take_lanes [of t m owner ben tag "sortedUniqueLanes lanes" _ E]
  by (simp add: run_inv_def AcquireLanesFor_def split: sum.splits)

lemma find_picker:
  assumes inv: "res_inv t"
  shows "(case List.find (\<lambda>h. h_order h = picker) (activeMouthRows t lane) of
            Some h \<Rightarrow> (t, h_mode h = ModeOutbound)
          | None \<Rightarrow> (t @ [new], True)) =
        (if \<exists>r\<in>set t. owner_mouth picker lane r
          then (t, \<exists>r\<in>set t. owner_mouth picker lane r \<and> r_mode r = ModeOutbound)
         else (t @ [new], True))"
proof (cases "List.find (\<lambda>h. h_order h = picker) (activeMouthRows t lane)")
  case None
  then have "\<not> (\<exists>r\<in>set t. owner_mouth picker lane r)"
    by (auto simp: find_None_iff set_activeMouthRows owner_mouth_def)
  with None show ?thesis by simp
next
  case (Some h)
  then have "h \<in> set (activeMouthRows t lane)" "h_order h = picker" using find_SomeD by force+
  then obtain r where r: "r \<in> set t" "owner_mouth picker lane r" "h_mode h = r_mode r"
    by (auto simp: set_activeMouthRows owner_mouth_def)
  have "r_mode q = h_mode h" if "q \<in> set t" "owner_mouth picker lane q" for q
    using res_inv_one_mouth [OF inv that(1) r(1) that(2) r(2)] r(3) by simp
  then have "(\<exists>r\<in>set t. owner_mouth picker lane r \<and> r_mode r = ModeOutbound) \<longleftrightarrow> h_mode h = ModeOutbound"
    using r(1,2) by auto
  with Some r(1,2) show ?thesis by auto
qed

lemma HandOff_cases:
  assumes inv: "res_inv t"
  shows "HandOffLaneToPicker t lane digOwner picker tag =
    (let P = (\<lambda>r. owner_mouth digOwner lane r \<and> r_mode r = ModeDig); t' = delete_rows P t in
     if \<forall>r\<in>set t. \<not> P r then (t, False)
     else if \<exists>r\<in>set t'. owner_mouth picker lane r
          then (t', \<exists>r\<in>set t'. owner_mouth picker lane r \<and> r_mode r = ModeOutbound)
     else (t' @ [mouth_insert picker lane tag ModeOutbound], True))"
  unfolding HandOffLaneToPicker_def Let_def count_rows_0 find_picker [OF res_inv_delete [OF inv]] ..


lemma run_inv_handoff:
  assumes inv: "run_inv E t" and resc: "\<And>x. excused E digOwner x \<Longrightarrow> x = picker \<or> excused E picker x"
  shows "run_inv E (fst (HandOffLaneToPicker t lane digOwner picker tag))"
proof -
  let ?P = "\<lambda>r. owner_mouth digOwner lane r \<and> r_mode r = ModeDig"
  let ?new = "mouth_insert picker lane tag ModeOutbound"
  have res: "res_inv t" and comp: "mouths_compatible E t" using inv by (simp_all add: run_inv_def)
  have del: "run_inv E (delete_rows ?P t)" by (rule run_inv_delete [OF inv])
  have fresh: "run_inv E (delete_rows ?P t @ [?new])"
    if d: "d \<in> set t" "?P d" and free: "\<forall>r\<in>set (delete_rows ?P t). \<not> owner_mouth picker lane r" for d
  proof -
    have other: "excused E picker (r_order r)"
      if r: "r \<in> set t" "\<not> ?P r" "mouth_row lane r" "r_order r \<noteq> picker" for r
    proof -
      have "r_order r \<noteq> digOwner"
        using res_inv_one_mouth [OF res r(1) d(1), of digOwner lane] r d by (auto simp: owner_mouth_def)
      then have "excused E digOwner (r_order r)"
        using comp [unfolded mouths_compatible_def, rule_format, OF d(1) r(1)] d r
        by (auto simp: owner_mouth_def mouth_row_def)
      with resc r(4) show ?thesis by blast
    qed
    have sym: "excused E x y = excused E y x" for x y by (auto simp: excused_def)
    have "mouths_compatible E (delete_rows ?P t @ [?new])"
      using del other sym by (auto simp: run_inv_def mouths_compatible_def mouth_row_def)
    moreover have "res_inv (delete_rows ?P t @ [?new])"
      using del free by (auto simp: run_inv_def intro: res_inv_insert_mouth)
    ultimately show ?thesis by (simp add: run_inv_def)
  qed
  show ?thesis
    unfolding HandOff_cases [OF res] Let_def using inv del fresh by (auto simp del: set_delete_rows)
qed

lemma run_inv_occupy: "run_inv E t \<Longrightarrow> run_inv E (fst (AcquireOccupancy t owner n))"
  unfolding AcquireOccupancy_def
  by (auto simp: list_ex_iff owner_occ_def kind_target_ok_def intro!: run_inv_insert_other)

lemmas release_defs = release_def ReleaseByOrder_def ReleaseByBin_def ReleaseByNode_def ReapOrphaned_def
  ReleaseLane_def ReleaseLaneHandoff_def ReleaseLanesByOwner_def ReleaseOccupancy_def ReleaseAllOccupancy_def

lemma res_reach_run_inv: "res_reach E t \<Longrightarrow> run_inv E t"
proof (induction rule: res_reach.induct)
  case reach_empty
  show ?case by (simp add: run_inv_def res_inv_def mouths_compatible_def)
next
  case (reach_handoff t digOwner picker lane tag)
  then show ?case by (intro run_inv_handoff)
qed (auto simp: release_defs run_inv_delete run_inv_confirm run_inv_lanes run_inv_occupy intro: run_inv_acquire)


section \<open>When a lane is granted\<close>

definition admissible :: "reservations \<Rightarrow> order_id \<Rightarrow> mode \<Rightarrow> DigAsker \<Rightarrow> node_id \<Rightarrow> bool" where
  "admissible t owner m ben lane \<longleftrightarrow> \<not> blocked t lane owner m ben \<and>
     ((\<forall>r\<in>set t. owner_mouth owner lane r \<longrightarrow> r_mode r = m) \<or> m = ModeDig \<and> Owns ben owner)"

lemma take_lane_succeeds:
  assumes "res_inv t"
  shows "(\<exists>t'. take_lane t owner m ben tag lane = Inr t') \<longleftrightarrow> admissible t owner m ben lane"
proof (cases "blocked t lane owner m ben")
  case True
  then show ?thesis
    using admitMouth_cases(1) [OF assms, of lane owner m ben] by (simp add: take_lane_def admissible_def)
next
  case False
  note adm = admitMouth_cases [OF assms, of lane owner m ben]
  show ?thesis
  proof (cases "\<exists>r\<in>set t. owner_mouth owner lane r \<and> r_mode r \<noteq> m")
    case True
    show ?thesis
    proof (cases "m = ModeDig \<and> Owns ben owner")
      case up: True
      with adm(1) False True have "admitMouth t lane owner m ben = Inr admitUpgrade" by simp
      with up False show ?thesis by (simp add: take_lane_def admissible_def)
    next
      case no: False
      with adm(2) [OF False True] obtain e where "admitMouth t lane owner m ben = Inl e" by blast
      with no True show ?thesis by (auto simp: take_lane_def admissible_def)
    qed
  next
    case same: False
    with adm(1) False have "admitMouth t lane owner m ben = Inr admitIdempotent \<or> admitMouth t lane owner m ben = Inr admitFresh"
      by (simp split: if_splits)
    with same False show ?thesis by (auto simp: take_lane_def admissible_def)
  qed
qed

lemma admissible_after_other_lane:
  assumes "delete_rows (owner_mouth owner lane') t' = delete_rows (owner_mouth owner lane') t" and "lane \<noteq> lane'"
  shows "admissible t' owner m ben lane = admissible t owner m ben lane"
proof -
  note old = delete_rows_eq_iff [OF assms(1)]
  have "blocked t' lane owner m ben = blocked t lane owner m ben"
    by (rule blocked_other_rows) (auto simp: old owner_mouth_def)
  moreover have "owner_mouth owner lane r \<Longrightarrow> r \<in> set t' \<longleftrightarrow> r \<in> set t" for r
    using assms(2) old [of r] by (auto simp: owner_mouth_def mouth_row_def)
  ultimately show ?thesis by (auto simp: admissible_def)
qed

lemma take_lanes_succeeds:
  assumes "res_inv t" and "m \<noteq> ModeNone" and "distinct lanes"
  shows "(\<exists>t'. take_lanes t owner m ben tag lanes = Inr t') \<longleftrightarrow> (\<forall>lane\<in>set lanes. admissible t owner m ben lane)"
  using assms
proof (induction lanes arbitrary: t)
  case (Cons lane lanes)
  show ?case
  proof (cases "take_lane t owner m ben tag lane")
    case (Inl e)
    then show ?thesis using take_lane_succeeds [OF Cons.prems(1), of owner m ben tag lane] by auto
  next
    case (Inr u)
    have "\<forall>l\<in>set lanes. admissible u owner m ben l = admissible t owner m ben l"
      using Cons.prems(3) admissible_after_other_lane [OF take_lane_effect(1) [OF Cons.prems(1) Inr]]
      by (metis distinct.simps(2))
    moreover have "res_inv u" by (rule res_inv_take_lane [OF Cons.prems(1,2) Inr])
    moreover have "admissible t owner m ben lane"
      using Inr take_lane_succeeds [OF Cons.prems(1), of owner m ben tag lane] by blast
    ultimately show ?thesis using Cons.IH [of u] Cons.prems Inr by auto
  qed
qed simp

lemma sortedUniqueLanes_props [simp]:
  "set (sortedUniqueLanes ids) = set ids" "distinct (sortedUniqueLanes ids)" "sorted (sortedUniqueLanes ids)"
proof -
  show "set (sortedUniqueLanes ids) = set ids" by (simp add: sortedUniqueLanes_def)
  show "sorted (sortedUniqueLanes ids)" by (simp add: sortedUniqueLanes_def sorted_remdups_adj)
  show "distinct (sortedUniqueLanes ids)"
    by (simp add: sortedUniqueLanes_def distinct_remdups_adj_sorted)
qed


lemma AcquireLanesFor_None_iff:
  assumes "res_inv t" and "m \<noteq> ModeNone"
  shows "snd (AcquireLanesFor t owner m ben tag lanes) = None \<longleftrightarrow> (\<forall>lane\<in>set lanes. admissible t owner m ben lane)"
  using take_lanes_succeeds [OF assms, of "sortedUniqueLanes lanes" owner ben tag]
  by (auto simp: AcquireLanesFor_def split: sum.splits)

lemma AcquireLanesFor_Some: "AcquireLanesFor t owner m ben tag lanes = (t', Some e) \<Longrightarrow> t' = t"
  by (auto simp: AcquireLanesFor_def split: sum.splits)

lemma AcquireLanesFor_None:
  assumes "res_inv t" and "m \<noteq> ModeNone" and "AcquireLanesFor t owner m ben tag lanes = (t', None)"
  shows "\<forall>lane\<in>set lanes. \<exists>r\<in>set t'. owner_mouth owner lane r \<and> r_mode r = m"
    and "\<forall>r. (\<forall>lane\<in>set lanes. \<not> owner_mouth owner lane r) \<longrightarrow> (r \<in> set t' \<longleftrightarrow> r \<in> set t)"
    and "res_inv t'"
  using take_lanes_effect [OF assms(1,2), of owner ben tag "sortedUniqueLanes lanes" t'] assms(3)
  by (auto simp: AcquireLanesFor_def split: sum.splits)

lemma DigAdmissible_iff: "DigAdmissible t lane ben \<longleftrightarrow> (\<forall>r\<in>set t. mouth_row lane r \<longrightarrow> Owns ben (r_order r))"
  by (auto simp: DigAdmissible_def list_all_iff set_activeMouthRows)

lemma admissible_dig:
  "admissible t owner ModeDig ben lane \<longleftrightarrow>
     DigAdmissible (ReleaseLane t owner lane) lane ben \<and>
     (Owns ben owner \<or> (\<forall>r\<in>set t. owner_mouth owner lane r \<longrightarrow> r_mode r = ModeDig))"
  by (auto simp: admissible_def blocked_def DigAdmissible_iff ReleaseLane_def owner_mouth_def)

lemma TryLockFor_iff:
  assumes "res_inv t"
  shows "snd (TryLockFor readable t lane ord ben) \<longleftrightarrow> readable \<and> admissible t ord ModeDig ben lane"
  using AcquireLanesFor_None_iff [OF assms, of ModeDig ord ben ByExcavation "[lane]"]
  by (auto simp: TryLockFor_def split: prod.splits option.splits)

lemma Owns_Anyone [simp]: "\<not> Owns Anyone x"
  by (simp add: Owns_def Anyone_def)

lemma serves_Anyone [simp]: "serves E owner Anyone"
  by (simp add: serves_def)

lemma DigHoldOwner_zero:
  assumes "\<forall>r\<in>set t. r_order r \<noteq> 0"
  shows "DigHoldOwner t lane \<noteq> 0 \<longleftrightarrow> (\<exists>r\<in>set t. mouth_row lane r \<and> r_mode r = ModeDig)"
proof (cases "List.find (\<lambda>h. h_mode h = ModeDig) (activeMouthRows t lane)")
  case None
  then have "\<not> (\<exists>r\<in>set t. mouth_row lane r \<and> r_mode r = ModeDig)"
    by (auto simp: find_None_iff set_activeMouthRows)
  with None show ?thesis by (simp add: DigHoldOwner_def)
next
  case (Some h)
  from find_SomeD [OF this] assms show ?thesis
    by (auto simp: DigHoldOwner_def Some set_activeMouthRows)
qed

lemma DigHoldOwner_sole:
  assumes "r \<in> set t" "mouth_row lane r" "r_mode r = ModeDig"
    and "\<And>q. q \<in> set t \<Longrightarrow> mouth_row lane q \<Longrightarrow> r_order q = r_order r"
  shows "DigHoldOwner t lane = r_order r"
proof (cases "List.find (\<lambda>h. h_mode h = ModeDig) (activeMouthRows t lane)")
  case None
  then show ?thesis using assms(1-3) by (auto simp: find_None_iff set_activeMouthRows)
next
  case (Some h)
  from find_SomeD [OF this] have "h_order h \<in> r_order ` {q \<in> set t. mouth_row lane q}"
    by (auto simp: set_activeMouthRows)
  then obtain q where "q \<in> set t" "mouth_row lane q" "h_order h = r_order q" by auto
  with assms(4) [of q] Some show ?thesis by (simp add: DigHoldOwner_def)
qed


section \<open>The lane lock as an exclusive lock\<close>

text \<open>
  What a dig planner relies on: a lock taken is held, a failed attempt changes
  nothing, a lock somebody else holds is refused, and giving a lock back frees
  that lane and no other.
\<close>

locale exclusive_lock =
  fixes ok :: "'t \<Rightarrow> bool"
    and try_lock :: "'t \<Rightarrow> 'l \<Rightarrow> int \<Rightarrow> 't \<times> bool"
    and unlock :: "'t \<Rightarrow> 'l \<Rightarrow> int \<Rightarrow> 't"
    and holder :: "'t \<Rightarrow> 'l \<Rightarrow> int"
  assumes ok_try: "ok t \<Longrightarrow> ord \<noteq> 0 \<Longrightarrow> ok (fst (try_lock t lane ord))"
    and ok_unlock: "ok t \<Longrightarrow> ok (unlock t lane ord)"
    and try_holds: "ok t \<Longrightarrow> ord \<noteq> 0 \<Longrightarrow> snd (try_lock t lane ord) \<Longrightarrow> holder (fst (try_lock t lane ord)) lane = ord"
    and try_fails: "ok t \<Longrightarrow> \<not> snd (try_lock t lane ord) \<Longrightarrow> fst (try_lock t lane ord) = t"
    and excluded: "ok t \<Longrightarrow> holder t lane \<noteq> 0 \<Longrightarrow> holder t lane \<noteq> ord \<Longrightarrow> \<not> snd (try_lock t lane ord)"
    and unlock_frees: "ok t \<Longrightarrow> ord \<noteq> 0 \<Longrightarrow> holder t lane = ord \<Longrightarrow> holder (unlock t lane ord) lane = 0"
    and unlock_other: "ok t \<Longrightarrow> holder t lane \<noteq> ord \<Longrightarrow> holder (unlock t lane ord) lane = holder t lane"
begin

lemma second_refused:
  assumes "ok t" and "a \<noteq> 0" and "b \<noteq> 0" and "a \<noteq> b" and "snd (try_lock t lane a)"
  shows "\<not> snd (try_lock (fst (try_lock t lane a)) lane b)"
    and "holder (fst (try_lock (fst (try_lock t lane a)) lane b)) lane = a"
proof -
  let ?u = "fst (try_lock t lane a)"
  have u: "ok ?u" "holder ?u lane = a"
    using ok_try [OF assms(1,2)] try_holds [OF assms(1,2)] assms by blast+
  then show "\<not> snd (try_lock ?u lane b)" using assms excluded [of ?u lane b] by auto
  then show "holder (fst (try_lock ?u lane b)) lane = a" using try_fails [of ?u lane b] u by simp
qed

lemma foreign_unlock_harmless:
  assumes "ok t" and "a \<noteq> 0" and "a \<noteq> b" and "snd (try_lock t lane a)"
  shows "holder (unlock (fst (try_lock t lane a)) lane b) lane = a"
proof -
  let ?u = "fst (try_lock t lane a)"
  have u: "ok ?u" "holder ?u lane = a"
    using ok_try [OF assms(1,2)] try_holds [OF assms(1,2)] assms by blast+
  with assms(3) show ?thesis using unlock_other [of ?u lane b] by simp
qed

end

definition lock_ok :: "reservations \<Rightarrow> bool" where
  "lock_ok t \<longleftrightarrow> run_inv {} t \<and> (\<forall>r\<in>set t. r_order r \<noteq> 0)"

lemma lock_ok_sole:
  "lock_ok t \<Longrightarrow> r \<in> set t \<Longrightarrow> mouth_row lane r \<Longrightarrow> r_mode r = ModeDig \<Longrightarrow> q \<in> set t \<Longrightarrow> mouth_row lane q \<Longrightarrow> r_order q = r_order r"
  unfolding lock_ok_def run_inv_def mouths_compatible_def mouth_row_def excused_def
  by (metis empty_iff)

lemma lock_ok_owner_nonzero: "lock_ok t \<Longrightarrow> r \<in> set t \<Longrightarrow> r_order r \<noteq> 0"
  by (simp add: lock_ok_def)


lemma lock_holder:
  assumes "lock_ok t" and "LockedBy True t lane = h" and "h \<noteq> 0"
  obtains r where "r \<in> set t" "mouth_row lane r" "r_mode r = ModeDig" "r_order r = h"
proof -
  from assms DigHoldOwner_zero [of t lane] obtain r where r: "r \<in> set t" "mouth_row lane r" "r_mode r = ModeDig"
    by (auto simp: lock_ok_def LockedBy_def)
  moreover have "DigHoldOwner t lane = r_order r"
    by (rule DigHoldOwner_sole [OF r]) (rule lock_ok_sole [OF assms(1) r])
  ultimately show thesis using assms(2) that by (simp add: LockedBy_def)
qed

lemma TryLock_ok:
  assumes ok: "lock_ok t" and ord: "ord \<noteq> 0"
  shows "lock_ok (fst (TryLock True t lane ord))"
    and "snd (TryLock True t lane ord) \<Longrightarrow> LockedBy True (fst (TryLock True t lane ord)) lane = ord"
    and "\<not> snd (TryLock True t lane ord) \<Longrightarrow> fst (TryLock True t lane ord) = t"
proof -
  have inv: "res_inv t" using ok by (simp add: lock_ok_def run_inv_def)
  obtain t' res where acq: "AcquireLanesFor t ord ModeDig Anyone ByExcavation [lane] = (t', res)" by fastforce
  have try_eq: "TryLock True t lane ord = (t', res = None)"
    by (simp add: TryLock_def TryLockFor_def acq split: option.splits)
  have run: "run_inv {} t'"
    using run_inv_lanes [of "{}" t ModeDig ord Anyone ByExcavation "[lane]"] ok acq by (simp add: lock_ok_def)
  have "\<forall>r\<in>set t'. r_order r \<noteq> 0"
  proof (cases res)
    case None
    show ?thesis
      using AcquireLanesFor_None(2) [OF inv _ acq [unfolded None]] ok ord by (auto simp: lock_ok_def owner_mouth_def)
  next
    case (Some e)
    then show ?thesis using AcquireLanesFor_Some [OF acq [unfolded Some]] ok by (simp add: lock_ok_def)
  qed
  with run have ok': "lock_ok t'" by (simp add: lock_ok_def)
  then show "lock_ok (fst (TryLock True t lane ord))" by (simp add: try_eq)
  show "LockedBy True (fst (TryLock True t lane ord)) lane = ord" if "snd (TryLock True t lane ord)"
  proof -
    have None: "res = None" using that by (simp add: try_eq)
    obtain r where r: "r \<in> set t'" "mouth_row lane r" "r_mode r = ModeDig" "r_order r = ord"
      using AcquireLanesFor_None(1) [OF inv _ acq [unfolded None]] by (auto simp: owner_mouth_def)
    have "DigHoldOwner t' lane = r_order r"
      by (rule DigHoldOwner_sole [OF r(1-3)]) (rule lock_ok_sole [OF ok' r(1-3)])
    then show ?thesis using r by (simp add: try_eq LockedBy_def)
  qed
  show "fst (TryLock True t lane ord) = t" if "\<not> snd (TryLock True t lane ord)"
    using that AcquireLanesFor_Some [of t ord ModeDig Anyone ByExcavation "[lane]" t'] acq by (auto simp: try_eq)
qed

lemma Unlock_other:
  assumes ok: "lock_ok t" and "LockedBy True t lane \<noteq> ord"
  shows "LockedBy True (Unlock t lane ord) lane = LockedBy True t lane"
proof (cases "LockedBy True t lane = 0")
  case True
  then show ?thesis
    using DigHoldOwner_zero [of t lane] DigHoldOwner_zero [of "Unlock t lane ord" lane] ok
    by (auto simp: lock_ok_def LockedBy_def Unlock_def ReleaseLane_def)
next
  case False
  from lock_holder [OF ok refl this] obtain r where
    r: "r \<in> set t" "mouth_row lane r" "r_mode r = ModeDig" "r_order r = LockedBy True t lane" by blast
  have "\<forall>q\<in>set t. \<not> owner_mouth ord lane q"
    using lock_ok_sole [OF ok r(1-3)] r(4) assms(2) by (metis owner_mouth_def)
  then show ?thesis by (simp add: Unlock_def ReleaseLane_def delete_rows_none)
qed

interpretation lane_lock: exclusive_lock lock_ok "TryLock True" Unlock "LockedBy True"
proof (unfold_locales, goal_cases)
  case (2 t lane ord)
  then show ?case by (auto simp: lock_ok_def Unlock_def ReleaseLane_def run_inv_delete)
next
  case (4 t lane ord)
  have "snd (TryLock True t lane ord) = (res = None)" if "AcquireLanesFor t ord ModeDig Anyone ByExcavation [lane] = (u, res)" for u res
    using that by (simp add: TryLock_def TryLockFor_def split: option.splits)
  with 4 show ?case
    by (cases "AcquireLanesFor t ord ModeDig Anyone ByExcavation [lane]")
      (auto simp: TryLock_def TryLockFor_def dest!: AcquireLanesFor_Some split: option.splits)
next
  case (5 t lane ord)
  then obtain r where "r \<in> set t" "mouth_row lane r" "r_mode r = ModeDig" "r_order r = LockedBy True t lane"
    using lock_holder by metis
  with 5 show ?case
    using TryLockFor_iff [of t True lane ord Anyone]
    by (auto simp: TryLock_def lock_ok_def run_inv_def admissible_def blocked_def)
next
  case (6 t ord lane)
  from lock_holder [OF 6(1,3,2)] obtain r where r: "r \<in> set t" "mouth_row lane r" "r_mode r = ModeDig" "r_order r = ord"
    by blast
  have "\<not> (\<exists>q\<in>set (Unlock t lane ord). mouth_row lane q \<and> r_mode q = ModeDig)"
    using lock_ok_sole [OF 6(1) r(1-3)] r(4) by (auto simp: Unlock_def ReleaseLane_def owner_mouth_def)
  then show ?case
    using DigHoldOwner_zero [of "Unlock t lane ord" lane] 6(1) by (auto simp: lock_ok_def LockedBy_def Unlock_def ReleaseLane_def)
qed (auto intro: TryLock_ok Unlock_other)


section \<open>Properties\<close>

text \<open>C4. Whatever sequence of reservation operations has run, the table satisfies the
  two unique indexes (one active row per bin, one per slot), no order has two
  mouth rows on one lane or two occupancy rows on one node although no index forbids
  it, every row has the target its kind asks for, and two different orders hold mouth
  rows on one lane only in one shared mode that is not dig, or because one of them was
  taken for the benefit of the other.\<close>

theorem reservations_run_invariant:
  assumes "res_reach E t"
  shows "res_inv t \<and> mouths_compatible E t"
  using res_reach_run_inv [OF assms] by (simp add: run_inv_def)

theorem reservations_run_invariant_witness:
  "\<exists>t. res_reach {} t \<and> length t = 2 \<and> res_inv t \<and> mouths_compatible {} t"
proof -
  let ?t = "fst (AcquireLanesFor [] 7 ModeOutbound Anyone BySourceLock [3])"
  let ?u = "fst (AcquireLanesFor ?t 8 ModeOutbound Anyone BySourceLock [3])"
  have reach: "res_reach {} ?u"
    by (intro res_reach.reach_lanes res_reach.reach_empty) simp_all
  have "length ?u = 2"
    by (simp add: AcquireLanesFor_def sortedUniqueLanes_def take_lane_def admitMouth_def activeMouthRows_def
        mouth_row_def IsExcavation_def mouth_insert_def)
  with reach reservations_run_invariant [OF reach] show ?thesis by blast
qed

text \<open>C20. \<^verbatim>\<open>AcquireLanesFor\<close> is all or nothing.  It succeeds exactly when every requested lane
  is admissible (no row of an order outside the beneficiary conflicts with the mode, and
  the owner does not already hold the lane in another mode it may not upgrade); then the
  owner holds every lane in the requested mode and no row of anyone else, and no row of
  the owner on another lane, has changed.  When it fails the table is the one before the
  call.\<close>

theorem AcquireLanesFor_all_or_nothing:
  assumes "res_reach E t" and "m \<noteq> ModeNone"
  shows "case AcquireLanesFor t owner m ben tag lanes of
      (t', None) \<Rightarrow>
        (\<forall>lane\<in>set lanes. admissible t owner m ben lane \<and> (\<exists>r\<in>set t'. owner_mouth owner lane r \<and> r_mode r = m)) \<and>
        (\<forall>r. (\<forall>lane\<in>set lanes. \<not> owner_mouth owner lane r) \<longrightarrow> (r \<in> set t' \<longleftrightarrow> r \<in> set t))
    | (t', Some e) \<Rightarrow> t' = t \<and> (\<exists>lane\<in>set lanes. \<not> admissible t owner m ben lane)"
proof -
  have inv: "res_inv t" using res_reach_run_inv [OF assms(1)] by (simp add: run_inv_def)
  obtain t' res where acq: "AcquireLanesFor t owner m ben tag lanes = (t', res)" by fastforce
  note iff = AcquireLanesFor_None_iff [OF inv assms(2), of owner ben tag lanes, unfolded acq snd_conv]
  show ?thesis
  proof (cases res)
    case None
    then show ?thesis using acq iff AcquireLanesFor_None(1,2) [OF inv assms(2) acq [unfolded None]] by simp
  next
    case (Some e)
    then show ?thesis using acq iff AcquireLanesFor_Some [OF acq [unfolded Some]] by simp
  qed
qed

theorem AcquireLanesFor_all_or_nothing_witness:
  "\<exists>t t' e. res_reach {} t \<and> ModeInbound \<noteq> ModeNone \<and>
     AcquireLanesFor t 8 ModeInbound Anyone BySourceLock [4, 3] = (t', Some e) \<and> t' = t"
proof -
  let ?t = "fst (AcquireLanesFor [] 7 ModeOutbound Anyone BySourceLock [3])"
  have reach: "res_reach {} ?t"
    by (intro res_reach.reach_lanes res_reach.reach_empty) simp_all
  have "\<exists>e. AcquireLanesFor ?t 8 ModeInbound Anyone BySourceLock [4, 3] = (?t, Some e)"
    by (simp add: AcquireLanesFor_def sortedUniqueLanes_def take_lane_def admitMouth_def activeMouthRows_def
        mouth_row_def IsExcavation_def mouth_insert_def)
  then obtain e where "AcquireLanesFor ?t 8 ModeInbound Anyone BySourceLock [4, 3] = (?t, Some e)" ..
  with reach AcquireLanesFor_all_or_nothing [OF reach, of ModeInbound "[4, 3]" 8 Anyone BySourceLock]
  show ?thesis by auto
qed

text \<open>C34. The dig pre-check agrees with the authoritative lock: on a readable table \<^verbatim>\<open>TryLockFor\<close>
  succeeds exactly when every other order on the lane is the beneficiary and the asking
  order's own hold, if any, is already a dig or belongs to the beneficiary; hence a lane
  \<^verbatim>\<open>CanTakeFor\<close> reports free is never refused by the acquire.  An unreadable table refuses the
  lock, reports the lane locked and not takeable.\<close>

theorem dig_precheck_agrees:
  assumes "res_reach E t"
  shows "(snd (TryLockFor readable t lane ord ben) \<longleftrightarrow>
            readable \<and> DigAdmissible (ReleaseLane t ord lane) lane ben \<and>
            (Owns ben ord \<or> (\<forall>r\<in>set t. owner_mouth ord lane r \<longrightarrow> r_mode r = ModeDig))) \<and>
         (CanTakeFor readable t lane ben \<longrightarrow> snd (TryLockFor readable t lane ord ben)) \<and>
         (readable \<or> (IsLocked readable t lane \<and> \<not> CanTakeFor readable t lane ben))"
proof -
  have inv: "res_inv t" using res_reach_run_inv [OF assms] by (simp add: run_inv_def)
  note iff = TryLockFor_iff [OF inv, of readable lane ord ben]
  show ?thesis
    unfolding iff admissible_dig
    by (auto simp: CanTakeFor_def IsLocked_def DigAdmissible_iff ReleaseLane_def owner_mouth_def)
qed

theorem dig_precheck_agrees_witness:
  "res_reach {} [mouth_insert 7 3 ByExcavation ModeDig] \<and>
   \<not> snd (TryLockFor True [mouth_insert 7 3 ByExcavation ModeDig] 3 8 Anyone) \<and>
   snd (TryLockFor True [mouth_insert 7 3 ByExcavation ModeDig] 3 8 (AskerFor 7 0))"
proof -
  let ?t = "[mouth_insert 7 3 ByExcavation ModeDig]"
  have "?t = fst (AcquireLanesFor [] 7 ModeDig Anyone ByExcavation [3])"
    by (simp add: AcquireLanesFor_def sortedUniqueLanes_def take_lane_def admitMouth_def activeMouthRows_def)
  then have reach: "res_reach {} ?t"
    using res_reach.reach_lanes [OF res_reach.reach_empty, of ModeDig "{}" 7 Anyone ByExcavation "[3]"] by simp
  show ?thesis
    using reach dig_precheck_agrees [OF reach, of True 3 8 Anyone] dig_precheck_agrees [OF reach, of True 3 8 "AskerFor 7 0"]
    by (auto simp: DigAdmissible_iff ReleaseLane_def mouth_row_def owner_mouth_def AskerFor_def Owns_def Anyone_def)
qed


text \<open>Handing a dug lane to its picker: nothing happens unless the dig still holds the
  lane; otherwise exactly the dig row goes, the result says whether the picker holds the
  lane outbound afterwards, the picker gets a row only when it had none, and all other
  rows stay.\<close>

theorem HandOffLaneToPicker_spec:
  assumes "res_reach E t" and "HandOffLaneToPicker t lane digOwner picker tag = (t', moved)"
  shows "if \<exists>r\<in>set t. owner_mouth digOwner lane r \<and> r_mode r = ModeDig
    then (moved \<longleftrightarrow> (\<exists>r\<in>set t'. owner_mouth picker lane r \<and> r_mode r = ModeOutbound)) \<and>
      (\<forall>r\<in>set t'. \<not> (owner_mouth digOwner lane r \<and> r_mode r = ModeDig)) \<and>
      (\<exists>r\<in>set t'. owner_mouth picker lane r) \<and>
      (\<forall>r. \<not> owner_mouth picker lane r \<longrightarrow> \<not> (owner_mouth digOwner lane r \<and> r_mode r = ModeDig) \<longrightarrow>
         (r \<in> set t' \<longleftrightarrow> r \<in> set t))
    else t' = t \<and> \<not> moved"
proof -
  have inv: "res_inv t" using res_reach_run_inv [OF assms(1)] by (simp add: run_inv_def)
  show ?thesis
    using assms(2) unfolding HandOff_cases [OF inv] Let_def
    by (auto split: if_splits)
qed

theorem HandOffLaneToPicker_spec_witness:
  "\<exists>t t'. res_reach {} t \<and> HandOffLaneToPicker t 3 7 9 ByDigHandoff = (t', True) \<and>
     (\<exists>r\<in>set t'. owner_mouth 9 3 r \<and> r_mode r = ModeOutbound)"
proof -
  let ?t = "fst (AcquireLanesFor [] 7 ModeDig Anyone ByExcavation [3])"
  let ?h = "HandOffLaneToPicker ?t 3 7 9 ByDigHandoff"
  have t: "?t = [mouth_insert 7 3 ByExcavation ModeDig]"
    by (simp add: AcquireLanesFor_def sortedUniqueLanes_def take_lane_def admitMouth_def activeMouthRows_def)
  have reach: "res_reach {} ?t"
    by (intro res_reach.reach_lanes res_reach.reach_empty) simp_all
  have "snd ?h"
    unfolding t by (simp add: HandOffLaneToPicker_def count_rows_def activeMouthRows_def delete_rows_def)
  then have h: "?h = (fst ?h, True)" by (simp add: prod_eq_iff)
  from HandOffLaneToPicker_spec [OF reach h] reach h show ?thesis
    unfolding t by (metis list.set_intros(1) mouth_insert_fields(6) owner_mouth_insert)
qed

text \<open>The reaper removes a reservation exactly when its order does not exist or has one of
  the four terminal statuses, and reports how many it removed; an order with a status
  the module does not know keeps its reservations.\<close>

theorem ReapOrphaned_exact:
  assumes "\<forall>ord s. ost ord = Some s \<longrightarrow> status_ok s"
  shows "set (fst (ReapOrphaned ost t)) =
      {r \<in> set t. \<exists>s. ost (r_order r) = Some s \<and> (IsTerminal s \<longrightarrow> s \<notin> set AllStatuses)} \<and>
    snd (ReapOrphaned ost t) = length t - length (fst (ReapOrphaned ost t))"
proof -
  have mem: "status_string s \<in> status_string ` set (filter IsTerminal AllStatuses) \<longleftrightarrow> IsTerminal s \<and> s \<in> set AllStatuses"
    if "status_ok s" for s
  proof
    assume "status_string s \<in> status_string ` set (filter IsTerminal AllStatuses)"
    then obtain u where u: "u \<in> set AllStatuses" "IsTerminal u" "status_string u = status_string s" by auto
    moreover have "status_ok u" using u(1) by (auto simp: status_ok_def AllStatuses_cases split: status.splits)
    ultimately show "IsTerminal s \<and> s \<in> set AllStatuses" using status_string_inj [of u s] that by blast
  qed auto
  have "reapable ost r \<longleftrightarrow> \<not> (\<exists>s. ost (r_order r) = Some s \<and> (IsTerminal s \<longrightarrow> s \<notin> set AllStatuses))" for r
    using assms mem by (auto simp: reapable_def split: option.splits)
  moreover have "count_rows P t = length t - length (delete_rows P t)" for P
    using sum_length_filter_compl [of P t] by (simp add: count_rows_def delete_rows_def)
  ultimately show ?thesis by (auto simp: ReapOrphaned_def)
qed

theorem ReapOrphaned_exact_witness:
  "set (fst (ReapOrphaned [7 \<mapsto> StatusFailed, 8 \<mapsto> StatusQueued]
     [mouth_insert 7 3 BySourceLock ModeDig, mouth_insert 8 4 BySourceLock ModeDig, mouth_insert 9 5 BySourceLock ModeDig])) =
   {mouth_insert 8 4 BySourceLock ModeDig}"
  (is "set (fst (ReapOrphaned ?ost ?t)) = _")
proof -
  have ok: "\<forall>ord s. ?ost ord = Some s \<longrightarrow> status_ok s" by (auto simp: status_ok_def)
  have "set (fst (ReapOrphaned ?ost ?t)) =
      {r \<in> set ?t. \<exists>s. ?ost (r_order r) = Some s \<and> (IsTerminal s \<longrightarrow> s \<notin> set AllStatuses)}"
    using ReapOrphaned_exact [OF ok] by blast
  also have "\<dots> = {mouth_insert 8 4 BySourceLock ModeDig}" by (auto simp: AllStatuses_def)
  finally show ?thesis .
qed

text \<open>
  The early exit of \<^verbatim>\<open>HandOffLaneToPicker\<close> for a picker that already holds the lane is not
  only the inbound case its comment describes: a picker that holds the lane as a source
  lock (mode dig, section R.101) while a service dig works for it lands there too, and the
  lane is then still held.
\<close>

lemma handoff_leaves_picker_dig:
  "\<exists>t. res_reach {(7, 9)} t \<and> snd (HandOffLaneToPicker t 3 7 9 ByDigHandoff) = False \<and>
     IsLocked True t 3 \<and> IsLocked True (fst (HandOffLaneToPicker t 3 7 9 ByDigHandoff)) 3"
proof -
  let ?t = "[mouth_insert 9 3 BySourceLock ModeDig, mouth_insert 7 3 ByExcavation ModeDig]"
  have t: "?t = fst (AcquireLanesFor (fst (AcquireLanesFor [] 9 ModeDig Anyone BySourceLock [3])) 7 ModeDig (AskerFor 9 0) ByExcavation [3])"
    by (simp add: AcquireLanesFor_def sortedUniqueLanes_def take_lane_def admitMouth_def activeMouthRows_def
        mouth_row_def AskerFor_def Owns_def Anyone_def mouth_insert_def)
  have "res_reach {(7, 9)} ?t"
    unfolding t by (intro res_reach.reach_lanes res_reach.reach_empty) (simp_all add: serves_def AskerFor_def Owns_def Anyone_def)
  moreover have "snd (HandOffLaneToPicker ?t 3 7 9 ByDigHandoff) = False \<and> IsLocked True ?t 3 \<and>
      IsLocked True (fst (HandOffLaneToPicker ?t 3 7 9 ByDigHandoff)) 3"
    by (simp add: HandOffLaneToPicker_def count_rows_def activeMouthRows_def delete_rows_def IsLocked_def
        DigHoldOwner_def mouth_row_def)
  ultimately show ?thesis by blast
qed




end
