(* ===== verification/Reasons.thy ===== *)
theory Reasons
  imports OrderStatus
begin

text \<open>
  Why an order waits, faults or ends: the queue and terminal codes, the reference a
  reason carries, and the one formatter of the fault sentence
  (\<^verbatim>\<open>protocol/status.go\<close>, \<^verbatim>\<open>protocol/duration.go\<close>).

  Times are nanoseconds as \<^typ>\<open>int\<close>; the zero \<^verbatim>\<open>time.Time\<close> is None.  \<^verbatim>\<open>strings.ToLower\<close> and
  \<^verbatim>\<open>strings.TrimSpace\<close> are written out for ASCII text, which is what the fleet sends;
  bytes above 127 are passed through.
\<close>

section \<open>Codes\<close>

definition AllQueueCodes :: "string list" where
  "AllQueueCodes = [''waiting_for_material'', ''waiting_for_slot'', ''storage_rearranging'',
     ''waiting_for_partner'', ''fleet_unavailable'']"

definition ValidQueueCode :: "string \<Rightarrow> bool" where
  "ValidQueueCode c = (c = '''' \<or> list_ex (\<lambda>v. c = v) AllQueueCodes)"

definition AllTermCodes :: "string list" where
  "AllTermCodes = [''no_source_bin'', ''grace_timeout'', ''no_payload'', ''no_bin'', ''no_storage'',
     ''no_shuffle_slot'', ''missing_source'', ''invalid_node'', ''same_node'', ''node_error'',
     ''claim_failed'', ''lane_locked'', ''read_failed'', ''blocker_claimed'', ''reshuffle_error'',
     ''structural'', ''unknown_type'', ''abandoned'', ''operator_cancelled'', ''peer_terminal'', ''not_needed'']"

definition ValidTermCode :: "string \<Rightarrow> bool" where
  "ValidTermCode c = (c = '''' \<or> list_ex (\<lambda>v. c = v) AllTermCodes)"


section \<open>References\<close>

record TermRef =
  tr_node :: string
  tr_payload :: string
  tr_peer :: int
  tr_vendor_code :: int
  tr_vendor_desc :: string
  tr_detail :: string

definition empty_ref :: TermRef where
  "empty_ref = \<lparr>tr_node = '''', tr_payload = '''', tr_peer = 0, tr_vendor_code = 0, tr_vendor_desc = '''', tr_detail = ''''\<rparr>"

definition TermRef_Empty :: "TermRef \<Rightarrow> bool" where
  "TermRef_Empty r = (tr_node r = '''' \<and> tr_payload r = '''' \<and> tr_peer r = 0 \<and>
     tr_vendor_code r = 0 \<and> tr_vendor_desc r = '''' \<and> tr_detail r = '''')"

definition TermRef_String :: "TermRef \<Rightarrow> string" where
  "TermRef_String r = join_strings '', ''
     ((if tr_node r \<noteq> '''' then [''node='' @ tr_node r] else []) @
      (if tr_payload r \<noteq> '''' then [''payload='' @ tr_payload r] else []) @
      (if tr_peer r \<noteq> 0 then [''peer='' @ format_int (tr_peer r)] else []) @
      (if tr_vendor_code r \<noteq> 0 then [''vendor='' @ format_int (tr_vendor_code r)] else []) @
      (if tr_vendor_desc r \<noteq> '''' then [''vendor_desc='' @ tr_vendor_desc r] else []) @
      (if tr_detail r \<noteq> '''' then [tr_detail r] else []))"


section \<open>Durations\<close>

definition second_ns :: int where "second_ns = 1000000000"

definition pad2 :: "int \<Rightarrow> string" where
  "pad2 n = (if n < 10 then CHR ''0'' # format_int n else format_int n)"

definition FormatDuration :: "int \<Rightarrow> string" where
  "FormatDuration d0 =
     (let d = (if d0 < 0 then 0 else d0);
          secs = d div second_ns; mins = d div (60 * second_ns); hours = d div (3600 * second_ns)
      in if d < 60 * second_ns then format_int secs @ '' s''
         else if d < 600 * second_ns then format_int mins @ ''m '' @ pad2 (secs mod 60) @ ''s''
         else if d < 3600 * second_ns then format_int mins @ ''m''
         else if d < 86400 * second_ns then format_int hours @ ''h '' @ pad2 (mins mod 60) @ ''m''
         else format_int (d div (86400 * second_ns)) @ ''d '' @ pad2 (hours mod 24) @ ''h'')"

text \<open>\<^verbatim>\<open>Duration.Round\<close> on a duration that is not negative: nearest multiple, half rounds up.\<close>

definition round_second :: "int \<Rightarrow> int" where
  "round_second d = (let r = d mod second_ns in if 2 * r < second_ns then d - r else d - r + second_ns)"

definition faultElapsed :: "instant option \<Rightarrow> instant option \<Rightarrow> int" where
  "faultElapsed since now = (case (since, now) of
       (Some s, Some n) \<Rightarrow> (if n - s < 0 then 0 else round_second (n - s))
     | _ \<Rightarrow> 0)"


section \<open>The fault sentence\<close>

datatype FaultPhase = FaultPhaseLive | FaultPhaseRecovered | FaultPhaseGaveUp | FaultPhaseOther string

definition is_space :: "char \<Rightarrow> bool" where
  "is_space c = (let n = (of_char c :: nat) in n = 32 \<or> (9 \<le> n \<and> n \<le> 13))"

definition trim_space :: "string \<Rightarrow> string" where
  "trim_space s = rev (dropWhile is_space (rev (dropWhile is_space s)))"

definition lower_char :: "char \<Rightarrow> char" where
  "lower_char c = (let n = (of_char c :: nat) in if 65 \<le> n \<and> n \<le> 90 then char_of (n + 32) else c)"

definition to_lower :: "string \<Rightarrow> string" where
  "to_lower = map lower_char"

definition vendorReason :: "TermRef \<Rightarrow> string" where
  "vendorReason ref =
     (let desc = to_lower (trim_space (tr_vendor_desc ref)) in
      if desc \<noteq> '''' \<and> tr_vendor_code ref \<noteq> 0 then desc @ '' ('' @ format_int (tr_vendor_code ref) @ '')''
      else if desc \<noteq> '''' then desc
      else if tr_vendor_code ref \<noteq> 0 then ''fleet code '' @ format_int (tr_vendor_code ref)
      else '''')"

definition middot :: string where
  "middot = [CHR '' '', CHR 0xC2, CHR 0xB7, CHR '' '']"

definition joinFaultParts :: "string list \<Rightarrow> string" where
  "joinFaultParts parts = join_strings middot (filter (\<lambda>p. p \<noteq> '''') parts)"

fun FormatFaultSentence :: "FaultPhase \<Rightarrow> TermRef \<Rightarrow> instant option \<Rightarrow> instant option \<Rightarrow> bool \<Rightarrow> string" where
  "FormatFaultSentence FaultPhaseRecovered ref since now notice =
     ''Recovered after '' @ FormatDuration (faultElapsed since now)"
| "FormatFaultSentence FaultPhaseGaveUp ref since now notice =
     joinFaultParts [''Gave up after '' @ FormatDuration (faultElapsed since now), vendorReason ref]"
| "FormatFaultSentence FaultPhaseLive ref since now notice =
     (if \<not> notice then ''Replanning'' else joinFaultParts [''Fault'', vendorReason ref])"
| "FormatFaultSentence (FaultPhaseOther _) ref since now notice = ''''"


section \<open>When a live sentence says fail\<close>

lemma sublist_sep:
  assumes "c \<notin> set w"
  shows "sublist w (a @ c # b) \<longleftrightarrow> sublist w a \<or> sublist w b"
proof
  assume "sublist w (a @ c # b)"
  then consider "sublist w a" | "sublist w (c # b)"
    | p q where "w = p @ q" "suffix p a" "prefix q (c # b)"
    by (auto simp: sublist_append)
  then show "sublist w a \<or> sublist w b"
  proof cases
    case 2
    then show ?thesis
      using assms by (cases w) (auto simp: sublist_Cons_right prefix_Cons)
  next
    case 3
    then have "q = []" using assms by (cases q) auto
    with 3 show ?thesis by (auto intro: suffix_imp_sublist)
  qed auto
next
  assume "sublist w a \<or> sublist w b"
  then show "sublist w (a @ c # b)"
    by (auto simp: sublist_append sublist_Cons_right)
qed

lemma sublist_chars: "sublist w s \<Longrightarrow> set w \<subseteq> set s"
  by (auto simp: sublist_def)

definition says_fail :: "string \<Rightarrow> bool" where
  "says_fail s = sublist ''fail'' s"

lemma not_says_fail:
  "c \<notin> set s \<Longrightarrow> c \<in> set ''fail'' \<Longrightarrow> \<not> says_fail s"
  unfolding says_fail_def using sublist_chars by blast

lemma says_fail_space: "says_fail (a @ CHR '' '' # b) \<longleftrightarrow> says_fail a \<or> says_fail b"
  by (simp add: says_fail_def sublist_sep)

lemma not_says_fail_int: "\<not> says_fail (format_int i)" "\<not> says_fail (CHR ''('' # format_int i @ '')'')"
proof -
  have f: "CHR ''f'' \<notin> set (format_int i)" by (rule format_int_free) (simp_all add: is_digit_def)
  show "\<not> says_fail (format_int i)" "\<not> says_fail (CHR ''('' # format_int i @ '')'')"
    by (rule not_says_fail [of "CHR ''f''"]; simp add: f)+
qed

lemma says_fail_vendorReason: "says_fail (vendorReason ref) \<longleftrightarrow> says_fail (to_lower (trim_space (tr_vendor_desc ref)))"
proof -
  let ?n = "format_int (tr_vendor_code ref)"
  have words: "\<not> says_fail ''fleet''" "\<not> says_fail ''code''" "\<not> says_fail []"
    by (rule not_says_fail [of "CHR ''i''"]; simp)+
  have "\<not> says_fail (''code'' @ CHR '' '' # ?n)" unfolding says_fail_space using words not_says_fail_int by blast
  then have "\<not> says_fail (''fleet'' @ CHR '' '' # (''code'' @ CHR '' '' # ?n))"
    unfolding says_fail_space [of "''fleet''"] using words by blast
  then have "\<not> says_fail (''fleet code '' @ ?n)" by simp
  moreover have "says_fail (d @ CHR '' '' # (CHR ''('' # ?n @ '')'')) \<longleftrightarrow> says_fail d" for d
    unfolding says_fail_space using not_says_fail_int by blast
  ultimately show ?thesis using words(3) by (simp add: vendorReason_def Let_def)
qed

lemma says_fail_live:
  "says_fail (FormatFaultSentence FaultPhaseLive ref since now notice) \<longleftrightarrow>
     notice \<and> says_fail (to_lower (trim_space (tr_vendor_desc ref)))"
proof -
  have words: "\<not> says_fail ''Fault''" "\<not> says_fail [CHR 0xC2, CHR 0xB7]" "\<not> says_fail ''Replanning''" "\<not> says_fail []"
    by (rule not_says_fail [of "CHR ''f''"]; simp)+
  have "says_fail (''Fault'' @ CHR '' '' # ([CHR 0xC2, CHR 0xB7] @ CHR '' '' # r)) \<longleftrightarrow> says_fail r" for r
    unfolding says_fail_space using words by blast
  then have "says_fail (joinFaultParts [''Fault'', r]) \<longleftrightarrow> says_fail r" for r
    using words by (cases "r = []") (simp_all add: joinFaultParts_def middot_def)
  then show ?thesis using words says_fail_vendorReason by simp
qed


section \<open>Properties\<close>

text \<open>The wording rule of the fault sentence: the sentence of a live fault contains the
  letters "fail" exactly when the notice threshold has passed and the fleet's own text,
  trimmed and lower-cased, contains them; nothing the formatter adds ever does.\<close>

theorem live_fault_sentence_wording:
  "says_fail (FormatFaultSentence FaultPhaseLive ref since now notice) \<longleftrightarrow>
     notice \<and> says_fail (to_lower (trim_space (tr_vendor_desc ref)))"
  by (rule says_fail_live)

text \<open>
  The rule the comment states has no such exception: a fleet text with the word is
  passed through to the sentence of an order that is still live.
\<close>

lemma live_fault_sentence_can_say_fail:
  "says_fail (FormatFaultSentence FaultPhaseLive (empty_ref\<lparr>tr_vendor_desc := ''Path planning failed''\<rparr>) None None True)"
  unfolding says_fail_live
  by (simp add: empty_ref_def to_lower_def trim_space_def is_space_def lower_char_def says_fail_def
      sublist_Cons_right)

end
