(* ===== verification/Futility.thy ===== *)
theory Futility
  imports OrderStatus
begin

text \<open>
  The futility detector of \<^verbatim>\<open>shingo-core/dispatch/futility.go\<close>: it counts, per
  (station, process node, payload), the orders that ended without a robot ever moving,
  and alerts when the rate in a sliding window passes a threshold.

  The detector reads an injected clock; every operation takes the instant it read.  A
  nil detector (disabled, or a threshold or window that is not positive) is None.
\<close>

record FutilityKey =
  fk_station :: string
  fk_node :: string
  fk_payload :: string

record FutilityConfig =
  fc_enabled :: bool
  fc_threshold :: int
  fc_window :: int
  fc_throttle :: int

record FutilityDetector =
  fd_cfg :: FutilityConfig
  fd_terminals :: "FutilityKey \<Rightarrow> instant list"
  fd_last :: "FutilityKey \<Rightarrow> instant option"

definition incomplete :: "FutilityKey \<Rightarrow> bool" where
  "incomplete k = (fk_station k = '''' \<or> fk_node k = '''' \<or> fk_payload k = '''')"

definition NewFutilityDetector :: "FutilityConfig \<Rightarrow> FutilityDetector option" where
  "NewFutilityDetector cfg =
     (if \<not> fc_enabled cfg \<or> fc_threshold cfg \<le> 0 \<or> fc_window cfg \<le> 0 then None
      else Some \<lparr>fd_cfg = cfg, fd_terminals = (\<lambda>_. []), fd_last = (\<lambda>_. None)\<rparr>)"

definition NoteInTransit :: "FutilityDetector option \<Rightarrow> FutilityKey \<Rightarrow> FutilityDetector option" where
  "NoteInTransit fd k = (case fd of
       None \<Rightarrow> None
     | Some d \<Rightarrow> if incomplete k then Some d else Some (d\<lparr>fd_terminals := (fd_terminals d)(k := [])\<rparr>))"

definition within_window :: "FutilityDetector \<Rightarrow> instant \<Rightarrow> instant list \<Rightarrow> instant list" where
  "within_window d now ts = filter (\<lambda>t. now - t < fc_window (fd_cfg d)) ts"

definition NoteFutileTerminal ::
  "FutilityDetector option \<Rightarrow> instant \<Rightarrow> FutilityKey \<Rightarrow> FutilityDetector option \<times> bool" where
  "NoteFutileTerminal fd now k = (case fd of
       None \<Rightarrow> (None, False)
     | Some d \<Rightarrow>
         if incomplete k then (Some d, False)
         else
           let kept = within_window d now (fd_terminals d k) @ [now];
               d1 = d\<lparr>fd_terminals := (fd_terminals d)(k := kept)\<rparr>
           in if int (length kept) < fc_threshold (fd_cfg d) then (Some d1, False)
              else (case fd_last d k of
                      Some prev \<Rightarrow>
                        if now - prev < fc_throttle (fd_cfg d) then (Some d1, False)
                        else (Some (d1\<lparr>fd_last := (fd_last d)(k \<mapsto> now)\<rparr>), True)
                    | None \<Rightarrow> (Some (d1\<lparr>fd_last := (fd_last d)(k \<mapsto> now)\<rparr>), True)))"

definition Count :: "FutilityDetector option \<Rightarrow> instant \<Rightarrow> FutilityKey \<Rightarrow> nat" where
  "Count fd now k = (case fd of None \<Rightarrow> 0 | Some d \<Rightarrow> length (within_window d now (fd_terminals d k)))"


section \<open>The detector against the log of what it was told\<close>

datatype futility_note = Moved instant FutilityKey | Futile instant FutilityKey

fun note_time :: "futility_note \<Rightarrow> instant" where
  "note_time (Moved t k) = t"
| "note_time (Futile t k) = t"

fun apply_note :: "FutilityDetector option \<Rightarrow> futility_note \<Rightarrow> FutilityDetector option" where
  "apply_note fd (Moved t k) = NoteInTransit fd k"
| "apply_note fd (Futile t k) = fst (NoteFutileTerminal fd t k)"

definition run_notes :: "FutilityDetector option \<Rightarrow> futility_note list \<Rightarrow> FutilityDetector option" where
  "run_notes = foldl apply_note"

text \<open>
  The abstract count: futile endings of the key after the last time it moved, in the
  window that ends now.
\<close>

fun futile_times :: "FutilityKey \<Rightarrow> futility_note list \<Rightarrow> instant list \<Rightarrow> instant list" where
  "futile_times k [] acc = acc"
| "futile_times k (Moved t k' # ns) acc = futile_times k ns (if k' = k then [] else acc)"
| "futile_times k (Futile t k' # ns) acc = futile_times k ns (if k' = k then acc @ [t] else acc)"

definition window_count :: "int \<Rightarrow> FutilityKey \<Rightarrow> futility_note list \<Rightarrow> instant \<Rightarrow> nat" where
  "window_count w k ns now = length (filter (\<lambda>t. now - t < w) (futile_times k ns []))"

lemma futile_times_append: "futile_times k (ns @ ms) acc = futile_times k ms (futile_times k ns acc)"
  by (induction k ns acc rule: futile_times.induct) auto

lemma run_notes_snoc: "run_notes fd (ns @ [n]) = apply_note (run_notes fd ns) n"
  by (simp add: run_notes_def)

lemma NoteFutileTerminal_Some:
  "\<exists>d'. fst (NoteFutileTerminal (Some d) now k) = Some d' \<and> fd_cfg d' = fd_cfg d \<and>
     fd_terminals d' = (if incomplete k then fd_terminals d
       else (fd_terminals d)(k := within_window d now (fd_terminals d k) @ [now]))"
  by (auto simp: NoteFutileTerminal_def Let_def split: option.split)

lemma filter_window_idem:
  assumes "t \<le> now"
  shows "filter (\<lambda>s. t - s < w \<and> now - s < w) xs = filter (\<lambda>s. now - s < (w :: int)) xs"
  by (rule filter_cong) (use assms in auto)

lemma run_notes_window:
  assumes "NewFutilityDetector cfg = Some d0" and "sorted (map note_time ns)"
    and "\<forall>n\<in>set ns. note_time n \<le> now" and "\<not> incomplete k"
  shows "\<exists>d. run_notes (Some d0) ns = Some d \<and> fd_cfg d = cfg \<and>
     filter (\<lambda>t. now - t < fc_window cfg) (fd_terminals d k) =
     filter (\<lambda>t. now - t < fc_window cfg) (futile_times k ns [])"
  using assms(2,3)
proof (induction ns arbitrary: now rule: rev_induct)
  case Nil
  then show ?case using assms(1) by (auto simp: NewFutilityDetector_def run_notes_def split: if_splits)
next
  case (snoc n ns)
  have sorted: "sorted (map note_time ns)" and before: "\<forall>m\<in>set ns. note_time m \<le> note_time n"
    using snoc.prems(1) by (auto simp: sorted_append)
  have now: "note_time n \<le> now" and le: "\<forall>m\<in>set ns. note_time m \<le> now" using snoc.prems(2) by auto
  obtain d where d: "run_notes (Some d0) ns = Some d" "fd_cfg d = cfg"
    and at_now: "filter (\<lambda>t. now - t < fc_window cfg) (fd_terminals d k) = filter (\<lambda>t. now - t < fc_window cfg) (futile_times k ns [])"
    using snoc.IH [OF sorted le] by blast
  have win: "within_window d t xs = filter (\<lambda>s. t - s < fc_window cfg) xs" for t xs
    using d by (simp add: within_window_def)
  show ?case
  proof (cases n)
    case (Moved t k')
    then show ?thesis
      using d at_now assms(4) by (cases "k' = k") (auto simp: run_notes_snoc NoteInTransit_def futile_times_append)
  next
    case (Futile t k')
    obtain d' where d': "fst (NoteFutileTerminal (Some d) t k') = Some d'" "fd_cfg d' = fd_cfg d"
      "fd_terminals d' = (if incomplete k' then fd_terminals d else (fd_terminals d)(k' := within_window d t (fd_terminals d k') @ [t]))"
      using NoteFutileTerminal_Some [of d t k'] by blast
    have "filter (\<lambda>s. now - s < fc_window cfg) (fd_terminals d' k) =
        filter (\<lambda>s. now - s < fc_window cfg) (futile_times k (ns @ [n]) [])"
      using d' at_now now assms(4) Futile
      by (auto simp: futile_times_append win filter_window_idem)
    with d d' Futile show ?thesis by (simp add: run_notes_snoc)
  qed
qed


lemma Count_run:
  assumes "NewFutilityDetector cfg = Some d0" and "sorted (map note_time ns)"
    and "\<forall>n\<in>set ns. note_time n \<le> now" and "\<not> incomplete k"
  shows "Count (run_notes (Some d0) ns) now k = window_count (fc_window cfg) k ns now"
  using run_notes_window [OF assms] by (auto simp: Count_def window_count_def within_window_def)

fun run_alerts :: "FutilityDetector option \<Rightarrow> futility_note list \<Rightarrow> (instant \<times> FutilityKey) list" where
  "run_alerts fd [] = []"
| "run_alerts fd (Moved t k # ns) = run_alerts (NoteInTransit fd k) ns"
| "run_alerts fd (Futile t k # ns) =
     (let (fd', alerted) = NoteFutileTerminal fd t k
      in if alerted then (t, k) # run_alerts fd' ns else run_alerts fd' ns)"

lemma NoteFutileTerminal_quiet:
  "NoteFutileTerminal (Some d) t k = (fd', False) \<Longrightarrow>
     \<exists>d'. fd' = Some d' \<and> fd_cfg d' = fd_cfg d \<and> fd_last d' = fd_last d"
  by (auto simp: NoteFutileTerminal_def Let_def split: if_splits option.splits)

lemma NoteFutileTerminal_alert:
  "NoteFutileTerminal (Some d) t k = (fd', True) \<Longrightarrow>
     \<exists>d'. fd' = Some d' \<and> fd_cfg d' = fd_cfg d \<and> fd_last d' = (fd_last d)(k \<mapsto> t) \<and>
       (\<forall>prev. fd_last d k = Some prev \<longrightarrow> fc_throttle (fd_cfg d) \<le> t - prev)"
  by (auto simp: NoteFutileTerminal_def Let_def split: if_splits option.splits)

lemma NoteInTransit_keeps: "\<exists>d'. NoteInTransit (Some d) k = Some d' \<and> fd_cfg d' = fd_cfg d \<and> fd_last d' = fd_last d"
  by (auto simp: NoteInTransit_def)

lemma run_alerts_times: "(t, k) \<in> set (run_alerts fd ns) \<Longrightarrow> \<exists>n\<in>set ns. note_time n = t"
proof (induction ns arbitrary: fd)
  case (Cons n ns)
  then show ?case by (cases n) (fastforce split: prod.splits if_splits)+
qed simp

lemma run_alerts_spaced:
  assumes "sorted (map note_time ns)" and "\<And>n k l. n \<in> set ns \<Longrightarrow> fd_last d k = Some l \<Longrightarrow> l \<le> note_time n"
  shows "sorted_wrt (\<lambda>(t, k) (t', k'). k = k' \<longrightarrow> fc_throttle (fd_cfg d) \<le> t' - t) (run_alerts (Some d) ns) \<and>
    (\<forall>(t, k)\<in>set (run_alerts (Some d) ns). \<forall>l. fd_last d k = Some l \<longrightarrow> fc_throttle (fd_cfg d) \<le> t - l)"
  using assms
proof (induction ns arbitrary: d)
  case (Cons n ns)
  have srt: "sorted (map note_time ns)" and le: "\<forall>m\<in>set ns. note_time n \<le> note_time m" using Cons.prems(1) by auto
  show ?case
  proof (cases n)
    case (Moved t k)
    obtain d' where d': "NoteInTransit (Some d) k = Some d'" "fd_cfg d' = fd_cfg d" "fd_last d' = fd_last d"
      using NoteInTransit_keeps by blast
    have pre: "l \<le> note_time m" if "m \<in> set ns" "fd_last d' k' = Some l" for m k' l
      using Cons.prems(2) [of m k' l] that d' by simp
    have "sorted_wrt (\<lambda>(t, k) (t', k'). k = k' \<longrightarrow> fc_throttle (fd_cfg d') \<le> t' - t) (run_alerts (Some d') ns) \<and>
      (\<forall>(t, k)\<in>set (run_alerts (Some d') ns). \<forall>l. fd_last d' k = Some l \<longrightarrow> fc_throttle (fd_cfg d') \<le> t - l)"
      by (rule Cons.IH [OF srt]) (rule pre)
    then show ?thesis using d' Moved by simp
  next
    case (Futile t k)
    obtain fd' b where nf: "NoteFutileTerminal (Some d) t k = (fd', b)" by fastforce
    show ?thesis
    proof (cases b)
      case False
      then obtain d' where d': "fd' = Some d'" "fd_cfg d' = fd_cfg d" "fd_last d' = fd_last d"
        using NoteFutileTerminal_quiet [of d t k fd'] nf by auto
      have pre: "l \<le> note_time m" if "m \<in> set ns" "fd_last d' k' = Some l" for m k' l
        using Cons.prems(2) [of m k' l] that d' by simp
      have "sorted_wrt (\<lambda>(t, k) (t', k'). k = k' \<longrightarrow> fc_throttle (fd_cfg d') \<le> t' - t) (run_alerts (Some d') ns) \<and>
        (\<forall>(t, k)\<in>set (run_alerts (Some d') ns). \<forall>l. fd_last d' k = Some l \<longrightarrow> fc_throttle (fd_cfg d') \<le> t - l)"
        by (rule Cons.IH [OF srt]) (rule pre)
      then show ?thesis using d' Futile nf False by simp
    next
      case True
      then obtain d' where d': "fd' = Some d'" "fd_cfg d' = fd_cfg d" "fd_last d' = (fd_last d)(k \<mapsto> t)"
          and thr: "\<forall>prev. fd_last d k = Some prev \<longrightarrow> fc_throttle (fd_cfg d) \<le> t - prev"
        using NoteFutileTerminal_alert [of d t k fd'] nf by auto
      have pre: "l \<le> note_time m" if "m \<in> set ns" "fd_last d' k' = Some l" for m k' l
        using Cons.prems(2) [of m k' l] that d' le Futile by (auto split: if_splits)
      have IH: "sorted_wrt (\<lambda>(t, k) (t', k'). k = k' \<longrightarrow> fc_throttle (fd_cfg d') \<le> t' - t) (run_alerts (Some d') ns) \<and>
        (\<forall>(t, k)\<in>set (run_alerts (Some d') ns). \<forall>l. fd_last d' k = Some l \<longrightarrow> fc_throttle (fd_cfg d') \<le> t - l)"
        by (rule Cons.IH [OF srt]) (rule pre)
      have later: "fc_throttle (fd_cfg d) \<le> t' - l" if "(t', k) \<in> set (run_alerts (Some d') ns)" "fd_last d k = Some l" for t' l
        using thr that run_alerts_times [OF that(1)] le Futile by fastforce
      show ?thesis using IH d' Futile nf True thr later by (auto split: if_splits)
    qed
  qed
qed simp


lemma run_alerts_append: "run_alerts fd (ns @ ms) = run_alerts fd ns @ run_alerts (run_notes fd ns) ms"
proof (induction ns arbitrary: fd)
  case (Cons n ns)
  then show ?case by (cases n) (auto simp: run_notes_def split: prod.splits)
qed (simp add: run_notes_def)

lemma run_notes_last:
  assumes "NewFutilityDetector cfg = Some d0" and "sorted (map note_time ns)"
  shows "\<exists>d. run_notes (Some d0) ns = Some d \<and> fd_cfg d = cfg \<and>
    (case fd_last d k of
       None \<Rightarrow> \<forall>t. (t, k) \<notin> set (run_alerts (Some d0) ns)
     | Some l \<Rightarrow> (l, k) \<in> set (run_alerts (Some d0) ns) \<and> (\<forall>t. (t, k) \<in> set (run_alerts (Some d0) ns) \<longrightarrow> t \<le> l))"
  using assms(2)
proof (induction ns rule: rev_induct)
  case Nil
  then show ?case using assms(1) by (auto simp: NewFutilityDetector_def run_notes_def split: if_splits)
next
  case (snoc n ns)
  have before: "\<forall>m\<in>set ns. note_time m \<le> note_time n" and srt: "sorted (map note_time ns)"
    using snoc.prems by (auto simp: sorted_append)
  obtain d where d: "run_notes (Some d0) ns = Some d" "fd_cfg d = cfg"
    and last: "case fd_last d k of None \<Rightarrow> \<forall>t. (t, k) \<notin> set (run_alerts (Some d0) ns)
      | Some l \<Rightarrow> (l, k) \<in> set (run_alerts (Some d0) ns) \<and> (\<forall>t. (t, k) \<in> set (run_alerts (Some d0) ns) \<longrightarrow> t \<le> l)"
    using snoc.IH [OF srt] by blast
  show ?case
  proof (cases n)
    case (Moved t k')
    obtain d' where "NoteInTransit (Some d) k' = Some d'" "fd_cfg d' = fd_cfg d" "fd_last d' = fd_last d"
      using NoteInTransit_keeps by blast
    with d last Moved show ?thesis by (simp add: run_notes_snoc run_alerts_append split: option.splits)
  next
    case (Futile t k')
    have old: "(t', k) \<in> set (run_alerts (Some d0) ns) \<Longrightarrow> t' \<le> t" for t'
      using run_alerts_times [of t' k "Some d0" ns] before Futile by auto
    obtain fd' b where nf: "NoteFutileTerminal (Some d) t k' = (fd', b)" by fastforce
    show ?thesis
    proof (cases b)
      case False
      then obtain d' where "fd' = Some d'" "fd_cfg d' = fd_cfg d" "fd_last d' = fd_last d"
        using NoteFutileTerminal_quiet [of d t k' fd'] nf by auto
      with d last Futile nf False show ?thesis by (simp add: run_notes_snoc run_alerts_append split: option.splits)
    next
      case True
      then obtain d' where "fd' = Some d'" "fd_cfg d' = fd_cfg d" "fd_last d' = (fd_last d)(k' \<mapsto> t)"
        using NoteFutileTerminal_alert [of d t k' fd'] nf by auto
      with d last Futile nf True old show ?thesis
        by (auto simp: run_notes_snoc run_alerts_append split: option.splits)
    qed
  qed
qed


section \<open>Properties\<close>

text \<open>C36. The futility detector after any run of notes with a clock that does not go back:
  the count it reports for a key is the number of futile endings since the key last moved
  that lie in the window, and one more futile ending alerts exactly when that number,
  itself included, reaches the threshold and no earlier alert for the key lies within
  the throttle.  Pruning at earlier notes never loses an ending that still counts.\<close>

theorem futility_alert_exact:
  assumes "NewFutilityDetector cfg = Some d0" and "sorted (map note_time ns)"
    and "\<forall>n\<in>set ns. note_time n \<le> now" and "\<not> incomplete k"
  shows "Count (run_notes (Some d0) ns) now k = window_count (fc_window cfg) k ns now \<and>
    (snd (NoteFutileTerminal (run_notes (Some d0) ns) now k) \<longleftrightarrow>
       fc_threshold cfg \<le> int (window_count (fc_window cfg) k (ns @ [Futile now k]) now) \<and>
       \<not> (\<exists>t. (t, k) \<in> set (run_alerts (Some d0) ns) \<and> now - t < fc_throttle cfg))"
proof -
  obtain d where d: "run_notes (Some d0) ns = Some d" "fd_cfg d = cfg" and
    flt: "filter (\<lambda>t. now - t < fc_window cfg) (fd_terminals d k) = filter (\<lambda>t. now - t < fc_window cfg) (futile_times k ns [])"
    using run_notes_window [OF assms] by blast
  have last: "case fd_last d k of None \<Rightarrow> \<forall>t. (t, k) \<notin> set (run_alerts (Some d0) ns)
      | Some l \<Rightarrow> (l, k) \<in> set (run_alerts (Some d0) ns) \<and> (\<forall>t. (t, k) \<in> set (run_alerts (Some d0) ns) \<longrightarrow> t \<le> l)"
    using run_notes_last [OF assms(1,2), of k] d by auto
  have thr: "(\<exists>t. (t, k) \<in> set (run_alerts (Some d0) ns) \<and> now - t < fc_throttle cfg) \<longleftrightarrow>
      (\<exists>l. fd_last d k = Some l \<and> now - l < fc_throttle cfg)"
    using last by (cases "fd_last d k") force+
  have win: "0 < fc_window cfg" using assms(1) by (auto simp: NewFutilityDetector_def split: if_splits)
  have len: "int (length (within_window d now (fd_terminals d k) @ [now])) =
      int (window_count (fc_window cfg) k (ns @ [Futile now k]) now)"
    using d flt win by (simp add: within_window_def window_count_def futile_times_append)
  have "snd (NoteFutileTerminal (Some d) now k) \<longleftrightarrow>
      fc_threshold cfg \<le> int (length (within_window d now (fd_terminals d k) @ [now])) \<and>
      \<not> (\<exists>l. fd_last d k = Some l \<and> now - l < fc_throttle cfg)"
    using assms(4) d by (auto simp: NoteFutileTerminal_def Let_def split: option.splits)
  then show ?thesis using Count_run [OF assms] thr len d by simp
qed

abbreviation (input) demo_key :: FutilityKey where
  "demo_key \<equiv> \<lparr>fk_station = ''S'', fk_node = ''N'', fk_payload = ''P''\<rparr>"

abbreviation (input) demo_cfg :: FutilityConfig where
  "demo_cfg \<equiv> \<lparr>fc_enabled = True, fc_threshold = 2, fc_window = 10, fc_throttle = 60\<rparr>"

theorem futility_alert_exact_witness:
  "\<exists>d0. NewFutilityDetector demo_cfg = Some d0 \<and>
     snd (NoteFutileTerminal (run_notes (Some d0) [Futile 1 demo_key]) 5 demo_key)"
proof -
  obtain d0 where d0: "NewFutilityDetector demo_cfg = Some d0" by (simp add: NewFutilityDetector_def)
  have "snd (NoteFutileTerminal (run_notes (Some d0) [Futile 1 demo_key]) 5 demo_key) \<longleftrightarrow>
      2 \<le> int (window_count 10 demo_key ([Futile 1 demo_key] @ [Futile 5 demo_key]) 5) \<and>
      \<not> (\<exists>t. (t, demo_key) \<in> set (run_alerts (Some d0) [Futile 1 demo_key]) \<and> 5 - t < (60 :: int))"
    using futility_alert_exact [OF d0, of "[Futile 1 demo_key]" 5 demo_key] by (simp add: incomplete_def)
  moreover have "run_alerts (Some d0) [Futile 1 demo_key] = []"
    using d0 by (auto simp: NewFutilityDetector_def NoteFutileTerminal_def incomplete_def within_window_def)
  ultimately show ?thesis using d0 by (simp add: window_count_def del: run_alerts.simps)
qed

end
