(* ===== verification/Lifecycle.thy ===== *)
theory Lifecycle
  imports Reservations Reasons Futility
begin

text \<open>
  Core's order lifecycle: the state machine driver of
  \<^verbatim>\<open>shingo-core/dispatch/lifecycle.go\<close> and the persistence it relies on
  (\<^verbatim>\<open>store/orders.go\<close>, \<^verbatim>\<open>store/orders/orders.go\<close>).

  A caller holds a loaded order (\<^verbatim>\<open>order\<close>), a snapshot of its row.  The database is the
  record \<^verbatim>\<open>core_db\<close>; each store function is one transaction, so its effect is one function
  on the record.  \<^verbatim>\<open>persist_ok\<close> and \<^verbatim>\<open>read_ok\<close> say whether the database answers: on an error
  the transaction is rolled back and the record is unchanged.  What the actions emit on the
  event bus is the list \<^verbatim>\<open>lc_events\<close>, newest last.
\<close>

section \<open>Rows\<close>

record order =
  o_id :: order_id
  o_uuid :: string
  o_station :: string
  o_status :: status
  o_process_node :: string
  o_delivery_node :: string
  o_payload :: string
  o_vendor_id :: string
  o_wait_index :: int
  o_queue_reason :: string
  o_queue_code :: string
  o_queue_cause :: string
  o_error_detail :: string
  o_completed :: "instant option"

record HistoryReason =
  hr_code :: string
  hr_actor :: string
  hr_ref :: TermRef

record history_row =
  hy_order :: order_id
  hy_status :: status
  hy_detail :: string
  hy_code :: string
  hy_actor :: string
  hy_ref :: "TermRef option"

record claim_bin =
  cb_id :: bin_id
  cb_node :: "node_id option"
  cb_claimed :: "order_id option"
  cb_anomaly :: "instant option"

record claim_node =
  cn_id :: node_id
  cn_name :: string
  cn_claimed :: "order_id option"

record core_db =
  db_orders :: "order list"
  db_history :: "history_row list"
  db_bins :: "claim_bin list"
  db_nodes :: "claim_node list"
  db_order_bins :: "(order_id \<times> bin_id) list"
  db_reservations :: reservations

definition no_reason :: HistoryReason where
  "no_reason = \<lparr>hr_code = '''', hr_actor = '''', hr_ref = empty_ref\<rparr>"

definition refJSON :: "HistoryReason \<Rightarrow> TermRef option" where
  "refJSON r = (if TermRef_Empty (hr_ref r) then None else Some (hr_ref r))"


section \<open>The store\<close>

definition live_row :: "order_id \<Rightarrow> order \<Rightarrow> bool" where
  "live_row ord o' = (o_id o' = ord \<and> o_status o' \<notin> set TerminalStatuses)"

definition at_transit :: "claim_node list \<Rightarrow> claim_bin \<Rightarrow> bool" where
  "at_transit nodes b = (case cb_node b of None \<Rightarrow> False
     | Some n \<Rightarrow> list_ex (\<lambda>nd. cn_id nd = n \<and> cn_name nd = ''_TRANSIT'') nodes)"

definition release_holds :: "core_db \<Rightarrow> order_id \<Rightarrow> core_db" where
  "release_holds db ord = db
     \<lparr>db_bins := update_rows (\<lambda>b. cb_claimed b = Some ord) (\<lambda>b. b\<lparr>cb_claimed := None\<rparr>) (db_bins db),
      db_nodes := update_rows (\<lambda>n. cn_claimed n = Some ord) (\<lambda>n. n\<lparr>cn_claimed := None\<rparr>) (db_nodes db),
      db_order_bins := delete_rows (\<lambda>p. fst p = ord) (db_order_bins db),
      db_reservations := ReleaseByOrder (db_reservations db) ord\<rparr>"

definition stamp_transit :: "instant \<Rightarrow> core_db \<Rightarrow> order_id \<Rightarrow> core_db" where
  "stamp_transit now db ord = db
     \<lparr>db_bins := update_rows (\<lambda>b. cb_claimed b = Some ord \<and> at_transit (db_nodes db) b)
        (\<lambda>b. b\<lparr>cb_anomaly := (case cb_anomaly b of Some a \<Rightarrow> Some a | None \<Rightarrow> Some now)\<rparr>) (db_bins db)\<rparr>"

definition TerminalizeOrderWithReason ::
  "instant \<Rightarrow> core_db \<Rightarrow> order_id \<Rightarrow> status \<Rightarrow> string \<Rightarrow> HistoryReason \<Rightarrow> core_db \<times> bool" where
  "TerminalizeOrderWithReason now db ord st detail reason =
     (let errDetail = (if st = StatusConfirmed then '''' else detail);
          won = (count_rows (live_row ord) (db_orders db) > 0);
          db1 = db\<lparr>db_orders := update_rows (live_row ord) (\<lambda>r. r\<lparr>o_status := st, o_error_detail := errDetail\<rparr>) (db_orders db)\<rparr>;
          db2 = (if won then db1\<lparr>db_history := db_history db1 @
                    [\<lparr>hy_order = ord, hy_status = st, hy_detail = detail, hy_code = hr_code reason,
                      hy_actor = hr_actor reason, hy_ref = refJSON reason\<rparr>]\<rparr>
                 else db1)
      in (release_holds (stamp_transit now db2 ord) ord, won))"

definition ReleaseClaimForBin :: "core_db \<Rightarrow> bin_id \<Rightarrow> order_id \<Rightarrow> core_db" where
  "ReleaseClaimForBin db binID ord = db
     \<lparr>db_bins := update_rows (\<lambda>b. cb_id b = binID \<and> cb_claimed b = Some ord) (\<lambda>b. b\<lparr>cb_claimed := None\<rparr>) (db_bins db),
      db_reservations := ReleaseByBin (db_reservations db) binID\<rparr>"

definition ReleaseClaimByOrder :: "core_db \<Rightarrow> order_id \<Rightarrow> core_db" where
  "ReleaseClaimByOrder db ord = release_holds db ord"

datatype store_error = TerminalWriteRefused status | StoreDown

definition UpdateStatus :: "core_db \<Rightarrow> order_id \<Rightarrow> status \<Rightarrow> string \<Rightarrow> store_error + core_db" where
  "UpdateStatus db ord st detail =
     (if IsTerminal st then Inl (TerminalWriteRefused st)
      else let errDetail = (if st = StatusFailed \<or> st = StatusCancelled then detail else '''') in
        Inr (db\<lparr>db_orders := update_rows (\<lambda>r. o_id r = ord) (\<lambda>r. r\<lparr>o_status := st, o_error_detail := errDetail\<rparr>) (db_orders db),
                db_history := db_history db @
                  [\<lparr>hy_order = ord, hy_status = st, hy_detail = detail, hy_code = '''', hy_actor = '''', hy_ref = None\<rparr>]\<rparr>))"

definition UpdateStatusFromWithReason ::
  "core_db \<Rightarrow> order_id \<Rightarrow> status \<Rightarrow> status \<Rightarrow> string \<Rightarrow> HistoryReason \<Rightarrow> store_error + (core_db \<times> bool)" where
  "UpdateStatusFromWithReason db ord src st detail reason =
     (if IsTerminal st then Inl (TerminalWriteRefused st)
      else let P = (\<lambda>r. o_id r = ord \<and> o_status r = src) in
        if count_rows P (db_orders db) = 0 then Inr (db, False)
        else Inr (db\<lparr>db_orders := update_rows P (\<lambda>r. r\<lparr>o_status := st, o_error_detail := ''''\<rparr>) (db_orders db),
                     db_history := db_history db @
                       [\<lparr>hy_order = ord, hy_status = st, hy_detail = detail, hy_code = hr_code reason,
                         hy_actor = hr_actor reason, hy_ref = refJSON reason\<rparr>]\<rparr>, True))"

definition CompleteOrder :: "instant \<Rightarrow> core_db \<Rightarrow> order_id \<Rightarrow> core_db" where
  "CompleteOrder now db ord =
     db\<lparr>db_orders := update_rows (\<lambda>r. o_id r = ord) (\<lambda>r. r\<lparr>o_completed := Some now\<rparr>) (db_orders db)\<rparr>"

definition EverReachedStatus :: "core_db \<Rightarrow> order_id \<Rightarrow> status \<Rightarrow> bool" where
  "EverReachedStatus db ord st = list_ex (\<lambda>h. hy_order h = ord \<and> hy_status h = st) (db_history db)"

text \<open>\<^verbatim>\<open>SetQueueDetail\<close> also stamps a non-empty code onto the newest queued row of the history.\<close>

fun stamp_last :: "('r \<Rightarrow> bool) \<Rightarrow> ('r \<Rightarrow> 'r) \<Rightarrow> 'r list \<Rightarrow> 'r list" where
  "stamp_last P f [] = []"
| "stamp_last P f (r # rs) = (if P r \<and> \<not> list_ex P rs then f r # rs else r # stamp_last P f rs)"

definition SetQueueDetail :: "core_db \<Rightarrow> order_id \<Rightarrow> string \<Rightarrow> string \<Rightarrow> string \<Rightarrow> core_db" where
  "SetQueueDetail db ord reason code cause =
     (let db1 = db\<lparr>db_orders := update_rows (\<lambda>r. o_id r = ord)
                     (\<lambda>r. r\<lparr>o_queue_reason := reason, o_queue_code := code, o_queue_cause := cause\<rparr>) (db_orders db)\<rparr>
      in if code \<noteq> '''' then db1\<lparr>db_history := stamp_last (\<lambda>h. hy_order h = ord \<and> hy_status h = StatusQueued)
                                  (\<lambda>h. h\<lparr>hy_code := code\<rparr>) (db_history db1)\<rparr>
         else db1)"

section \<open>Events and actions\<close>

record Event =
  ev_actor :: string
  ev_reason :: string
  ev_previous :: status
  ev_station :: string
  ev_robot :: string
  ev_receipt_type :: string
  ev_final_count :: int
  ev_error_code :: string
  ev_error_detail :: string
  ev_ref :: TermRef

definition base_event :: "string \<Rightarrow> string \<Rightarrow> Event" where
  "base_event actor reason =
     \<lparr>ev_actor = actor, ev_reason = reason, ev_previous = StatusOther '''', ev_station = '''', ev_robot = '''',
      ev_receipt_type = '''', ev_final_count = 0,
      ev_error_code = '''', ev_error_detail = '''', ev_ref = empty_ref\<rparr>"

datatype emitted =
    EmitOrderCompleted order_id string string
  | EmitOrderCancelled order_id string string string status
  | EmitOrderQueued order_id string string
  | EmitOrderResumed order_id string string
  | EmitOrderFailed order_id string string string string
  | EmitOrderSkipped order_id string string string string
  | EmitOrderFaulted order_id string string string
  | EmitOrderFaultedRecovered order_id string string string

datatype action =
    fireCompleted | fireCancelled | fireRequeued | fireResumed | fireFailed | fireSkipped | fireFaulted
  | fireFaultedRecovered

definition actionTable :: "((status \<times> status) \<times> action list) list" where
  "actionTable =
    [((StatusInTransit, StatusDelivered), [fireCompleted]),
     ((StatusStaged, StatusDelivered), [fireCompleted]),
     ((StatusDispatched, StatusDelivered), [fireCompleted]),
     ((StatusDelivered, StatusConfirmed), [fireCompleted]),
     ((StatusReshuffling, StatusConfirmed), [fireCompleted]),
     ((StatusReshuffling, StatusQueued), [fireResumed, fireRequeued]),
     ((StatusPending, StatusCancelled), [fireCancelled]),
     ((StatusSourcing, StatusCancelled), [fireCancelled]),
     ((StatusQueued, StatusCancelled), [fireCancelled]),
     ((StatusAcknowledged, StatusCancelled), [fireCancelled]),
     ((StatusDispatched, StatusCancelled), [fireCancelled]),
     ((StatusInTransit, StatusCancelled), [fireCancelled]),
     ((StatusStaged, StatusCancelled), [fireCancelled]),
     ((StatusDelivered, StatusCancelled), [fireCancelled]),
     ((StatusReshuffling, StatusCancelled), [fireCancelled]),
     ((StatusDispatched, StatusFaulted), [fireFaulted]),
     ((StatusAcknowledged, StatusFaulted), [fireFaulted]),
     ((StatusInTransit, StatusFaulted), [fireFaulted]),
     ((StatusStaged, StatusFaulted), [fireFaulted]),
     ((StatusFaulted, StatusInTransit), [fireFaultedRecovered]),
     ((StatusFaulted, StatusDelivered), [fireCompleted]),
     ((StatusFaulted, StatusFailed), [fireFailed]),
     ((StatusFaulted, StatusCancelled), [fireCancelled]),
     ((StatusPending, StatusFailed), [fireFailed]),
     ((StatusSourcing, StatusFailed), [fireFailed]),
     ((StatusQueued, StatusFailed), [fireFailed]),
     ((StatusAcknowledged, StatusFailed), [fireFailed]),
     ((StatusDispatched, StatusFailed), [fireFailed]),
     ((StatusInTransit, StatusFailed), [fireFailed]),
     ((StatusStaged, StatusFailed), [fireFailed]),
     ((StatusDelivered, StatusFailed), [fireFailed]),
     ((StatusReshuffling, StatusFailed), [fireFailed]),
     ((StatusPending, StatusSkipped), [fireSkipped]),
     ((StatusSourcing, StatusSkipped), [fireSkipped]),
     ((StatusQueued, StatusSkipped), [fireSkipped])]"

definition actionMap :: "status \<Rightarrow> status \<Rightarrow> action list" where
  "actionMap src dst = (case map_of actionTable (src, dst) of None \<Rightarrow> [] | Some as \<Rightarrow> as)"

definition or_else :: "string \<Rightarrow> string \<Rightarrow> string" where
  "or_else a b = (if a = '''' then b else a)"

fun run_action :: "order \<Rightarrow> Event \<Rightarrow> action \<Rightarrow> emitted" where
  "run_action ord ev fireCompleted = EmitOrderCompleted (o_id ord) (o_uuid ord) (ev_station ev)"
| "run_action ord ev fireCancelled =
     EmitOrderCancelled (o_id ord) (o_uuid ord) (ev_station ev) (ev_reason ev) (ev_previous ev)"
| "run_action ord ev fireRequeued = EmitOrderQueued (o_id ord) (o_uuid ord) (ev_station ev)"
| "run_action ord ev fireResumed = EmitOrderResumed (o_id ord) (o_uuid ord) (ev_station ev)"
| "run_action ord ev fireFailed =
     EmitOrderFailed (o_id ord) (o_uuid ord) (ev_station ev) (or_else (ev_error_code ev) ''lifecycle_failed'')
       (or_else (ev_error_detail ev) (ev_reason ev))"
| "run_action ord ev fireSkipped =
     EmitOrderSkipped (o_id ord) (o_uuid ord) (ev_station ev) (or_else (ev_error_code ev) ''lifecycle_skipped'')
       (or_else (ev_error_detail ev) (ev_reason ev))"
| "run_action ord ev fireFaulted = EmitOrderFaulted (o_id ord) (o_uuid ord) (ev_station ev) (ev_reason ev)"
| "run_action ord ev fireFaultedRecovered =
     EmitOrderFaultedRecovered (o_id ord) (o_uuid ord) (ev_station ev) (ev_robot ev)"


section \<open>The driver\<close>

record lifecycle_state =
  lc_db :: core_db
  lc_futility :: "FutilityDetector option"
  lc_events :: "emitted list"
  lc_vendor_cancels :: "string list"

record world =
  w_now :: instant
  w_persist_ok :: bool
  w_read_ok :: bool

datatype lifecycle_error =
    IllegalTransition status status
  | ConcurrentTransition order_id status status
  | PersistError status status

definition historyReason :: "order \<Rightarrow> status \<Rightarrow> Event \<Rightarrow> HistoryReason" where
  "historyReason ord dst ev =
     \<lparr>hr_code = (if dst = StatusQueued then o_queue_code ord else ev_error_code ev),
      hr_actor = ev_actor ev,
      hr_ref = (if TermRef_Empty (ev_ref ev)
                then empty_ref\<lparr>tr_node := or_else (o_process_node ord) (o_delivery_node ord), tr_payload := o_payload ord\<rparr>
                else ev_ref ev)\<rparr>"

definition futility_key :: "order \<Rightarrow> FutilityKey" where
  "futility_key ord = \<lparr>fk_station = o_station ord, fk_node = o_process_node ord, fk_payload = o_payload ord\<rparr>"

definition noteFutility ::
  "world \<Rightarrow> FutilityDetector option \<Rightarrow> core_db \<Rightarrow> order \<Rightarrow> status \<Rightarrow> FutilityDetector option" where
  "noteFutility w fd db ord dst =
     (case fd of None \<Rightarrow> None
      | Some d \<Rightarrow>
          if dst = StatusInTransit then NoteInTransit (Some d) (futility_key ord)
          else if \<not> IsTerminal dst then Some d
          else if \<not> w_read_ok w then Some d
          else if EverReachedStatus db (o_id ord) StatusInTransit then Some d
          else fst (NoteFutileTerminal (Some d) (w_now w) (futility_key ord)))"

definition transition_detail :: "status \<Rightarrow> status \<Rightarrow> Event \<Rightarrow> string" where
  "transition_detail src dst ev =
     (if IsTerminal dst then or_else (ev_error_detail ev) (ev_reason ev)
      else or_else (ev_reason ev)
        (status_string src @ [CHR '' '', CHR 0xE2, CHR 0x86, CHR 0x92, CHR '' ''] @ status_string dst @ '' by '' @ ev_actor ev))"

definition persist_status ::
  "world \<Rightarrow> core_db \<Rightarrow> order \<Rightarrow> status \<Rightarrow> Event \<Rightarrow> (core_db \<times> bool) option" where
  "persist_status w db ord dst ev =
     (if \<not> w_persist_ok w then None
      else if IsTerminal dst then
        Some (TerminalizeOrderWithReason (w_now w) db (o_id ord) dst (transition_detail (o_status ord) dst ev)
                (historyReason ord dst ev))
      else (case UpdateStatusFromWithReason db (o_id ord) (o_status ord) dst (transition_detail (o_status ord) dst ev)
                   (historyReason ord dst ev) of
              Inl _ \<Rightarrow> None
            | Inr res \<Rightarrow> Some res))"

definition transition ::
  "world \<Rightarrow> lifecycle_state \<Rightarrow> order \<Rightarrow> status \<Rightarrow> Event \<Rightarrow> lifecycle_state \<times> order \<times> lifecycle_error option" where
  "transition w st ord dst ev0 =
     (let src = o_status ord; ev = ev0\<lparr>ev_previous := src\<rparr> in
      if \<not> IsValidTransition src dst then (st, ord, Some (IllegalTransition src dst))
      else case persist_status w (lc_db st) ord dst ev of
          None \<Rightarrow> (st, ord, Some (PersistError src dst))
        | Some (db', moved) \<Rightarrow>
            if \<not> moved then (st\<lparr>lc_db := db'\<rparr>, ord, Some (ConcurrentTransition (o_id ord) src dst))
            else
              let ord' = ord\<lparr>o_status := dst\<rparr> in
              (st\<lparr>lc_db := db',
                  lc_futility := noteFutility w (lc_futility st) db' ord' dst,
                  lc_events := lc_events st @ map (run_action ord' ev) (actionMap src dst)\<rparr>,
               ord', None))"

section \<open>The typed methods\<close>

text \<open>
  \<^verbatim>\<open>CancelOrder\<close> asks the fleet to cancel the vendor order first (\<^verbatim>\<open>lc_vendor_cancels\<close> records
  the request; a fleet error is logged and changes nothing else).  \<^verbatim>\<open>ConfirmReceipt\<close> writes
  twice; \<^verbatim>\<open>complete_ok\<close> says whether the second write succeeds.
\<close>

definition CancelOrder ::
  "world \<Rightarrow> lifecycle_state \<Rightarrow> order \<Rightarrow> string \<Rightarrow> string \<Rightarrow> lifecycle_state \<times> order" where
  "CancelOrder w st ord stationID reason =
     (if IsTerminal (o_status ord) then (st, ord)
      else
        let st1 = (if o_vendor_id ord \<noteq> '''' then st\<lparr>lc_vendor_cancels := lc_vendor_cancels st @ [o_vendor_id ord]\<rparr> else st);
            (st2, ord2, _) = transition w st1 ord StatusCancelled
               ((base_event (''system:'' @ stationID) reason)\<lparr>ev_station := stationID\<rparr>)
        in (st2, ord2))"

datatype receipt_error = ReceiptTransition lifecycle_error | ReceiptComplete

definition ConfirmReceipt ::
  "world \<Rightarrow> bool \<Rightarrow> lifecycle_state \<Rightarrow> order \<Rightarrow> string \<Rightarrow> string \<Rightarrow> int \<Rightarrow> lifecycle_state \<times> order \<times> (receipt_error + bool)" where
  "ConfirmReceipt w complete_ok st ord stationID receiptType finalCount =
     (if o_completed ord \<noteq> None then (st, ord, Inr False)
      else case transition w st ord StatusConfirmed
             ((base_event (''edge:'' @ stationID) (''receipt: '' @ receiptType @ '', count: '' @ format_int finalCount))
                \<lparr>ev_receipt_type := receiptType, ev_final_count := finalCount, ev_station := stationID\<rparr>) of
          (st1, ord1, Some e) \<Rightarrow> (st1, ord1, Inl (ReceiptTransition e))
        | (st1, ord1, None) \<Rightarrow>
            if \<not> complete_ok then (st1, ord1, Inl ReceiptComplete)
            else (st1\<lparr>lc_db := CompleteOrder (w_now w) (lc_db st1) (o_id ord1)\<rparr>, ord1, Inr True))"

definition Release :: "world \<Rightarrow> lifecycle_state \<Rightarrow> order \<Rightarrow> string \<Rightarrow> lifecycle_state \<times> order \<times> lifecycle_error option" where
  "Release w st ord actor = transition w st ord StatusInTransit
     (base_event actor (''released from staging (wait '' @ format_int (o_wait_index ord) @ '')''))"

definition MarkInTransit ::
  "world \<Rightarrow> lifecycle_state \<Rightarrow> order \<Rightarrow> string \<Rightarrow> string \<Rightarrow> lifecycle_state \<times> order \<times> lifecycle_error option" where
  "MarkInTransit w st ord robotID actor = transition w st ord StatusInTransit
     ((base_event actor ''fleet reported in transit'')\<lparr>ev_robot := robotID\<rparr>)"

definition Acknowledge :: "world \<Rightarrow> lifecycle_state \<Rightarrow> order \<Rightarrow> string \<Rightarrow> lifecycle_state \<times> order \<times> lifecycle_error option" where
  "Acknowledge w st ord actor = transition w st ord StatusAcknowledged (base_event actor ''fleet acknowledged order'')"

definition MarkStaged :: "world \<Rightarrow> lifecycle_state \<Rightarrow> order \<Rightarrow> string \<Rightarrow> lifecycle_state \<times> order \<times> lifecycle_error option" where
  "MarkStaged w st ord actor = transition w st ord StatusStaged (base_event actor ''fleet reported dwelling at staging node'')"

definition MarkDelivered :: "world \<Rightarrow> lifecycle_state \<Rightarrow> order \<Rightarrow> string \<Rightarrow> lifecycle_state \<times> order \<times> lifecycle_error option" where
  "MarkDelivered w st ord actor = transition w st ord StatusDelivered (base_event actor ''fleet reported delivered'')"

definition Queue :: "world \<Rightarrow> lifecycle_state \<Rightarrow> order \<Rightarrow> string \<Rightarrow> string \<Rightarrow> lifecycle_state \<times> order \<times> lifecycle_error option" where
  "Queue w st ord actor reason = transition w st ord StatusQueued (base_event actor (or_else reason ''awaiting inventory''))"

definition MoveToSourcing ::
  "world \<Rightarrow> lifecycle_state \<Rightarrow> order \<Rightarrow> string \<Rightarrow> string \<Rightarrow> lifecycle_state \<times> order \<times> lifecycle_error option" where
  "MoveToSourcing w st ord actor reason =
     (if o_status ord = StatusSourcing then (st, ord, None)
      else transition w st ord StatusSourcing (base_event actor reason))"

definition Dispatch ::
  "world \<Rightarrow> lifecycle_state \<Rightarrow> order \<Rightarrow> string \<Rightarrow> string \<Rightarrow> lifecycle_state \<times> order \<times> lifecycle_error option" where
  "Dispatch w st ord vendorOrderID actor = transition w st ord StatusDispatched
     (base_event actor (''vendor order '' @ vendorOrderID @ '' created''))"

definition FailWithRef ::
  "world \<Rightarrow> lifecycle_state \<Rightarrow> order \<Rightarrow> string \<Rightarrow> string \<Rightarrow> string \<Rightarrow> TermRef \<Rightarrow> lifecycle_state \<times> order \<times> lifecycle_error option" where
  "FailWithRef w st ord stationID errorCode detail ref =
     (if IsTerminal (o_status ord) then (st, ord, Some (IllegalTransition (o_status ord) StatusFailed))
      else transition w st ord StatusFailed
        ((base_event (''system:'' @ stationID) detail)
           \<lparr>ev_error_code := errorCode, ev_error_detail := detail, ev_station := stationID, ev_ref := ref\<rparr>))"

definition Fail ::
  "world \<Rightarrow> lifecycle_state \<Rightarrow> order \<Rightarrow> string \<Rightarrow> string \<Rightarrow> string \<Rightarrow> lifecycle_state \<times> order \<times> lifecycle_error option" where
  "Fail w st ord stationID errorCode detail = FailWithRef w st ord stationID errorCode detail empty_ref"

definition Skip ::
  "world \<Rightarrow> lifecycle_state \<Rightarrow> order \<Rightarrow> string \<Rightarrow> string \<Rightarrow> string \<Rightarrow> lifecycle_state \<times> order \<times> lifecycle_error option" where
  "Skip w st ord stationID errorCode detail =
     (if IsTerminal (o_status ord) then (st, ord, Some (IllegalTransition (o_status ord) StatusSkipped))
      else transition w st ord StatusSkipped
        ((base_event (''system:'' @ stationID) detail)
           \<lparr>ev_error_code := errorCode, ev_error_detail := detail, ev_station := stationID\<rparr>))"

definition BeginReshuffle :: "world \<Rightarrow> lifecycle_state \<Rightarrow> order \<Rightarrow> string \<Rightarrow> lifecycle_state \<times> order \<times> lifecycle_error option" where
  "BeginReshuffle w st ord reason = transition w st ord StatusReshuffling (base_event ''system'' reason)"

definition CompleteCompound :: "world \<Rightarrow> lifecycle_state \<Rightarrow> order \<Rightarrow> lifecycle_state \<times> order \<times> lifecycle_error option" where
  "CompleteCompound w st ord = transition w st ord StatusConfirmed
     ((base_event ''system'' ''reshuffle complete'')\<lparr>ev_station := o_station ord\<rparr>)"

definition ResumeCompound ::
  "world \<Rightarrow> bool \<Rightarrow> lifecycle_state \<Rightarrow> order \<Rightarrow> lifecycle_state \<times> order \<times> lifecycle_error option" where
  "ResumeCompound w detail_ok st ord =
     (case transition w st ord StatusQueued
         ((base_event ''system'' ''reshuffle complete; parent requeued for re-resolution'')\<lparr>ev_station := o_station ord\<rparr>) of
        (st1, ord1, Some e) \<Rightarrow> (st1, ord1, Some e)
      | (st1, ord1, None) \<Rightarrow>
          if \<not> detail_ok then (st1, ord1, None)
          else (st1\<lparr>lc_db := SetQueueDetail (lc_db st1) (o_id ord1) '''' '''' ''''\<rparr>,
                ord1\<lparr>o_queue_reason := '''', o_queue_code := '''', o_queue_cause := ''''\<rparr>, None))"

definition MarkPending :: "world \<Rightarrow> lifecycle_state \<Rightarrow> order \<Rightarrow> string \<Rightarrow> lifecycle_state \<times> order \<times> store_error option" where
  "MarkPending w st ord reason =
     (if \<not> w_persist_ok w then (st, ord, Some StoreDown)
      else case UpdateStatus (lc_db st) (o_id ord) StatusPending reason of
          Inl e \<Rightarrow> (st, ord, Some e)
        | Inr db' \<Rightarrow> (st\<lparr>lc_db := db'\<rparr>, ord\<lparr>o_status := StatusPending\<rparr>, None))"

definition MarkFaulted ::
  "world \<Rightarrow> lifecycle_state \<Rightarrow> order \<Rightarrow> string \<Rightarrow> TermRef \<Rightarrow> string \<Rightarrow> lifecycle_state \<times> order \<times> lifecycle_error option" where
  "MarkFaulted w st ord robotID ref reason = transition w st ord StatusFaulted
     ((base_event ''fleet'' reason)\<lparr>ev_robot := robotID, ev_ref := ref\<rparr>)"

definition MarkFaultedRecovered ::
  "world \<Rightarrow> lifecycle_state \<Rightarrow> order \<Rightarrow> string \<Rightarrow> TermRef \<Rightarrow> string \<Rightarrow> lifecycle_state \<times> order \<times> lifecycle_error option" where
  "MarkFaultedRecovered w st ord robotID ref reason = transition w st ord StatusInTransit
     ((base_event ''fleet'' reason)\<lparr>ev_robot := robotID, ev_ref := ref\<rparr>)"

definition IsPostDelivery :: "status \<Rightarrow> bool" where
  "IsPostDelivery s = (s = StatusDelivered \<or> s = StatusConfirmed)"

section \<open>Facts about the store\<close>

lemma terminal_row_iff: "s \<in> set AllStatuses \<Longrightarrow> s \<in> set TerminalStatuses \<longleftrightarrow> IsTerminal s"
  by (simp add: set_TerminalStatuses)

lemma release_holds_fields [simp]:
  "db_orders (release_holds db ord) = db_orders db" "db_history (release_holds db ord) = db_history db"
  "db_orders (stamp_transit now db ord) = db_orders db" "db_history (stamp_transit now db ord) = db_history db"
  by (simp_all add: release_holds_def stamp_transit_def)

definition holds_nothing :: "core_db \<Rightarrow> order_id \<Rightarrow> bool" where
  "holds_nothing db ord \<longleftrightarrow>
     (\<forall>b\<in>set (db_bins db). cb_claimed b \<noteq> Some ord) \<and>
     (\<forall>n\<in>set (db_nodes db). cn_claimed n \<noteq> Some ord) \<and>
     (\<forall>p\<in>set (db_order_bins db). fst p \<noteq> ord) \<and>
     (\<forall>r\<in>set (db_reservations db). r_order r \<noteq> ord)"

lemma release_holds_all: "holds_nothing (release_holds db ord) ord"
  by (auto simp: holds_nothing_def release_holds_def set_update_rows ReleaseByOrder_def)

lemma release_holds_noop: "holds_nothing db ord \<Longrightarrow> release_holds db ord = db"
  by (simp add: holds_nothing_def release_holds_def update_rows_none delete_rows_none ReleaseByOrder_def)

lemma stamp_transit_noop: "holds_nothing db ord \<Longrightarrow> stamp_transit now db ord = db"
  by (simp add: holds_nothing_def stamp_transit_def update_rows_none)

lemma TerminalizeOrder_orders:
  "TerminalizeOrderWithReason now db ord st detail reason = (db', won) \<Longrightarrow>
     won = (\<exists>r\<in>set (db_orders db). live_row ord r) \<and>
     db_orders db' = update_rows (live_row ord)
       (\<lambda>r. r\<lparr>o_status := st, o_error_detail := (if st = StatusConfirmed then '''' else detail)\<rparr>) (db_orders db) \<and>
     db_history db' = db_history db @
       (if won then [\<lparr>hy_order = ord, hy_status = st, hy_detail = detail, hy_code = hr_code reason,
                     hy_actor = hr_actor reason, hy_ref = refJSON reason\<rparr>] else [])"
  using count_rows_0 [of "live_row ord" "db_orders db"]
  by (auto simp: TerminalizeOrderWithReason_def Let_def)

lemma UpdateStatusFrom_effect:
  assumes "UpdateStatusFromWithReason db ord src st detail reason = Inr (db', True)"
  shows "db_orders db' = update_rows (\<lambda>r. o_id r = ord \<and> o_status r = src)
      (\<lambda>r. r\<lparr>o_status := st, o_error_detail := ''''\<rparr>) (db_orders db)"
    and "\<exists>r\<in>set (db_orders db). o_id r = ord \<and> o_status r = src"
    and "\<exists>h. db_history db' = db_history db @ [h] \<and> hy_order h = ord \<and> hy_status h = st"
  using assms by (auto simp: UpdateStatusFromWithReason_def Let_def count_rows_0 split: if_splits)

lemma TerminalizeOrder_releases:
  "TerminalizeOrderWithReason now db ord st detail reason = (db', won) \<Longrightarrow> holds_nothing db' ord"
  by (auto simp: TerminalizeOrderWithReason_def Let_def release_holds_all)


section \<open>Runs of the lifecycle\<close>

text \<open>
  A step is a call of \<^verbatim>\<open>transition\<close> by any caller with any snapshot of an order, however
  stale, or one of the store writes around it.  Nothing relates the snapshot to the row.
  \<^verbatim>\<open>UpdateOrderStatus\<close> has no guard in SQL; both its callers write \<^verbatim>\<open>pending\<close> on the row they
  have just inserted, so the step has that the row is live.
\<close>

inductive lc_step :: "lifecycle_state \<Rightarrow> lifecycle_state \<Rightarrow> bool" where
  step_create: "o_id ord \<notin> o_id ` set (db_orders (lc_db st)) \<Longrightarrow> o_status ord \<in> set AllStatuses \<Longrightarrow>
    \<not> IsTerminal (o_status ord) \<Longrightarrow>
    lc_step st (st\<lparr>lc_db := (lc_db st)\<lparr>db_orders := db_orders (lc_db st) @ [ord]\<rparr>\<rparr>)"
| step_pending: "ord \<in> o_id ` set (db_orders (lc_db st)) \<Longrightarrow>
    \<forall>r\<in>set (db_orders (lc_db st)). o_id r = ord \<longrightarrow> \<not> IsTerminal (o_status r) \<Longrightarrow>
    UpdateStatus (lc_db st) ord StatusPending reason = Inr db' \<Longrightarrow> lc_step st (st\<lparr>lc_db := db'\<rparr>)"
| step_transition: "transition w st ord dst ev = (st', ord', err) \<Longrightarrow> lc_step st st'"
| step_holds: "db_orders db' = db_orders (lc_db st) \<Longrightarrow> db_history db' = db_history (lc_db st) \<Longrightarrow>
    lc_step st (st\<lparr>lc_db := db'\<rparr>)"
| step_complete: "lc_step st (st\<lparr>lc_db := CompleteOrder now (lc_db st) ord\<rparr>)"
| step_queue_detail: "lc_step st (st\<lparr>lc_db := SetQueueDetail (lc_db st) ord reason code cause\<rparr>)"
| step_vendor_cancel: "lc_step st (st\<lparr>lc_vendor_cancels := vs\<rparr>)"

definition lc_initial :: "lifecycle_state \<Rightarrow> bool" where
  "lc_initial st \<longleftrightarrow> db_orders (lc_db st) = [] \<and> db_history (lc_db st) = [] \<and> lc_events st = []"

definition lc_reach :: "lifecycle_state \<Rightarrow> bool" where
  "lc_reach st \<longleftrightarrow> (\<exists>st0. lc_initial st0 \<and> lc_step\<^sup>*\<^sup>* st0 st)"

fun is_ending :: "order_id \<Rightarrow> emitted \<Rightarrow> bool" where
  "is_ending ord (EmitOrderCancelled i _ _ _ _) = (i = ord)"
| "is_ending ord (EmitOrderFailed i _ _ _ _) = (i = ord)"
| "is_ending ord (EmitOrderSkipped i _ _ _ _) = (i = ord)"
| "is_ending ord _ = False"

definition ended_row :: "order_id \<Rightarrow> order \<Rightarrow> bool" where
  "ended_row ord r \<longleftrightarrow> o_id r = ord \<and> IsTerminal (o_status r)"

definition ending_history :: "order_id \<Rightarrow> history_row \<Rightarrow> bool" where
  "ending_history ord h \<longleftrightarrow> hy_order h = ord \<and> IsTerminal (hy_status h)"

definition lc_inv :: "lifecycle_state \<Rightarrow> bool" where
  "lc_inv st \<longleftrightarrow>
     distinct (map o_id (db_orders (lc_db st))) \<and>
     (\<forall>r\<in>set (db_orders (lc_db st)). o_status r \<in> set AllStatuses) \<and>
     (\<forall>h\<in>set (db_history (lc_db st)). hy_order h \<in> o_id ` set (db_orders (lc_db st))) \<and>
     (\<forall>ord. count_rows (ending_history ord) (db_history (lc_db st)) =
        (if \<exists>r\<in>set (db_orders (lc_db st)). ended_row ord r then 1 else 0)) \<and>
     (\<forall>ord. count_rows (is_ending ord) (lc_events st) \<le> count_rows (ending_history ord) (db_history (lc_db st)))"

lemma actionMap_table: "actionMap src dst = [] \<or> ((src, dst), actionMap src dst) \<in> set actionTable"
  by (auto simp: actionMap_def dest: map_of_SomeD split: option.splits)

lemma actionTable_endings:
  "list_all (\<lambda>((s, d), as). count_rows (is_ending ord) (map (run_action o' ev) as) \<le> (if IsTerminal d then 1 else 0)) actionTable"
  by (simp add: actionTable_def count_rows_def)

lemma actions_endings:
  "count_rows (is_ending ord) (map (run_action o' ev) (actionMap src dst)) \<le> (if IsTerminal dst then 1 else 0)"
  using actionMap_table [of src dst] actionTable_endings [of ord o' ev] by (fastforce simp: list_all_iff)

lemma actionTable_own:
  "list_all (\<lambda>((s, d), as). list_all (\<lambda>a. \<forall>ord. is_ending ord (run_action o' ev a) \<longrightarrow> ord = o_id o') as) actionTable"
  by (simp add: actionTable_def)

lemma actions_endings_other:
  "ord \<noteq> o_id o' \<Longrightarrow> count_rows (is_ending ord) (map (run_action o' ev) (actionMap src dst)) = 0"
  using actionMap_table [of src dst] actionTable_own [of o' ev] by (fastforce simp: list_all_iff count_rows_0)

lemma IsValidTransition_canonical: "IsValidTransition src dst \<Longrightarrow> dst \<in> set AllStatuses \<and> \<not> IsTerminal src"
  using set_targets [of src] terminal_iff_no_targets [of src] by (auto simp: IsValidTransition_targets)

lemma transition_failed:
  assumes "transition w st ord dst ev = (st', ord', Some e)"
  shows "db_orders (lc_db st') = db_orders (lc_db st) \<and> db_history (lc_db st') = db_history (lc_db st) \<and>
    lc_events st' = lc_events st \<and> lc_futility st' = lc_futility st \<and> ord' = ord"
proof (cases "IsValidTransition (o_status ord) dst")
  case False
  then show ?thesis using assms by (simp add: transition_def)
next
  case True
  let ?ev = "ev\<lparr>ev_previous := o_status ord\<rparr>"
  show ?thesis
  proof (cases "persist_status w (lc_db st) ord dst ?ev")
    case None
    then show ?thesis using assms True by (simp add: transition_def)
  next
    case (Some p)
    then obtain db' where p: "persist_status w (lc_db st) ord dst ?ev = Some (db', False)"
      and st': "st' = st\<lparr>lc_db := db'\<rparr>" "ord' = ord"
      using assms True by (cases p) (auto simp: transition_def Let_def split: if_splits)
    have "db_orders db' = db_orders (lc_db st) \<and> db_history db' = db_history (lc_db st)"
    proof (cases "IsTerminal dst")
      case True
      then have "TerminalizeOrderWithReason (w_now w) (lc_db st) (o_id ord) dst (transition_detail (o_status ord) dst ?ev)
          (historyReason ord dst ?ev) = (db', False)"
        using p by (simp add: persist_status_def split: if_splits)
      from TerminalizeOrder_orders [OF this] show ?thesis by (auto simp: update_rows_none)
    next
      case False
      then show ?thesis
        using p by (auto simp: persist_status_def UpdateStatusFromWithReason_def Let_def split: if_splits)
    qed
    then show ?thesis using st' by simp
  qed
qed

lemma transition_moved:
  assumes "transition w st ord dst ev = (st', ord', None)"
  obtains P f h where "IsValidTransition (o_status ord) dst"
    and "db_orders (lc_db st') = update_rows P f (db_orders (lc_db st))"
    and "\<exists>r\<in>set (db_orders (lc_db st)). P r"
    and "\<And>r. P r \<Longrightarrow> o_id r = o_id ord" and "\<And>r. P r \<Longrightarrow> o_status r \<in> set AllStatuses \<Longrightarrow> \<not> IsTerminal (o_status r)"
    and "\<And>r. \<not> IsTerminal dst \<Longrightarrow> P r \<Longrightarrow> o_status r = o_status ord"
    and "\<And>r. o_id (f r) = o_id r" and "\<And>r. o_status (f r) = dst"
    and "db_history (lc_db st') = db_history (lc_db st) @ [h]" and "hy_order h = o_id ord" and "hy_status h = dst"
    and "lc_events st' = lc_events st @ map (run_action (ord\<lparr>o_status := dst\<rparr>) (ev\<lparr>ev_previous := o_status ord\<rparr>)) (actionMap (o_status ord) dst)"
    and "ord' = ord\<lparr>o_status := dst\<rparr>" and "IsTerminal dst \<longrightarrow> holds_nothing (lc_db st') (o_id ord)"
proof -
  let ?ev = "ev\<lparr>ev_previous := o_status ord\<rparr>"
  let ?ord = "ord\<lparr>o_status := dst\<rparr>"
  have valid: "IsValidTransition (o_status ord) dst" using assms by (auto simp: transition_def Let_def split: if_splits)
  obtain db' where p: "persist_status w (lc_db st) ord dst ?ev = Some (db', True)"
    and st': "lc_db st' = db'" "ord' = ?ord"
      "lc_events st' = lc_events st @ map (run_action ?ord ?ev) (actionMap (o_status ord) dst)"
    using assms valid by (auto simp: transition_def Let_def split: option.splits prod.splits if_splits)
  note src = conjunct2 [OF IsValidTransition_canonical [OF valid]]
  show thesis
  proof (cases "IsTerminal dst")
    case True
    then have T: "TerminalizeOrderWithReason (w_now w) (lc_db st) (o_id ord) dst (transition_detail (o_status ord) dst ?ev)
        (historyReason ord dst ?ev) = (db', True)"
      using p by (simp add: persist_status_def split: if_splits)
    note eff = TerminalizeOrder_orders [OF T]
    show thesis
      by (rule that [OF valid eff [THEN conjunct2, THEN conjunct1, folded st'(1)], where h = "last (db_history db')"])
        (use eff st' True TerminalizeOrder_releases [OF T] in
          \<open>auto simp: live_row_def terminal_row_iff\<close>)
  next
    case False
    then have U: "UpdateStatusFromWithReason (lc_db st) (o_id ord) (o_status ord) dst (transition_detail (o_status ord) dst ?ev)
        (historyReason ord dst ?ev) = Inr (db', True)"
      using p by (auto simp: persist_status_def split: if_splits sum.splits)
    let ?P = "\<lambda>r. o_id r = o_id ord \<and> o_status r = o_status ord"
    have orders: "db_orders (lc_db st') = update_rows ?P (\<lambda>r. r\<lparr>o_status := dst, o_error_detail := ''''\<rparr>) (db_orders (lc_db st))"
      and ex: "\<exists>r\<in>set (db_orders (lc_db st)). ?P r"
      and hist: "\<exists>h. db_history (lc_db st') = db_history (lc_db st) @ [h] \<and> hy_order h = o_id ord \<and> hy_status h = dst"
      unfolding st'(1) by (rule UpdateStatusFrom_effect [OF U])+
    from hist obtain h where h: "db_history (lc_db st') = db_history (lc_db st) @ [h]" "hy_order h = o_id ord" "hy_status h = dst"
      by blast
    show thesis
      by (rule that [OF valid orders ex _ _ _ _ _ h]) (use st' False src in auto)
  qed
qed

lemma distinct_map_update:
  "(\<And>r. k (f r) = k r) \<Longrightarrow> map k (update_rows P f rs) = map k rs"
  by (auto simp: update_rows_def)

lemma one_row:
  "distinct (map o_id rs) \<Longrightarrow> r \<in> set rs \<Longrightarrow> r' \<in> set rs \<Longrightarrow> o_id r = o_id r' \<Longrightarrow> r = r'"
  by (auto simp: distinct_map dest: inj_onD)

lemma ids_update: "(\<And>r. o_id (f r) = o_id r) \<Longrightarrow> o_id ` set (update_rows P f rs) = o_id ` set rs"
  using distinct_map_update [of o_id f P rs] by (metis set_map)

lemma ended_row_update:
  assumes "distinct (map o_id rs)" and "r0 \<in> set rs" and "P r0" and "\<And>r. P r \<Longrightarrow> o_id r = ord"
    and "\<And>r. o_id (f r) = o_id r" and "\<And>r. o_status (f r) = dst"
  shows "(\<exists>r\<in>set (update_rows P f rs). ended_row i r) \<longleftrightarrow>
    (if i = ord then IsTerminal dst else \<exists>r\<in>set rs. ended_row i r)"
proof (cases "i = ord")
  case True
  have only: "r = r0" if "r \<in> set rs" "o_id r = ord" for r
    using one_row [OF assms(1) that(1) assms(2)] assms(4) [OF assms(3)] that(2) by simp
  have "(\<exists>r\<in>set (update_rows P f rs). ended_row ord r) \<longleftrightarrow> ended_row ord (f r0)"
  proof
    assume "\<exists>r\<in>set (update_rows P f rs). ended_row ord r"
    then obtain q where q: "q \<in> set rs" "ended_row ord (if P q then f q else q)"
      by (auto simp: update_rows_def)
    then have "o_id q = ord" using assms(5) by (auto simp: ended_row_def split: if_splits)
    with q only assms(3) show "ended_row ord (f r0)" by auto
  next
    assume "ended_row ord (f r0)"
    then show "\<exists>r\<in>set (update_rows P f rs). ended_row ord r" using assms(2,3) by (auto simp: set_update_rows)
  qed
  with True assms show ?thesis by (auto simp: ended_row_def)
next
  case False
  have "ended_row i (if P r then f r else r) \<longleftrightarrow> ended_row i r" for r
    using False assms(4,5) by (auto simp: ended_row_def)
  moreover have "(\<exists>r\<in>set (update_rows P f rs). ended_row i r) \<longleftrightarrow> (\<exists>r\<in>set rs. ended_row i (if P r then f r else r))"
    unfolding update_rows_def set_map by blast
  ultimately show ?thesis using False by presburger
qed

lemma lc_inv_cong:
  "db_orders (lc_db st') = db_orders (lc_db st) \<Longrightarrow> db_history (lc_db st') = db_history (lc_db st) \<Longrightarrow>
   lc_events st' = lc_events st \<Longrightarrow> lc_inv st' = lc_inv st"
  unfolding lc_inv_def by presburger

lemma lc_inv_transition:
  assumes inv: "lc_inv st" and tr: "transition w st ord dst ev = (st', ord', err)"
  shows "lc_inv st'"
proof (cases err)
  case (Some e)
  from transition_failed [OF tr [unfolded Some]] lc_inv_cong [of st' st] inv show ?thesis by blast
next
  case None
  let ?rs = "db_orders (lc_db st)"
  obtain P f h where
    valid: "IsValidTransition (o_status ord) dst"
    and orders: "db_orders (lc_db st') = update_rows P f ?rs" "\<exists>r\<in>set ?rs. P r"
    and P: "\<And>r. P r \<Longrightarrow> o_id r = o_id ord" "\<And>r. P r \<Longrightarrow> o_status r \<in> set AllStatuses \<Longrightarrow> \<not> IsTerminal (o_status r)"
    and f: "\<And>r. o_id (f r) = o_id r" "\<And>r. o_status (f r) = dst"
    and hist: "db_history (lc_db st') = db_history (lc_db st) @ [h]" "hy_order h = o_id ord" "hy_status h = dst"
    and evs: "lc_events st' = lc_events st @ map (run_action (ord\<lparr>o_status := dst\<rparr>) (ev\<lparr>ev_previous := o_status ord\<rparr>)) (actionMap (o_status ord) dst)"
    by (rule transition_moved [OF tr [unfolded None]]) (rule that; assumption)
  obtain r0 where r0: "r0 \<in> set ?rs" "P r0" using orders(2) by blast
  have dist: "distinct (map o_id ?rs)" and canon: "\<forall>r\<in>set ?rs. o_status r \<in> set AllStatuses"
    and own: "\<forall>h\<in>set (db_history (lc_db st)). hy_order h \<in> o_id ` set ?rs"
    and hcount: "\<And>i. count_rows (ending_history i) (db_history (lc_db st)) = (if \<exists>r\<in>set ?rs. ended_row i r then 1 else 0)"
    and ecount: "\<And>i. count_rows (is_ending i) (lc_events st) \<le> count_rows (ending_history i) (db_history (lc_db st))"
    using inv unfolding lc_inv_def by blast+
  have live0: "\<not> (\<exists>r\<in>set ?rs. ended_row (o_id ord) r)"
  proof
    assume "\<exists>r\<in>set ?rs. ended_row (o_id ord) r"
    then obtain r where r: "r \<in> set ?rs" "o_id r = o_id ord" "IsTerminal (o_status r)" by (auto simp: ended_row_def)
    have "r = r0" using one_row [OF dist r(1) r0(1)] r(2) P(1) [OF r0(2)] by simp
    with r P(2) [OF r0(2)] canon r0(1) show False by blast
  qed
  have new: "count_rows (ending_history i) [h] = (if i = o_id ord \<and> IsTerminal dst then 1 else 0)" for i
    using hist by (simp add: count_rows_def ending_history_def)
  have "count_rows (ending_history i) (db_history (lc_db st')) =
      (if \<exists>r\<in>set (db_orders (lc_db st')). ended_row i r then 1 else 0)" for i
  proof -
    have "(\<exists>r\<in>set (update_rows P f ?rs). ended_row i r) \<longleftrightarrow>
        (if i = o_id ord then IsTerminal dst else \<exists>r\<in>set ?rs. ended_row i r)"
      by (rule ended_row_update [where P = P and f = f, OF dist r0 P(1) f])
    then show ?thesis
      unfolding orders(1) hist(1) count_rows_append hcount new using live0 by simp
  qed
  moreover have "count_rows (is_ending i) (lc_events st') \<le> count_rows (ending_history i) (db_history (lc_db st'))" for i
  proof (cases "i = o_id ord")
    case True
    then show ?thesis
      unfolding evs hist(1) count_rows_append new using ecount [of i]
        actions_endings [of i "ord\<lparr>o_status := dst\<rparr>" "ev\<lparr>ev_previous := o_status ord\<rparr>" "o_status ord" dst]
      by (auto split: if_splits)
  next
    case False
    then show ?thesis
      unfolding evs hist(1) count_rows_append new using ecount [of i]
        actions_endings_other [of i "ord\<lparr>o_status := dst\<rparr>"] by simp
  qed
  moreover have "\<forall>r\<in>set (db_orders (lc_db st')). o_status r \<in> set AllStatuses"
    unfolding orders(1) set_update_rows using canon IsValidTransition_canonical [OF valid] f(2) by auto
  moreover have "o_id ` set (db_orders (lc_db st')) = o_id ` set ?rs" "distinct (map o_id (db_orders (lc_db st')))"
    unfolding orders(1) using f(1) dist by (simp_all add: ids_update distinct_map_update)
  moreover have "\<forall>h\<in>set (db_history (lc_db st')). hy_order h \<in> o_id ` set ?rs"
  proof -
    have "o_id ord \<in> o_id ` set ?rs" using r0(1) P(1) [OF r0(2)] by (metis imageI)
    then show ?thesis unfolding hist(1) using own hist(2) by auto
  qed
  ultimately show ?thesis unfolding lc_inv_def by simp
qed

abbreviation order_view :: "order list \<Rightarrow> (order_id \<times> status) list" where
  "order_view rs \<equiv> map (\<lambda>r. (o_id r, o_status r)) rs"

abbreviation history_view :: "history_row list \<Rightarrow> (order_id \<times> status) list" where
  "history_view hs \<equiv> map (\<lambda>h. (hy_order h, hy_status h)) hs"

definition ended_pair :: "order_id \<Rightarrow> order_id \<times> status \<Rightarrow> bool" where
  "ended_pair i p \<longleftrightarrow> fst p = i \<and> IsTerminal (snd p)"

lemma lc_inv_view:
  "lc_inv st \<longleftrightarrow>
     distinct (map fst (order_view (db_orders (lc_db st)))) \<and>
     (\<forall>p\<in>set (order_view (db_orders (lc_db st))). snd p \<in> set AllStatuses) \<and>
     (\<forall>p\<in>set (history_view (db_history (lc_db st))). fst p \<in> fst ` set (order_view (db_orders (lc_db st)))) \<and>
     (\<forall>i. count_rows (ended_pair i) (history_view (db_history (lc_db st))) =
        (if \<exists>p\<in>set (order_view (db_orders (lc_db st))). ended_pair i p then 1 else 0)) \<and>
     (\<forall>i. count_rows (is_ending i) (lc_events st) \<le> count_rows (ended_pair i) (history_view (db_history (lc_db st))))"
proof -
  have "count_rows (ended_pair i) (history_view hs) = count_rows (ending_history i) hs" for i hs
    by (simp add: count_rows_def ended_pair_def ending_history_def [abs_def] filter_map o_def)
  moreover have "fst ` set (order_view rs) = o_id ` set rs" for rs by force
  moreover have "(\<exists>p\<in>set (order_view rs). ended_pair i p) \<longleftrightarrow> (\<exists>r\<in>set rs. ended_row i r)" for i rs
    by (auto simp: ended_pair_def ended_row_def)
  moreover have "map fst (order_view rs) = map o_id rs" for rs by simp
  ultimately show ?thesis unfolding lc_inv_def by (simp only: set_map ball_simps fst_conv snd_conv o_def)
qed

lemma lc_inv_same_view:
  "order_view (db_orders (lc_db st')) = order_view (db_orders (lc_db st)) \<Longrightarrow>
   history_view (db_history (lc_db st')) = history_view (db_history (lc_db st)) \<Longrightarrow>
   lc_events st' = lc_events st \<Longrightarrow> lc_inv st' = lc_inv st"
  unfolding lc_inv_view by presburger

lemma stamp_last_view: "(\<And>r. k (f r) = k r) \<Longrightarrow> map k (stamp_last P f rs) = map k rs"
  by (induction P f rs rule: stamp_last.induct) auto

lemma SetQueueDetail_view:
  "order_view (db_orders (SetQueueDetail db ord reason code cause)) = order_view (db_orders db)"
  "history_view (db_history (SetQueueDetail db ord reason code cause)) = history_view (db_history db)"
  by (auto simp: SetQueueDetail_def Let_def update_rows_def stamp_last_view)

lemma CompleteOrder_view: "order_view (db_orders (CompleteOrder now db ord)) = order_view (db_orders db)"
  by (auto simp: CompleteOrder_def update_rows_def)

lemma CompleteOrder_history: "db_history (CompleteOrder now db ord) = db_history db"
  by (simp add: CompleteOrder_def)

lemma lc_inv_live:
  assumes "lc_inv st"
    and "distinct (map o_id (db_orders (lc_db st')))"
    and "\<forall>r\<in>set (db_orders (lc_db st')). o_status r \<in> set AllStatuses"
    and "\<forall>h\<in>set (db_history (lc_db st')). hy_order h \<in> o_id ` set (db_orders (lc_db st'))"
    and "\<And>i. (\<exists>r\<in>set (db_orders (lc_db st')). ended_row i r) \<longleftrightarrow> (\<exists>r\<in>set (db_orders (lc_db st)). ended_row i r)"
    and "\<And>i. count_rows (ending_history i) (db_history (lc_db st')) = count_rows (ending_history i) (db_history (lc_db st))"
    and "lc_events st' = lc_events st"
  shows "lc_inv st'"
  using assms(1-4) unfolding lc_inv_def assms(5-7) by blast

lemma lc_inv_step: "lc_step st st' \<Longrightarrow> lc_inv st \<Longrightarrow> lc_inv st'"
proof (induction rule: lc_step.induct)
  case (step_create ord st)
  have "\<not> ended_row i ord" for i
    using step_create by (auto simp: ended_row_def)
  then show ?case
    using step_create by (intro lc_inv_live [OF step_create(4)]) (auto simp: lc_inv_def)
next
  case (step_pending ord st reason db')
  let ?rs = "db_orders (lc_db st)"
  have db': "db_orders db' = update_rows (\<lambda>r. o_id r = ord) (\<lambda>r. r\<lparr>o_status := StatusPending, o_error_detail := ''''\<rparr>) ?rs"
    "db_history db' = db_history (lc_db st) @
       [\<lparr>hy_order = ord, hy_status = StatusPending, hy_detail = reason, hy_code = '''', hy_actor = '''', hy_ref = None\<rparr>]"
    using step_pending(3) by (auto simp: UpdateStatus_def)
  have ended: "(\<exists>r\<in>set (db_orders db'). ended_row i r) \<longleftrightarrow> (\<exists>r\<in>set ?rs. ended_row i r)" for i
    using step_pending(2) unfolding db'(1) by (auto simp: ended_row_def set_update_rows)
  have hist: "count_rows (ending_history i) (db_history db') = count_rows (ending_history i) (db_history (lc_db st))" for i
    unfolding db'(2) by (simp add: count_rows_def ending_history_def)
  have ids: "map o_id (db_orders db') = map o_id ?rs" "o_id ` set (db_orders db') = o_id ` set ?rs"
    unfolding db'(1) by (simp_all add: distinct_map_update ids_update)
  have pending: "StatusPending \<in> set AllStatuses" by (simp add: AllStatuses_def)
  have "\<forall>r\<in>set (db_orders db'). o_status r \<in> set AllStatuses"
    using step_pending(4) pending unfolding db'(1) lc_inv_def set_update_rows by auto
  moreover have "\<forall>h\<in>set (db_history db'). hy_order h \<in> o_id ` set ?rs"
    using step_pending(1,4) unfolding db'(2) lc_inv_def by simp
  ultimately show ?case
    using step_pending(4) ended hist ids by (intro lc_inv_live [OF step_pending(4)]) (simp_all add: lc_inv_def)
next
  case (step_transition w st ord dst ev st' ord' err)
  then show ?case by (auto intro: lc_inv_transition)
next
  case (step_holds db' st)
  then show ?case using lc_inv_cong [of "st\<lparr>lc_db := db'\<rparr>" st] by simp
next
  case (step_complete st now ord)
  then show ?case
    using lc_inv_same_view [of "st\<lparr>lc_db := CompleteOrder now (lc_db st) ord\<rparr>" st]
    by (simp add: CompleteOrder_view CompleteOrder_history)
next
  case (step_queue_detail st ord reason code cause)
  then show ?case
    using lc_inv_same_view [of "st\<lparr>lc_db := SetQueueDetail (lc_db st) ord reason code cause\<rparr>" st]
    by (simp add: SetQueueDetail_view)
next
  case (step_vendor_cancel st vs)
  then show ?case using lc_inv_cong [of "st\<lparr>lc_vendor_cancels := vs\<rparr>" st] by simp
qed

lemma lc_inv_steps: "lc_step\<^sup>*\<^sup>* st st' \<Longrightarrow> lc_inv st \<Longrightarrow> lc_inv st'"
  by (induction rule: rtranclp_induct) (auto intro: lc_inv_step)

lemma lc_reach_inv: "lc_reach st \<Longrightarrow> lc_inv st"
  unfolding lc_reach_def
  by (elim exE conjE, rule lc_inv_steps) (auto simp: lc_initial_def lc_inv_def)

section \<open>An ended order stays ended\<close>

lemma transition_live:
  assumes "lc_inv st" and "transition w st ord dst ev = (st', ord', None)"
  shows "\<forall>r\<in>set (db_orders (lc_db st)). o_id r = o_id ord \<longrightarrow> \<not> IsTerminal (o_status r)"
proof -
  obtain r0 where r0: "r0 \<in> set (db_orders (lc_db st))" "o_id r0 = o_id ord"
    "o_status r0 \<in> set AllStatuses \<longrightarrow> \<not> IsTerminal (o_status r0)"
    by (rule transition_moved [OF assms(2)]) blast
  have "distinct (map o_id (db_orders (lc_db st)))" "\<forall>r\<in>set (db_orders (lc_db st)). o_status r \<in> set AllStatuses"
    using assms(1) unfolding lc_inv_def by blast+
  then show ?thesis using one_row [OF _ _ r0(1)] r0 by metis
qed

lemma ended_row_step:
  assumes "lc_step st st'" and "lc_inv st" and "r \<in> set (db_orders (lc_db st))" and "IsTerminal (o_status r)"
  shows "\<exists>r'\<in>set (db_orders (lc_db st')). o_id r' = o_id r \<and> o_status r' = o_status r"
  using assms
proof (induction rule: lc_step.induct)
  case (step_pending ord st reason db')
  then have "db_orders db' = update_rows (\<lambda>r. o_id r = ord) (\<lambda>r. r\<lparr>o_status := StatusPending, o_error_detail := ''''\<rparr>) (db_orders (lc_db st))"
    by (auto simp: UpdateStatus_def)
  moreover have "o_id r \<noteq> ord" using step_pending by blast
  ultimately show ?case using step_pending(5) by (auto simp: set_update_rows)
next
  case (step_transition w st ord dst ev st' ord' err)
  show ?case
  proof (cases err)
    case None
    have other: "o_id r \<noteq> o_id ord"
      using transition_live [OF step_transition(2) step_transition(1) [unfolded None]] step_transition(3,4) by blast
    obtain P f where "db_orders (lc_db st') = update_rows P f (db_orders (lc_db st))" "P r \<Longrightarrow> o_id r = o_id ord"
      by (rule transition_moved [OF step_transition(1) [unfolded None]]) blast
    then show ?thesis using other step_transition(3) by (auto simp: set_update_rows)
  next
    case (Some e)
    show ?thesis
      using transition_failed [OF step_transition(1) [unfolded Some]] step_transition(3) by auto
  qed
next
  case (step_complete st now ord)
  then have "(o_id r, o_status r) \<in> set (order_view (db_orders (CompleteOrder now (lc_db st) ord)))"
    unfolding CompleteOrder_view by simp
  then show ?case by auto
next
  case (step_queue_detail st ord reason code cause)
  then have "(o_id r, o_status r) \<in> set (order_view (db_orders (SetQueueDetail (lc_db st) ord reason code cause)))"
    unfolding SetQueueDetail_view by simp
  then show ?case by auto
qed auto

lemma ended_row_steps:
  assumes "lc_step\<^sup>*\<^sup>* st st'" and "lc_inv st" and "r \<in> set (db_orders (lc_db st))" and "IsTerminal (o_status r)"
  shows "\<exists>r'\<in>set (db_orders (lc_db st')). o_id r' = o_id r \<and> o_status r' = o_status r"
  using assms(1)
proof (induction rule: rtranclp_induct)
  case base
  then show ?case using assms(3) by blast
next
  case (step st1 st2)
  then obtain r1 where r1: "r1 \<in> set (db_orders (lc_db st1))" "o_id r1 = o_id r" "o_status r1 = o_status r" by blast
  have "IsTerminal (o_status r1)" using r1(3) assms(4) by simp
  from ended_row_step [OF step(2) lc_inv_steps [OF step(1) assms(2)] r1(1) this] r1(2,3) show ?case by simp
qed

lemma actionTable_announces:
  "list_all (\<lambda>s. list_all (\<lambda>d. IsValidTransition s d \<longrightarrow>
      count_rows (is_ending (o_id o')) (map (run_action o' ev) (actionMap s d)) =
      (if d \<in> {StatusCancelled, StatusFailed, StatusSkipped} \<and> s \<noteq> StatusSubmitted then 1 else 0)) AllStatuses) AllStatuses"
  by (simp add: AllStatuses_def actionMap_def actionTable_def count_rows_def IsValidTransition_def)

lemma IsValidTransition_src: "IsValidTransition s d \<Longrightarrow> s \<in> set AllStatuses"
  by (cases s) (simp_all add: IsValidTransition_def AllStatuses_def)

lemma actionMap_announces:
  "IsValidTransition s d \<Longrightarrow> count_rows (is_ending (o_id o')) (map (run_action o' ev) (actionMap s d)) =
     (if d \<in> {StatusCancelled, StatusFailed, StatusSkipped} \<and> s \<noteq> StatusSubmitted then 1 else 0)"
  using actionTable_announces [of o' ev] IsValidTransition_src [of s d] IsValidTransition_canonical [of s d]
  by (simp add: list_all_iff)

section \<open>A worked run\<close>

text \<open>
  One order (id 7) in transit with its bin, which sits at the synthetic node \<^verbatim>\<open>_TRANSIT\<close>; it is
  cancelled, and a second caller with the old snapshot tries to deliver it.
\<close>

definition run_order :: order where
  "run_order = \<lparr>o_id = 7, o_uuid = ''u7'', o_station = ''S1'', o_status = StatusInTransit, o_process_node = ''P1'',
     o_delivery_node = ''D1'', o_payload = ''WIDGET'', o_vendor_id = ''v7'', o_wait_index = 0, o_queue_reason = '''',
     o_queue_code = '''', o_queue_cause = '''', o_error_detail = '''', o_completed = None\<rparr>"

definition run_start :: lifecycle_state where
  "run_start = \<lparr>lc_db = \<lparr>db_orders = [], db_history = [],
       db_bins = [\<lparr>cb_id = 1, cb_node = Some 2, cb_claimed = Some 7, cb_anomaly = None\<rparr>],
       db_nodes = [\<lparr>cn_id = 2, cn_name = ''_TRANSIT'', cn_claimed = None\<rparr>],
       db_order_bins = [(7, 1)], db_reservations = []\<rparr>,
     lc_futility = None, lc_events = [], lc_vendor_cancels = []\<rparr>"

definition run_created :: lifecycle_state where
  "run_created = run_start\<lparr>lc_db := (lc_db run_start)\<lparr>db_orders := db_orders (lc_db run_start) @ [run_order]\<rparr>\<rparr>"

definition run_world :: world where
  "run_world = \<lparr>w_now = 100, w_persist_ok = True, w_read_ok = True\<rparr>"

definition run_event :: Event where
  "run_event = base_event ''system:S1'' ''operator''"

definition run_cancelled :: lifecycle_state where
  "run_cancelled = fst (transition run_world run_created run_order StatusCancelled run_event)"

lemma run_created_reach: "lc_reach run_created"
proof -
  have "lc_step run_start run_created"
    unfolding run_created_def by (rule step_create) (simp_all add: run_start_def run_order_def AllStatuses_def)
  moreover have "lc_initial run_start" by (simp add: lc_initial_def run_start_def)
  ultimately show ?thesis unfolding lc_reach_def by blast
qed

lemma run_cancel_step: "lc_step run_created run_cancelled"
  using step_transition [of run_world run_created run_order StatusCancelled run_event run_cancelled]
  unfolding run_cancelled_def by (metis prod.collapse)

lemma run_cancelled_reach: "lc_reach run_cancelled"
  using run_created_reach run_cancel_step unfolding lc_reach_def by (meson rtranclp.rtrancl_into_rtrancl)

lemma run_cancelled_rows:
  "db_orders (lc_db run_cancelled) = [run_order\<lparr>o_status := StatusCancelled, o_error_detail := ''operator''\<rparr>]"
  by code_simp

lemma run_cancelled_events:
  "lc_events run_cancelled = [EmitOrderCancelled 7 ''u7'' '''' ''operator'' StatusInTransit]"
  by code_simp

lemma TerminalizeOrder_stamps:
  assumes "TerminalizeOrderWithReason now db ord st detail reason = (db', won)"
    and "b \<in> set (db_bins db)" and "cb_claimed b = Some ord" and "at_transit (db_nodes db) b"
  shows "\<exists>b'\<in>set (db_bins db'). cb_id b' = cb_id b \<and> cb_claimed b' = None \<and> cb_anomaly b' \<noteq> None"
proof -
  let ?stamp = "\<lambda>b. b\<lparr>cb_anomaly := (case cb_anomaly b of Some a \<Rightarrow> Some a | None \<Rightarrow> Some now)\<rparr>"
  have "db_bins db' = update_rows (\<lambda>b. cb_claimed b = Some ord) (\<lambda>b. b\<lparr>cb_claimed := None\<rparr>)
      (update_rows (\<lambda>b. cb_claimed b = Some ord \<and> at_transit (db_nodes db) b) ?stamp (db_bins db))"
    using assms(1) by (auto simp: TerminalizeOrderWithReason_def Let_def release_holds_def stamp_transit_def)
  then have "(?stamp b)\<lparr>cb_claimed := None\<rparr> \<in> set (db_bins db')"
    using assms(2-4) by (force simp: update_rows_def)
  then show ?thesis by (rule bexI [rotated]) (simp split: option.split)
qed

section \<open>Properties\<close>



text \<open>C5. Terminal is final.  Once the row of an order is terminal, no sequence of lifecycle
  steps, whatever snapshots the callers hold, changes its status again.\<close>
theorem terminal_row_is_final:
  assumes "lc_reach st" and "r \<in> set (db_orders (lc_db st))" and "IsTerminal (o_status r)" and "lc_step\<^sup>*\<^sup>* st st'"
    and "r' \<in> set (db_orders (lc_db st'))" and "o_id r' = o_id r"
  shows "o_status r' = o_status r"
proof -
  obtain q where q: "q \<in> set (db_orders (lc_db st'))" "o_id q = o_id r" "o_status q = o_status r"
    using ended_row_steps [OF assms(4) lc_reach_inv [OF assms(1)] assms(2,3)] by blast
  have "distinct (map o_id (db_orders (lc_db st')))"
    using lc_inv_steps [OF assms(4) lc_reach_inv [OF assms(1)]] unfolding lc_inv_def by blast
  with q assms(5,6) one_row [of "db_orders (lc_db st')" r' q] show ?thesis by simp
qed

definition run_late_delivery :: lifecycle_state where
  "run_late_delivery = fst (transition run_world run_cancelled run_order StatusDelivered run_event)"

theorem terminal_row_is_final_witness:
  "\<exists>r'\<in>set (db_orders (lc_db run_late_delivery)). o_id r' = 7 \<and> o_status r' = StatusCancelled"
proof -
  let ?r = "run_order\<lparr>o_status := StatusCancelled, o_error_detail := ''operator''\<rparr>"
  have step: "lc_step\<^sup>*\<^sup>* run_cancelled run_late_delivery"
    using step_transition [of run_world run_cancelled run_order StatusDelivered run_event run_late_delivery]
    unfolding run_late_delivery_def by (metis prod.collapse r_into_rtranclp)
  have row: "\<exists>r'\<in>set (db_orders (lc_db run_late_delivery)). o_id r' = 7" by code_simp
  from terminal_row_is_final [OF run_cancelled_reach _ _ step, of ?r] row show ?thesis
    by (auto simp: run_cancelled_rows run_order_def)
qed

text \<open>C19. The terminal write is all-or-nothing and idempotent.  It wins exactly when the row is
  live; winner or loser, the order then holds no bin, no node, no order-bin row and no reservation;
  a repeat, with any terminal status, writes nothing; rows of other orders are untouched; and a bin
  the order held at \<^verbatim>\<open>_TRANSIT\<close> carries an anomaly stamp.\<close>
theorem TerminalizeOrder_spec:
  assumes "TerminalizeOrderWithReason now db ord st detail reason = (db', won)" and "st \<in> set TerminalStatuses"
  shows "(won \<longleftrightarrow> (\<exists>r\<in>set (db_orders db). live_row ord r)) \<and>
    holds_nothing db' ord \<and>
    TerminalizeOrderWithReason now2 db' ord st2 detail2 reason2 = (db', False) \<and>
    filter (\<lambda>r. o_id r \<noteq> ord) (db_orders db') = filter (\<lambda>r. o_id r \<noteq> ord) (db_orders db) \<and>
    (\<forall>b\<in>set (db_bins db). cb_claimed b = Some ord \<and> at_transit (db_nodes db) b \<longrightarrow>
      (\<exists>b'\<in>set (db_bins db'). cb_id b' = cb_id b \<and> cb_claimed b' = None \<and> cb_anomaly b' \<noteq> None))"
proof (intro conjI)
  note eff = TerminalizeOrder_orders [OF assms(1)]
  show "won \<longleftrightarrow> (\<exists>r\<in>set (db_orders db). live_row ord r)" using eff by blast
  show held: "holds_nothing db' ord" by (rule TerminalizeOrder_releases [OF assms(1)])
  have dead: "\<forall>r\<in>set (db_orders db'). \<not> live_row ord r"
    using eff assms(2) by (auto simp: live_row_def set_update_rows)
  have rows: "update_rows (live_row ord) f (db_orders db') = db_orders db'" for f
    by (rule update_rows_none) (use dead in blast)
  have "count_rows (live_row ord) (db_orders db') = 0" using dead by (simp add: count_rows_0)
  then show "TerminalizeOrderWithReason now2 db' ord st2 detail2 reason2 = (db', False)"
    using held unfolding TerminalizeOrderWithReason_def
    by (simp add: Let_def rows stamp_transit_noop release_holds_noop)
  show "filter (\<lambda>r. o_id r \<noteq> ord) (db_orders db') = filter (\<lambda>r. o_id r \<noteq> ord) (db_orders db)"
  proof -
    have "filter (\<lambda>r. o_id r \<noteq> ord) (update_rows (live_row ord) f rs) = filter (\<lambda>r. o_id r \<noteq> ord) rs"
      if "\<And>r. o_id (f r) = o_id r" for f rs
      using that by (induction rs) (auto simp: update_rows_def live_row_def)
    then show ?thesis using eff by simp
  qed
  show "\<forall>b\<in>set (db_bins db). cb_claimed b = Some ord \<and> at_transit (db_nodes db) b \<longrightarrow>
      (\<exists>b'\<in>set (db_bins db'). cb_id b' = cb_id b \<and> cb_claimed b' = None \<and> cb_anomaly b' \<noteq> None)"
    using TerminalizeOrder_stamps [OF assms(1)] by blast
qed

theorem TerminalizeOrder_spec_witness:
  "TerminalizeOrderWithReason 200 (lc_db run_cancelled) 7 StatusFailed ''again'' no_reason = (lc_db run_cancelled, False) \<and>
   holds_nothing (lc_db run_cancelled) 7"
proof -
  have "TerminalizeOrderWithReason 100 (lc_db run_created) 7 StatusCancelled ''operator''
      (historyReason run_order StatusCancelled (run_event\<lparr>ev_previous := StatusInTransit\<rparr>)) = (lc_db run_cancelled, True)"
    by code_simp
  from TerminalizeOrder_spec [OF this, of 200 StatusFailed "''again''" no_reason] show ?thesis
    by (simp add: set_TerminalStatuses AllStatuses_def)
qed

lemma run_cancel_outcome:
  "snd (transition run_world run_created run_order StatusCancelled run_event) =
     (run_order\<lparr>o_status := StatusCancelled\<rparr>, None)"
  by code_simp

lemma run_cancel:
  "transition run_world run_created run_order StatusCancelled run_event =
     (run_cancelled, run_order\<lparr>o_status := StatusCancelled\<rparr>, None)"
  using run_cancel_outcome by (metis prod.collapse run_cancelled_def)

lemma cancel_fail_from_live:
  "s \<in> set AllStatuses \<Longrightarrow> \<not> IsTerminal s \<Longrightarrow> IsValidTransition s StatusCancelled \<and> IsValidTransition s StatusFailed"
  by (auto simp: AllStatuses_def IsValidTransition_def)

lemma terminal_targets: "IsTerminal dst \<Longrightarrow> dst \<in> set AllStatuses \<Longrightarrow>
    dst = StatusConfirmed \<or> dst = StatusCancelled \<or> dst = StatusFailed \<or> dst = StatusSkipped"
  by (auto simp: AllStatuses_def)

lemma moved_row:
  assumes inv: "lc_inv st" and tr: "transition w st ord dst ev = (st', ord', None)"
    and r: "r \<in> set (db_orders (lc_db st))" "o_id r = o_id ord"
  shows "\<not> IsTerminal (o_status r)" and "\<not> IsTerminal dst \<Longrightarrow> o_status r = o_status ord"
    and "\<exists>r'\<in>set (db_orders (lc_db st')). o_id r' = o_id ord \<and> o_status r' = dst"
proof -
  let ?rs = "db_orders (lc_db st)"
  obtain P f where orders: "db_orders (lc_db st') = update_rows P f ?rs" "\<exists>q\<in>set ?rs. P q"
    and P: "\<And>q. P q \<Longrightarrow> o_id q = o_id ord" "\<And>q. \<not> IsTerminal dst \<Longrightarrow> P q \<Longrightarrow> o_status q = o_status ord"
    and f: "\<And>q. o_id (f q) = o_id q" "\<And>q. o_status (f q) = dst"
    by (rule transition_moved [OF tr]) (rule that; assumption)
  obtain q where q: "q \<in> set ?rs" "P q" using orders(2) by blast
  have "distinct (map o_id ?rs)" using inv unfolding lc_inv_def by blast
  then have eq: "q = r" using one_row [OF _ q(1) r(1)] P(1) [OF q(2)] r(2) by simp
  show "\<not> IsTerminal (o_status r)" using transition_live [OF inv tr] r by blast
  show "\<not> IsTerminal dst \<Longrightarrow> o_status r = o_status ord" using P(2) [OF _ q(2)] eq by blast
  have "f q \<in> set (db_orders (lc_db st'))" unfolding orders(1) set_update_rows using q by blast
  then show "\<exists>r'\<in>set (db_orders (lc_db st')). o_id r' = o_id ord \<and> o_status r' = dst"
    using f P(1) [OF q(2)] by (intro bexI [of _ "f q"]) simp_all
qed

text \<open>A caller with a stale snapshot cannot move a row along an edge the state machine lacks,
  except into \<^verbatim>\<open>skipped\<close> or \<^verbatim>\<open>confirmed\<close>: the write that succeeds finds the row in a
  status from which the requested one is a legal target, and leaves it there.\<close>
theorem transition_edge_legal:
  assumes "lc_reach st" and "transition w st ord dst ev = (st', ord', None)"
    and "dst \<noteq> StatusSkipped" and "dst \<noteq> StatusConfirmed"
    and "r \<in> set (db_orders (lc_db st))" and "o_id r = o_id ord"
  shows "IsValidTransition (o_status r) dst \<and>
    (\<exists>r'\<in>set (db_orders (lc_db st')). o_id r' = o_id r \<and> o_status r' = dst)"
proof -
  note inv = lc_reach_inv [OF assms(1)]
  note moved = moved_row [OF inv assms(2,5,6)]
  have valid: "IsValidTransition (o_status ord) dst" by (rule transition_moved [OF assms(2)])
  have "o_status r \<in> set AllStatuses" using inv assms(5) unfolding lc_inv_def by blast
  then have "IsValidTransition (o_status r) dst"
    using moved(1,2) valid cancel_fail_from_live terminal_targets [of dst] IsValidTransition_canonical [OF valid] assms(3,4)
    by metis
  with moved(3) assms(6) show ?thesis by simp
qed

theorem transition_edge_legal_witness:
  "IsValidTransition StatusInTransit StatusCancelled \<and>
   (\<exists>r'\<in>set (db_orders (lc_db run_cancelled)). o_id r' = 7 \<and> o_status r' = StatusCancelled)"
proof -
  from transition_edge_legal [OF run_created_reach run_cancel, of run_order] show ?thesis
    by (simp add: run_created_def run_start_def run_order_def)
qed

lemma run_late_outcome:
  "snd (transition run_world run_cancelled run_order StatusDelivered run_event) =
     (run_order, Some (ConcurrentTransition 7 StatusInTransit StatusDelivered))"
  by code_simp

text \<open>The exception is real: a caller that read the order while it was \<^verbatim>\<open>queued\<close> can skip it
  after it has left in a robot, although the state machine has no edge from \<^verbatim>\<open>in_transit\<close> to
  \<^verbatim>\<open>skipped\<close>.  The terminal write compares against the live statuses only, not against the
  status the caller validated.\<close>
lemma stale_skip_takes_illegal_edge:
  "let (st', _, err) = Skip run_world run_created (run_order\<lparr>o_status := StatusQueued\<rparr>) ''S1'' ''no_bin'' ''none left'' in
     err = None \<and> map o_status (db_orders (lc_db run_created)) = [StatusInTransit] \<and>
     map o_status (db_orders (lc_db st')) = [StatusSkipped] \<and> \<not> IsValidTransition StatusInTransit StatusSkipped"
  by code_simp

text \<open>C21. A refused transition changes nothing a reader can see: an illegal edge, a lost race or a
  database error leaves the orders, the history, the events, the futility counter and the caller's
  copy of the order as they were; and an edge outside the table is refused as illegal before the
  database is asked.\<close>
theorem refused_transition_is_silent:
  assumes "transition w st ord dst ev = (st', ord', Some e)"
  shows "db_orders (lc_db st') = db_orders (lc_db st) \<and> db_history (lc_db st') = db_history (lc_db st) \<and>
    lc_events st' = lc_events st \<and> lc_futility st' = lc_futility st \<and> ord' = ord \<and>
    (e = IllegalTransition (o_status ord) dst \<longleftrightarrow> \<not> IsValidTransition (o_status ord) dst) \<and>
    (\<not> IsValidTransition (o_status ord) dst \<longrightarrow> st' = st)"
  using transition_failed [OF assms] assms
  by (auto simp: transition_def Let_def split: if_splits option.splits prod.splits)

theorem refused_transition_is_silent_witness:
  "db_orders (lc_db run_late_delivery) = db_orders (lc_db run_cancelled) \<and> lc_events run_late_delivery = lc_events run_cancelled"
proof -
  have "transition run_world run_cancelled run_order StatusDelivered run_event =
      (run_late_delivery, run_order, Some (ConcurrentTransition 7 StatusInTransit StatusDelivered))"
    using run_late_outcome by (metis prod.collapse run_late_delivery_def)
  from refused_transition_is_silent [OF this] show ?thesis by simp
qed



lemma ConfirmReceipt_booked:
  assumes "ConfirmReceipt w c st ord station typ n = (st1, ord1, Inr True)"
  obtains st' ev where "transition w st ord StatusConfirmed ev = (st', ord1, None)"
    and "st1 = st'\<lparr>lc_db := CompleteOrder (w_now w) (lc_db st') (o_id ord1)\<rparr>"
  using assms by (auto simp: ConfirmReceipt_def split: if_splits prod.splits option.splits)

lemma booked_row:
  assumes inv: "lc_inv st" and booked: "ConfirmReceipt w c st ord station typ n = (st1, ord1, Inr True)"
  shows "lc_inv st1 \<and> (\<exists>r\<in>set (db_orders (lc_db st1)).
    o_id r = o_id ord \<and> o_status r = StatusConfirmed \<and> o_completed r = Some (w_now w))"
proof -
  obtain st' ev where tr: "transition w st ord StatusConfirmed ev = (st', ord1, None)"
    and st1: "st1 = st'\<lparr>lc_db := CompleteOrder (w_now w) (lc_db st') (o_id ord1)\<rparr>"
    by (rule ConfirmReceipt_booked [OF booked])
  have id: "o_id ord1 = o_id ord" by (rule transition_moved [OF tr]) simp
  obtain r where r: "r \<in> set (db_orders (lc_db st))" "o_id r = o_id ord"
    by (rule transition_moved [OF tr]) blast
  from moved_row(3) [OF inv tr r] obtain q where
    q: "q \<in> set (db_orders (lc_db st'))" "o_id q = o_id ord" "o_status q = StatusConfirmed" by blast
  have "q\<lparr>o_completed := Some (w_now w)\<rparr> \<in> set (db_orders (lc_db st1))"
    using q(1,2) by (auto simp: st1 CompleteOrder_def set_update_rows id)
  moreover have "lc_inv st1"
    unfolding st1 by (rule lc_inv_step [OF step_complete]) (rule lc_inv_transition [OF inv tr])
  ultimately show ?thesis using q(2,3)
    by (intro conjI bexI [of _ "q\<lparr>o_completed := Some (w_now w)\<rparr>"]) simp_all
qed

text \<open>C23. A delivery receipt is booked once.  When \<^verbatim>\<open>ConfirmReceipt\<close> reports success the row
  is confirmed and carries the completion time, and whatever happens afterwards no other receipt
  for that order succeeds, whichever snapshot its caller holds.\<close>
theorem receipt_booked_once:
  assumes "lc_reach st" and "ConfirmReceipt w c st ord station typ n = (st1, ord1, Inr True)"
    and "lc_step\<^sup>*\<^sup>* st1 st2" and "o_id ord2 = o_id ord"
  shows "(\<exists>r\<in>set (db_orders (lc_db st1)). o_id r = o_id ord \<and> o_status r = StatusConfirmed \<and> o_completed r = Some (w_now w)) \<and>
    snd (snd (ConfirmReceipt w' c' st2 ord2 station' typ' n')) \<noteq> Inr True"
proof
  note row = booked_row [OF lc_reach_inv [OF assms(1)] assms(2)]
  then show "\<exists>r\<in>set (db_orders (lc_db st1)). o_id r = o_id ord \<and> o_status r = StatusConfirmed \<and> o_completed r = Some (w_now w)"
    by blast
  then obtain r where r: "r \<in> set (db_orders (lc_db st1))" "o_id r = o_id ord" "o_status r = StatusConfirmed" by blast
  obtain q where q: "q \<in> set (db_orders (lc_db st2))" "o_id q = o_id ord" "o_status q = StatusConfirmed"
    using ended_row_steps [OF assms(3) conjunct1 [OF row] r(1)] r(2,3) by auto
  show "snd (snd (ConfirmReceipt w' c' st2 ord2 station' typ' n')) \<noteq> Inr True"
  proof
    assume "snd (snd (ConfirmReceipt w' c' st2 ord2 station' typ' n')) = Inr True"
    then obtain s o3 where "ConfirmReceipt w' c' st2 ord2 station' typ' n' = (s, o3, Inr True)"
      by (cases "ConfirmReceipt w' c' st2 ord2 station' typ' n'") auto
    then obtain st' ev where "transition w' st2 ord2 StatusConfirmed ev = (st', o3, None)"
      by (rule ConfirmReceipt_booked)
    from transition_live [OF lc_inv_steps [OF assms(3) conjunct1 [OF row]] this] q assms(4) show False by auto
  qed
qed

definition run_delivered_order :: order where
  "run_delivered_order = run_order\<lparr>o_status := StatusDelivered\<rparr>"

definition run_delivered :: lifecycle_state where
  "run_delivered = run_start\<lparr>lc_db := (lc_db run_start)\<lparr>db_orders := db_orders (lc_db run_start) @ [run_delivered_order]\<rparr>\<rparr>"

definition run_booked :: lifecycle_state where
  "run_booked = fst (ConfirmReceipt run_world True run_delivered run_delivered_order ''S1'' ''full'' 12)"

lemma run_delivered_reach: "lc_reach run_delivered"
proof -
  have "lc_step run_start run_delivered"
    unfolding run_delivered_def
    by (rule step_create) (simp_all add: run_start_def run_delivered_order_def run_order_def AllStatuses_def)
  moreover have "lc_initial run_start" by (simp add: lc_initial_def run_start_def)
  ultimately show ?thesis unfolding lc_reach_def by blast
qed

lemma run_booked_outcome:
  "snd (ConfirmReceipt run_world True run_delivered run_delivered_order ''S1'' ''full'' 12) =
     (run_delivered_order\<lparr>o_status := StatusConfirmed\<rparr>, Inr True)"
  by code_simp

theorem receipt_booked_once_witness:
  "snd (snd (ConfirmReceipt run_world True run_booked run_delivered_order ''S1'' ''full'' 12)) \<noteq> Inr True"
proof -
  have "ConfirmReceipt run_world True run_delivered run_delivered_order ''S1'' ''full'' 12 =
      (run_booked, run_delivered_order\<lparr>o_status := StatusConfirmed\<rparr>, Inr True)"
    using run_booked_outcome by (metis prod.collapse run_booked_def)
  from receipt_booked_once [OF run_delivered_reach this rtranclp.rtrancl_refl refl] show ?thesis by blast
qed

text \<open>The two writes of \<^verbatim>\<open>ConfirmReceipt\<close> are separate transactions.  When the second fails, the
  order is confirmed without a completion time, and the retry a caller makes with the reloaded order
  is refused as an illegal transition: the receipt is never booked.\<close>
lemma receipt_retry_is_stuck:
  "let (st1, _, res1) = ConfirmReceipt run_world False run_delivered run_delivered_order ''S1'' ''full'' 12;
       ord2 = hd (db_orders (lc_db st1));
       (st2, _, res2) = ConfirmReceipt run_world True st1 ord2 ''S1'' ''full'' 12
   in res1 = Inl ReceiptComplete \<and> o_status ord2 = StatusConfirmed \<and> o_completed ord2 = None \<and>
      res2 = Inl (ReceiptTransition (IllegalTransition StatusConfirmed StatusConfirmed)) \<and>
      map o_completed (db_orders (lc_db st2)) = [None]"
  by code_simp

end
