(* ===== verification/EdgeOrders.thy ===== *)
theory EdgeOrders
  imports OrderStatus Reasons
begin

text \<open>
  The Edge's copy of the orders: \<^verbatim>\<open>shingo-edge/orders\<close> (\<^verbatim>\<open>lifecycle_service.go\<close>,
  \<^verbatim>\<open>manager_status.go\<close>, \<^verbatim>\<open>manager_lifecycle.go\<close>), the message handlers that drive it
  (\<^verbatim>\<open>shingo-edge/messaging/edge_handler.go\<close>) and the store functions they call.

  The record \<^verbatim>\<open>edge_state\<close> holds the tables, the events emitted so far, the messages put in the
  outbox and the stash of delivery snapshots.  A handler runs to its end before the next one
  starts.  \<^verbatim>\<open>edge_world\<close> says which database calls answer: reads, the status write, the history
  insert, the other column writes, and the outbox insert.
\<close>

section \<open>Data\<close>

record edge_order =
  eo_id :: order_id
  eo_uuid :: string
  eo_status :: status
  eo_process_node :: "int option"
  eo_quantity :: int
  eo_delivery_node :: string
  eo_waybill :: "string option"
  eo_eta :: "string option"
  eo_final_count :: "int option"
  eo_count_confirmed :: bool
  eo_auto_confirm :: bool
  eo_staged_expire :: "instant option"
  eo_bin :: "bin_id option"
  eo_queue_reason :: string
  eo_queue_code :: string
  eo_fault_since :: "instant option"
  eo_fault_deadline :: "instant option"
  eo_fault_notice_after :: int
  eo_fault_ref :: "TermRef option"

record edge_history =
  eh_order :: order_id
  eh_old :: status
  eh_new :: status
  eh_detail :: string

datatype NodeTaskState =
    NodeTaskSwapRequired | NodeTaskStagingRequested | NodeTaskEmptyRequested | NodeTaskReleaseRequested
  | NodeTaskStaged | NodeTaskLineCleared | NodeTaskReleased | NodeTaskSwitched | NodeTaskUnchanged
  | NodeTaskVerified | NodeTaskCancelled | NodeTaskError | NodeTaskAwaitingMaterial | NodeTaskAbandoned
  | NodeTaskCapacityBlocked | NodeTaskOther string

datatype ChangeoverState = ChangeoverActive | ChangeoverCompleted | ChangeoverCancelled | ChangeoverOther string

record NodeTask =
  nt_id :: int
  nt_situation :: string
  nt_state :: NodeTaskState
  nt_next_material :: "order_id option"
  nt_old_release :: "order_id option"
  nt_skip_note :: string
  nt_node_name :: string
  nt_changeover :: ChangeoverState

record deliveredSeed =
  ds_uop :: "int option"
  ds_epoch :: int
  ds_dest :: string

datatype edge_event =
    EdgeStatusChanged order_id status status string
  | EdgeDelivered order_id "int option" "bin_id option" "int option" int string string
  | EdgeDeliveredFallback bin_id "int option" int string
  | EdgeCompleted order_id
  | EdgeFailed order_id string

datatype edge_message =
    MsgOrderRelease string "int option" string
  | MsgOrderCancel string string
  | MsgOrderRedirect string string
  | MsgOrderReceipt string string int

record edge_state =
  es_orders :: "edge_order list"
  es_history :: "edge_history list"
  es_tasks :: "NodeTask list"
  es_events :: "edge_event list"
  es_outbox :: "edge_message list"
  es_seeds :: "(order_id \<times> deliveredSeed) list"

record edge_world =
  ew_get :: bool
  ew_status :: bool
  ew_history :: bool
  ew_side :: bool
  ew_queue :: bool

datatype edge_error =
    OrderNotFound
  | InvalidTransition status status
  | StoreFailed
  | EnqueueFailed
  | OrderTerminal status
  | NotDelivered status
  | UnknownReply string

fun NodeTaskState_IsTerminal :: "NodeTaskState \<Rightarrow> string \<Rightarrow> bool" where
  "NodeTaskState_IsTerminal NodeTaskSwitched _ = True"
| "NodeTaskState_IsTerminal NodeTaskVerified _ = True"
| "NodeTaskState_IsTerminal NodeTaskUnchanged _ = True"
| "NodeTaskState_IsTerminal NodeTaskReleased _ = True"
| "NodeTaskState_IsTerminal NodeTaskAbandoned _ = True"
| "NodeTaskState_IsTerminal NodeTaskLineCleared situation = (situation = ''drop'')"
| "NodeTaskState_IsTerminal NodeTaskCapacityBlocked situation = (situation = ''drop'')"
| "NodeTaskState_IsTerminal _ _ = False"

definition ChangeoverState_IsTerminal :: "ChangeoverState \<Rightarrow> bool" where
  "ChangeoverState_IsTerminal s = (s = ChangeoverCompleted \<or> s = ChangeoverCancelled)"

section \<open>The store\<close>

definition GetOrder :: "edge_world \<Rightarrow> edge_state \<Rightarrow> order_id \<Rightarrow> edge_order option" where
  "GetOrder w st i = (if ew_get w then select_row (\<lambda>r. eo_id r = i) (es_orders st) else None)"

definition GetOrderByUUID :: "edge_world \<Rightarrow> edge_state \<Rightarrow> string \<Rightarrow> edge_order option" where
  "GetOrderByUUID w st u = (if ew_get w then select_row (\<lambda>r. eo_uuid r = u) (es_orders st) else None)"

definition write_order :: "order_id \<Rightarrow> (edge_order \<Rightarrow> edge_order) \<Rightarrow> edge_state \<Rightarrow> edge_state" where
  "write_order i f st = st\<lparr>es_orders := update_rows (\<lambda>r. eo_id r = i) f (es_orders st)\<rparr>"

definition UpdateOrderStatus :: "order_id \<Rightarrow> status \<Rightarrow> edge_state \<Rightarrow> edge_state" where
  "UpdateOrderStatus i s = write_order i (\<lambda>r. r\<lparr>eo_status := s\<rparr>)"

definition UpdateOrderWaybill :: "order_id \<Rightarrow> string \<Rightarrow> string \<Rightarrow> edge_state \<Rightarrow> edge_state" where
  "UpdateOrderWaybill i waybill eta = write_order i (\<lambda>r. r\<lparr>eo_waybill := Some waybill, eo_eta := Some eta\<rparr>)"

definition UpdateOrderETA :: "order_id \<Rightarrow> string \<Rightarrow> edge_state \<Rightarrow> edge_state" where
  "UpdateOrderETA i eta = write_order i (\<lambda>r. r\<lparr>eo_eta := Some eta\<rparr>)"

definition UpdateOrderFinalCount :: "order_id \<Rightarrow> int \<Rightarrow> bool \<Rightarrow> edge_state \<Rightarrow> edge_state" where
  "UpdateOrderFinalCount i n c = write_order i (\<lambda>r. r\<lparr>eo_final_count := Some n, eo_count_confirmed := c\<rparr>)"

definition UpdateOrderDeliveryNode :: "order_id \<Rightarrow> string \<Rightarrow> edge_state \<Rightarrow> edge_state" where
  "UpdateOrderDeliveryNode i n = write_order i (\<lambda>r. r\<lparr>eo_delivery_node := n\<rparr>)"

definition UpdateOrderStagedExpireAt :: "order_id \<Rightarrow> instant option \<Rightarrow> edge_state \<Rightarrow> edge_state" where
  "UpdateOrderStagedExpireAt i t = write_order i (\<lambda>r. r\<lparr>eo_staged_expire := t\<rparr>)"

definition UpdateOrderBinID :: "order_id \<Rightarrow> bin_id option \<Rightarrow> edge_state \<Rightarrow> edge_state" where
  "UpdateOrderBinID i b = write_order i (\<lambda>r. r\<lparr>eo_bin := b\<rparr>)"

definition SetQueueReason :: "string \<Rightarrow> string \<Rightarrow> string \<Rightarrow> edge_state \<Rightarrow> edge_state" where
  "SetQueueReason u reason code st =
     st\<lparr>es_orders := update_rows (\<lambda>r. eo_uuid r = u) (\<lambda>r. r\<lparr>eo_queue_reason := reason, eo_queue_code := code\<rparr>) (es_orders st)\<rparr>"

definition SetFaultClock ::
  "string \<Rightarrow> instant option \<Rightarrow> instant option \<Rightarrow> int \<Rightarrow> TermRef option \<Rightarrow> edge_state \<Rightarrow> edge_state" where
  "SetFaultClock u since deadline notice ref st =
     st\<lparr>es_orders := update_rows
        (\<lambda>r. eo_uuid r = u \<and> (eo_fault_since r \<noteq> since \<or> eo_fault_deadline r \<noteq> deadline \<or>
               eo_fault_notice_after r \<noteq> notice \<or> eo_fault_ref r \<noteq> ref))
        (\<lambda>r. r\<lparr>eo_fault_since := since, eo_fault_deadline := deadline, eo_fault_notice_after := notice, eo_fault_ref := ref\<rparr>)
        (es_orders st)\<rparr>"

definition InsertOrderHistory :: "order_id \<Rightarrow> status \<Rightarrow> status \<Rightarrow> string \<Rightarrow> edge_state \<Rightarrow> edge_state" where
  "InsertOrderHistory i old new detail st =
     st\<lparr>es_history := es_history st @ [\<lparr>eh_order = i, eh_old = old, eh_new = new, eh_detail = detail\<rparr>]\<rparr>"

definition FindChangeoverNodeTaskByOrderID :: "edge_world \<Rightarrow> edge_state \<Rightarrow> order_id \<Rightarrow> NodeTask option" where
  "FindChangeoverNodeTaskByOrderID w st i =
     (if ew_get w then select_row (\<lambda>t. nt_next_material t = Some i \<or> nt_old_release t = Some i) (es_tasks st) else None)"

definition UpdateChangeoverNodeTaskState :: "int \<Rightarrow> NodeTaskState \<Rightarrow> edge_state \<Rightarrow> edge_state" where
  "UpdateChangeoverNodeTaskState i s st =
     st\<lparr>es_tasks := update_rows (\<lambda>t. nt_id t = i) (\<lambda>t. t\<lparr>nt_state := s\<rparr>) (es_tasks st)\<rparr>"

definition SetChangeoverNodeTaskSkipNote :: "int \<Rightarrow> string \<Rightarrow> edge_state \<Rightarrow> edge_state" where
  "SetChangeoverNodeTaskSkipNote i note' st =
     st\<lparr>es_tasks := update_rows (\<lambda>t. nt_id t = i) (\<lambda>t. t\<lparr>nt_skip_note := note'\<rparr>) (es_tasks st)\<rparr>"

definition emit :: "edge_event \<Rightarrow> edge_state \<Rightarrow> edge_state" where
  "emit e st = st\<lparr>es_events := es_events st @ [e]\<rparr>"

definition Queue_message :: "edge_message \<Rightarrow> edge_state \<Rightarrow> edge_state" where
  "Queue_message m st = st\<lparr>es_outbox := es_outbox st @ [m]\<rparr>"

section \<open>The lifecycle service\<close>

definition seed_of :: "edge_state \<Rightarrow> order_id \<Rightarrow> deliveredSeed" where
  "seed_of st i = (case map_of (es_seeds st) i of
     Some s \<Rightarrow> s | None \<Rightarrow> \<lparr>ds_uop = None, ds_epoch = 0, ds_dest = ''''\<rparr>)"

definition store_seed :: "order_id \<Rightarrow> deliveredSeed \<Rightarrow> edge_state \<Rightarrow> edge_state" where
  "store_seed i s st = st\<lparr>es_seeds := (i, s) # filter (\<lambda>p. fst p \<noteq> i) (es_seeds st)\<rparr>"

definition delete_seed :: "order_id \<Rightarrow> edge_state \<Rightarrow> edge_state" where
  "delete_seed i st = st\<lparr>es_seeds := filter (\<lambda>p. fst p \<noteq> i) (es_seeds st)\<rparr>"

definition emit_delivered :: "edge_order \<Rightarrow> bin_id option \<Rightarrow> edge_state \<Rightarrow> edge_state" where
  "emit_delivered ord bin st =
     (let s = seed_of st (eo_id ord) in
      emit (EdgeDelivered (eo_id ord) (eo_process_node ord) bin (ds_uop s) (ds_epoch s) (ds_dest s) (eo_delivery_node ord))
        (delete_seed (eo_id ord) st))"

definition emit_terminal :: "edge_order \<Rightarrow> status \<Rightarrow> string \<Rightarrow> edge_state \<Rightarrow> edge_state" where
  "emit_terminal ord new detail st =
     (let st1 = emit (EdgeCompleted (eo_id ord)) st
      in if new = StatusFailed then emit (EdgeFailed (eo_id ord) detail) st1 else st1)"

definition applyTransition ::
  "edge_world \<Rightarrow> edge_state \<Rightarrow> edge_order \<Rightarrow> status \<Rightarrow> string \<Rightarrow> edge_state \<times> edge_error option" where
  "applyTransition w st ord new detail =
     (if \<not> ew_status w then (st, Some StoreFailed)
      else
        let st1 = UpdateOrderStatus (eo_id ord) new st;
            st2 = (if ew_history w then InsertOrderHistory (eo_id ord) (eo_status ord) new detail st1 else st1);
            updated = GetOrder w st2 (eo_id ord);
            eta = (case updated of None \<Rightarrow> '''' | Some u \<Rightarrow> (case eo_eta u of None \<Rightarrow> '''' | Some e \<Rightarrow> e));
            st3 = emit (EdgeStatusChanged (eo_id ord) (eo_status ord) new eta) st2;
            st4 = (if new = StatusDelivered
                   then emit_delivered ord (case updated of None \<Rightarrow> None | Some u \<Rightarrow> eo_bin u) st3 else st3);
            st5 = (if IsTerminal new then emit_terminal ord new detail st4 else st4)
        in (st5, None))"

definition Transition ::
  "edge_world \<Rightarrow> edge_state \<Rightarrow> order_id \<Rightarrow> status \<Rightarrow> string \<Rightarrow> edge_state \<times> edge_error option" where
  "Transition w st i new detail =
     (case GetOrder w st i of
        None \<Rightarrow> (st, Some OrderNotFound)
      | Some ord \<Rightarrow>
          if \<not> IsValidTransition (eo_status ord) new then
            if eo_status ord = new \<or> IsTerminal (eo_status ord) then (st, None)
            else (st, Some (InvalidTransition (eo_status ord) new))
          else applyTransition w st ord new detail)"

definition ForceTransition ::
  "edge_world \<Rightarrow> edge_state \<Rightarrow> order_id \<Rightarrow> status \<Rightarrow> string \<Rightarrow> edge_state \<times> edge_error option" where
  "ForceTransition w st i new detail =
     (case GetOrder w st i of
        None \<Rightarrow> (st, Some OrderNotFound)
      | Some ord \<Rightarrow> if eo_status ord = new then (st, None) else applyTransition w st ord new detail)"

definition ApplyCoreStatus ::
  "edge_world \<Rightarrow> edge_state \<Rightarrow> edge_order \<Rightarrow> status \<Rightarrow> string \<Rightarrow> edge_state \<times> edge_error option" where
  "ApplyCoreStatus w st ord core detail =
     (if core \<in> {StatusDispatched, StatusInTransit, StatusFaulted, StatusQueued, StatusSourcing} then
        if IsTerminal (eo_status ord) then (st, None) else ForceTransition w st (eo_id ord) core detail
      else if core = StatusConfirmed then
        if IsTerminal (eo_status ord) then (st, None) else ForceTransition w st (eo_id ord) core detail
      else (st, None))"

definition HandleDelivered ::
  "edge_world \<Rightarrow> edge_state \<Rightarrow> edge_order \<Rightarrow> string \<Rightarrow> instant option \<Rightarrow> bin_id option \<Rightarrow> int option \<Rightarrow> int \<Rightarrow> string \<Rightarrow>
     edge_state \<times> edge_error option" where
  "HandleDelivered w st ord detail expire bin uop epoch dest =
     (let st1 = (if expire \<noteq> None \<and> ew_side w then UpdateOrderStagedExpireAt (eo_id ord) expire st else st);
          st2 = (if bin \<noteq> None \<and> ew_side w then UpdateOrderBinID (eo_id ord) bin st1 else st1);
          st3 = store_seed (eo_id ord) \<lparr>ds_uop = uop, ds_epoch = epoch, ds_dest = dest\<rparr> st2;
          (st4, e) = Transition w st3 (eo_id ord) StatusDelivered detail
      in (delete_seed (eo_id ord) st4, e))"

definition encodeFaultRef :: "TermRef option \<Rightarrow> TermRef option" where
  "encodeFaultRef ref = (case ref of None \<Rightarrow> None | Some r \<Rightarrow> if TermRef_Empty r then None else Some r)"

record OrderStatusSnapshot =
  sn_uuid :: string
  sn_found :: bool
  sn_status :: status
  sn_queue_reason :: string
  sn_queue_code :: string
  sn_fault_since :: "instant option"
  sn_fault_deadline :: "instant option"
  sn_fault_notice_after :: int
  sn_fault_ref :: "TermRef option"

definition snapshot_fault_clock :: "edge_world \<Rightarrow> edge_state \<Rightarrow> edge_order \<Rightarrow> OrderStatusSnapshot \<Rightarrow> edge_state" where
  "snapshot_fault_clock w st ord sn =
     (if \<not> sn_found sn \<or> \<not> ew_side w then st
      else if sn_status sn = StatusFaulted then
        SetFaultClock (eo_uuid ord) (sn_fault_since sn) (sn_fault_deadline sn) (sn_fault_notice_after sn)
          (encodeFaultRef (sn_fault_ref sn)) st
      else if eo_fault_since ord \<noteq> None then SetFaultClock (eo_uuid ord) None None 0 None st
      else st)"

definition ApplyCoreStatusSnapshot ::
  "edge_world \<Rightarrow> edge_state \<Rightarrow> OrderStatusSnapshot \<Rightarrow> edge_state \<times> edge_error option" where
  "ApplyCoreStatusSnapshot w st sn =
     (case GetOrderByUUID w st (sn_uuid sn) of
        None \<Rightarrow> (st, Some OrderNotFound)
      | Some ord \<Rightarrow>
          let st1 = snapshot_fault_clock w st ord sn in
          if \<not> sn_found sn \<or> sn_status sn = StatusOther '''' \<or> sn_status sn = eo_status ord then (st1, None)
          else
            let st2 = (if (sn_queue_reason sn \<noteq> '''' \<or> eo_queue_reason ord \<noteq> '''') \<and> ew_side w
                       then SetQueueReason (eo_uuid ord) (sn_queue_reason sn) (sn_queue_code sn) st1 else st1);
                detail = ''startup reconciliation with core''
            in if sn_status sn = StatusConfirmed \<and> eo_status ord = StatusDelivered then
                 Transition w st2 (eo_id ord) StatusConfirmed detail
               else if sn_status sn \<in> {StatusConfirmed, StatusCancelled, StatusFailed, StatusSkipped, StatusDelivered,
                      StatusStaged, StatusInTransit, StatusAcknowledged, StatusQueued, StatusSourcing, StatusDispatched,
                      StatusFaulted, StatusReshuffling} then
                 ForceTransition w st2 (eo_id ord) (sn_status sn) detail
               else (st2, None))"

section \<open>The manager: Core's replies\<close>

definition TransitionOrder ::
  "edge_world \<Rightarrow> edge_state \<Rightarrow> order_id \<Rightarrow> status \<Rightarrow> string \<Rightarrow> edge_state \<times> edge_error option" where
  "TransitionOrder w st i new detail = Transition w st i new detail"

definition expectedMirrorJumps :: "status \<Rightarrow> status \<Rightarrow> string option" where
  "expectedMirrorJumps src dst =
     (if src = StatusPending \<and> dst = StatusAcknowledged then
        Some ''the step between is pending->queued, a pure transition with no actionMap entry: `queued` is Core's internal scheduling state, and the Edge is told the outcome rather than the scheduling''
      else if src = StatusSourcing \<and> dst = StatusInTransit then
        Some ''the step between is sourcing->dispatched, a pure transition with no actionMap entry: dispatch is Core handing the job to the fleet, and the Edge's board cares that the robot is moving''
      else None)"

definition jump_detail :: "status \<Rightarrow> status \<Rightarrow> string \<Rightarrow> string" where
  "jump_detail src dst detail =
     (case expectedMirrorJumps src dst of
        Some why \<Rightarrow> ''mirror caught up '' @ status_string src @ ''->'' @ status_string dst @ '' (expected: '' @ why @ ''). '' @ detail
      | None \<Rightarrow> ''MIRROR JUMP '' @ status_string src @ ''->'' @ status_string dst @
          '': a notification was skipped; Core is already at '' @ status_string dst @ ''. '' @ detail)"

definition mirrorTransition ::
  "edge_world \<Rightarrow> edge_state \<Rightarrow> order_id \<Rightarrow> status \<Rightarrow> string \<Rightarrow> edge_state \<times> edge_error option" where
  "mirrorTransition w st i target detail =
     (case TransitionOrder w st i target detail of
        (st1, Some (InvalidTransition a b)) \<Rightarrow>
          (case GetOrder w st1 i of
             None \<Rightarrow> (st1, Some (InvalidTransition a b))
           | Some ord \<Rightarrow>
               if \<not> IsForwardJump (eo_status ord) target then (st1, Some (InvalidTransition a b))
               else ForceTransition w st1 i target (jump_detail (eo_status ord) target detail))
      | (st1, e) \<Rightarrow> (st1, e))"

definition ConfirmDelivery ::
  "edge_world \<Rightarrow> edge_state \<Rightarrow> order_id \<Rightarrow> int \<Rightarrow> edge_state \<times> edge_error option" where
  "ConfirmDelivery w st i n =
     (case GetOrder w st i of
        None \<Rightarrow> (st, Some OrderNotFound)
      | Some ord \<Rightarrow>
          if eo_status ord \<noteq> StatusDelivered then (st, Some (NotDelivered (eo_status ord)))
          else if \<not> ew_side w then (st, Some StoreFailed)
          else
            let st1 = UpdateOrderFinalCount i n True st in
            if \<not> ew_queue w then (st1, Some EnqueueFailed)
            else TransitionOrder w (Queue_message (MsgOrderReceipt (eo_uuid ord) ''confirmed'' n) st1) i StatusConfirmed
                   (''confirmed with count '' @ format_int n))"

definition handleDelivered ::
  "edge_world \<Rightarrow> edge_state \<Rightarrow> edge_order \<Rightarrow> string \<Rightarrow> instant option \<Rightarrow> bin_id option \<Rightarrow> int option \<Rightarrow> int \<Rightarrow> string \<Rightarrow>
     edge_state \<times> edge_error option" where
  "handleDelivered w st ord detail expire bin uop epoch dest =
     (case HandleDelivered w st ord detail expire bin uop epoch dest of
        (st1, Some e) \<Rightarrow> (st1, Some e)
      | (st1, None) \<Rightarrow> if eo_auto_confirm ord then ConfirmDelivery w st1 (eo_id ord) (eo_quantity ord) else (st1, None))"

definition HandleDeliveredWithExpiry ::
  "edge_world \<Rightarrow> edge_state \<Rightarrow> string \<Rightarrow> string \<Rightarrow> instant option \<Rightarrow> bin_id option \<Rightarrow> int option \<Rightarrow> int \<Rightarrow> string \<Rightarrow> string \<Rightarrow>
     edge_state \<times> edge_error option" where
  "HandleDeliveredWithExpiry w st u detail expire bin uop epoch deliveryNode dest =
     (case GetOrderByUUID w st u of
        None \<Rightarrow> (case bin of
            Some b \<Rightarrow> if deliveryNode \<noteq> '''' then (emit (EdgeDeliveredFallback b uop epoch deliveryNode) st, Some OrderNotFound)
                      else (st, Some OrderNotFound)
          | None \<Rightarrow> (st, Some OrderNotFound))
      | Some ord \<Rightarrow> handleDelivered w st ord detail expire bin uop epoch dest)"

datatype ReplyType =
    ReplyAck | ReplyWaybill | ReplyUpdate | ReplyDelivered | ReplyError | ReplySkipped | ReplyStaged
  | ReplyCancelled | ReplyQueued | ReplyOther string

definition HandleDispatchReply ::
  "edge_world \<Rightarrow> edge_state \<Rightarrow> string \<Rightarrow> ReplyType \<Rightarrow> string \<Rightarrow> string \<Rightarrow> string \<Rightarrow> edge_state \<times> edge_error option" where
  "HandleDispatchReply w st u reply waybill eta detail =
     (case GetOrderByUUID w st u of
        None \<Rightarrow> (st, Some OrderNotFound)
      | Some ord \<Rightarrow>
         (case reply of
            ReplyAck \<Rightarrow> mirrorTransition w st (eo_id ord) StatusAcknowledged detail
          | ReplyWaybill \<Rightarrow>
              if \<not> ew_side w then (st, Some StoreFailed)
              else mirrorTransition w (UpdateOrderWaybill (eo_id ord) waybill eta st) (eo_id ord) StatusInTransit
                     (''waybill '' @ waybill @ '', ETA '' @ eta)
          | ReplyQueued \<Rightarrow> mirrorTransition w st (eo_id ord) StatusQueued detail
          | ReplyUpdate \<Rightarrow>
              if eta = '''' then (st, None)
              else if \<not> ew_side w then (st, Some StoreFailed)
              else (UpdateOrderETA (eo_id ord) eta st, None)
          | ReplyDelivered \<Rightarrow> handleDelivered w st ord detail None None None 0 ''''
          | ReplyError \<Rightarrow> TransitionOrder w st (eo_id ord) StatusFailed detail
          | ReplySkipped \<Rightarrow> TransitionOrder w st (eo_id ord) StatusSkipped detail
          | ReplyStaged \<Rightarrow> mirrorTransition w st (eo_id ord) StatusStaged detail
          | ReplyCancelled \<Rightarrow> mirrorTransition w st (eo_id ord) StatusCancelled detail
          | ReplyOther t \<Rightarrow> (st, Some (UnknownReply t))))"

definition HandleCoreStatusPush ::
  "edge_world \<Rightarrow> edge_state \<Rightarrow> string \<Rightarrow> status \<Rightarrow> string \<Rightarrow> edge_state \<times> edge_error option" where
  "HandleCoreStatusPush w st u core detail =
     (case GetOrderByUUID w st u of
        None \<Rightarrow> (st, Some OrderNotFound)
      | Some ord \<Rightarrow> ApplyCoreStatus w st ord core detail)"

definition skippedTerminalState :: "NodeTask \<Rightarrow> order_id \<Rightarrow> NodeTaskState" where
  "skippedTerminalState t i = (if nt_old_release t = Some i then NodeTaskLineCleared else NodeTaskReleased)"

definition formatSkipNote :: "NodeTask \<Rightarrow> string \<Rightarrow> string \<Rightarrow> string" where
  "formatSkipNote t errorCode detail =
     (let leg = (if nt_old_release t \<noteq> None then ''evac'' else if nt_next_material t \<noteq> None then ''supply'' else ''order'')
      in if errorCode = ''no_source_bin'' then leg @ '' skipped: bin missing at '' @ nt_node_name t
         else leg @ '' skipped: '' @ detail)"

definition HandleSkipped ::
  "edge_world \<Rightarrow> edge_state \<Rightarrow> string \<Rightarrow> string \<Rightarrow> string \<Rightarrow> edge_state \<times> edge_error option" where
  "HandleSkipped w st u errorCode detail =
     (case GetOrderByUUID w st u of
        None \<Rightarrow> (st, Some OrderNotFound)
      | Some ord \<Rightarrow>
         (case ForceTransition w st (eo_id ord) StatusSkipped detail of
            (st1, Some e) \<Rightarrow> (st1, Some e)
          | (st1, None) \<Rightarrow>
             (case FindChangeoverNodeTaskByOrderID w st1 (eo_id ord) of
                None \<Rightarrow> (st1, None)
              | Some t \<Rightarrow>
                  let st2 = (if ew_side w then UpdateChangeoverNodeTaskState (nt_id t) (skippedTerminalState t (eo_id ord)) st1 else st1);
                      st3 = (if ew_side w then SetChangeoverNodeTaskSkipNote (nt_id t) (formatSkipNote t errorCode detail) st2 else st2)
                  in (st3, None))))"

section \<open>The manager: operator actions\<close>

definition ReleaseOrderWithDisposition ::
  "edge_world \<Rightarrow> edge_state \<Rightarrow> order_id \<Rightarrow> int option \<Rightarrow> string \<Rightarrow> edge_state \<times> edge_error option" where
  "ReleaseOrderWithDisposition w st i uop calledBy =
     (case GetOrder w st i of
        None \<Rightarrow> (st, Some OrderNotFound)
      | Some ord \<Rightarrow>
          if IsTerminal (eo_status ord) then (st, Some (OrderTerminal (eo_status ord)))
          else if eo_status ord = StatusPending \<or> eo_status ord = StatusSubmitted then (st, None)
          else if \<not> ew_queue w then (st, Some EnqueueFailed)
          else TransitionOrder w (Queue_message (MsgOrderRelease (eo_uuid ord) uop calledBy) st) i StatusInTransit
                 ''released from staging'')"

definition stampAwaitingMaterial :: "edge_world \<Rightarrow> edge_state \<Rightarrow> string \<Rightarrow> edge_state" where
  "stampAwaitingMaterial w st u =
     (case GetOrderByUUID w st u of
        None \<Rightarrow> st
      | Some ord \<Rightarrow>
         (case FindChangeoverNodeTaskByOrderID w st (eo_id ord) of
            None \<Rightarrow> st
          | Some t \<Rightarrow>
              if nt_next_material t \<noteq> Some (eo_id ord) then st
              else if ChangeoverState_IsTerminal (nt_changeover t) then st
              else if nt_state t = NodeTaskAwaitingMaterial \<or> NodeTaskState_IsTerminal (nt_state t) (nt_situation t) then st
              else if \<not> ew_side w then st
              else UpdateChangeoverNodeTaskState (nt_id t) NodeTaskAwaitingMaterial st))"

definition SetOrderQueueReason ::
  "edge_world \<Rightarrow> edge_state \<Rightarrow> string \<Rightarrow> string \<Rightarrow> string \<Rightarrow> edge_state \<times> edge_error option" where
  "SetOrderQueueReason w st u reason code =
     (if \<not> ew_side w then (st, Some StoreFailed)
      else let st1 = SetQueueReason u reason code st
           in (if code = ''waiting_for_material'' then stampAwaitingMaterial w st1 u else st1, None))"

definition SetOrderFaultClock ::
  "edge_world \<Rightarrow> edge_state \<Rightarrow> string \<Rightarrow> instant option \<Rightarrow> instant option \<Rightarrow> int \<Rightarrow> TermRef option \<Rightarrow> edge_state \<times> edge_error option" where
  "SetOrderFaultClock w st u since deadline notice ref =
     (if ew_side w then (SetFaultClock u since deadline notice ref st, None) else (st, Some StoreFailed))"

definition SetOrderETA :: "edge_world \<Rightarrow> edge_state \<Rightarrow> string \<Rightarrow> string \<Rightarrow> edge_state \<times> edge_error option" where
  "SetOrderETA w st u eta =
     (case GetOrderByUUID w st u of
        None \<Rightarrow> (st, Some OrderNotFound)
      | Some ord \<Rightarrow> if ew_side w then (UpdateOrderETA (eo_id ord) eta st, None) else (st, Some StoreFailed))"

definition AbortOrderWithReason ::
  "edge_world \<Rightarrow> edge_state \<Rightarrow> order_id \<Rightarrow> string \<Rightarrow> edge_state \<times> edge_error option" where
  "AbortOrderWithReason w st i reason =
     (case GetOrder w st i of
        None \<Rightarrow> (st, Some OrderNotFound)
      | Some ord \<Rightarrow>
          if IsTerminal (eo_status ord) then (st, Some (OrderTerminal (eo_status ord)))
          else if \<not> ew_queue w then (st, Some EnqueueFailed)
          else TransitionOrder w (Queue_message (MsgOrderCancel (eo_uuid ord) reason) st) i StatusCancelled reason)"

definition AbortOrder :: "edge_world \<Rightarrow> edge_state \<Rightarrow> order_id \<Rightarrow> edge_state \<times> edge_error option" where
  "AbortOrder w st i = AbortOrderWithReason w st i ''aborted by operator''"

definition RedirectOrder ::
  "edge_world \<Rightarrow> edge_state \<Rightarrow> order_id \<Rightarrow> string \<Rightarrow> edge_state \<times> (edge_error + edge_order)" where
  "RedirectOrder w st i dest =
     (case GetOrder w st i of
        None \<Rightarrow> (st, Inl OrderNotFound)
      | Some ord \<Rightarrow>
          if IsTerminal (eo_status ord) then (st, Inl (OrderTerminal (eo_status ord)))
          else if \<not> ew_queue w then (st, Inl EnqueueFailed)
          else
            let st1 = Queue_message (MsgOrderRedirect (eo_uuid ord) dest) st in
            if \<not> ew_side w then (st1, Inl StoreFailed)
            else let st2 = UpdateOrderDeliveryNode i dest st1 in
              (st2, case GetOrder w st2 i of None \<Rightarrow> Inl OrderNotFound | Some o' \<Rightarrow> Inr o'))"

definition SubmitOrder :: "edge_world \<Rightarrow> edge_state \<Rightarrow> order_id \<Rightarrow> edge_state \<times> edge_error option" where
  "SubmitOrder w st i =
     (case GetOrder w st i of
        None \<Rightarrow> (st, Some OrderNotFound)
      | Some _ \<Rightarrow> TransitionOrder w st i StatusSubmitted ''submitted to dispatch'')"

definition RollbackForRetry :: "edge_world \<Rightarrow> edge_state \<Rightarrow> string \<Rightarrow> string \<Rightarrow> edge_state \<times> edge_error option" where
  "RollbackForRetry w st u detail =
     (case GetOrderByUUID w st u of
        None \<Rightarrow> (st, Some OrderNotFound)
      | Some ord \<Rightarrow> ForceTransition w st (eo_id ord) StatusStaged detail)"

definition RollbackReleaseRejection :: "edge_world \<Rightarrow> edge_state \<Rightarrow> string \<Rightarrow> string \<Rightarrow> edge_state \<times> edge_error option" where
  "RollbackReleaseRejection w st u detail =
     (case GetOrderByUUID w st u of
        None \<Rightarrow> (st, Some OrderNotFound)
      | Some ord \<Rightarrow>
          if eo_status ord \<noteq> StatusInTransit then (st, None)
          else ForceTransition w st (eo_id ord) StatusStaged detail)"

definition ReleasableAtCore :: "status \<Rightarrow> bool" where
  "ReleasableAtCore s = (s = StatusStaged \<or> s = StatusInTransit)"

text \<open>The parsed plan: one pair of action and wait kind per step; \<^verbatim>\<open>None\<close> for a plan that is
  absent or is not valid JSON.\<close>

fun owns_wait :: "(string \<times> string) list \<Rightarrow> int \<Rightarrow> int \<Rightarrow> bool" where
  "owns_wait [] seen waitIndex = False"
| "owns_wait ((action', waitKind) # steps) seen waitIndex =
     (if action' \<noteq> ''wait'' then owns_wait steps seen waitIndex
      else if seen = waitIndex then waitKind = ''station'' \<or> waitKind = ''''
      else owns_wait steps (seen + 1) waitIndex)"

definition StationOwnsWait :: "(string \<times> string) list option \<Rightarrow> int \<Rightarrow> bool" where
  "StationOwnsWait steps waitIndex = (case steps of None \<Rightarrow> False | Some ss \<Rightarrow> owns_wait ss 0 waitIndex)"

section \<open>The message handlers\<close>

record OrderUpdate =
  ou_uuid :: string
  ou_status :: status
  ou_detail :: string
  ou_eta :: string
  ou_queue_reason :: string
  ou_queue_code :: string
  ou_fault_since :: "instant option"
  ou_fault_deadline :: "instant option"
  ou_fault_notice_after :: int
  ou_fault_ref :: "TermRef option"

definition HandleOrderUpdate :: "edge_world \<Rightarrow> edge_state \<Rightarrow> OrderUpdate \<Rightarrow> edge_state" where
  "HandleOrderUpdate w st p =
     (let u = ou_uuid p;
          st1 = (if ou_eta p \<noteq> '''' then fst (SetOrderETA w st u (ou_eta p)) else st);
          st2 = fst (HandleCoreStatusPush w st1 u (ou_status p) (ou_detail p));
          st3 = (if IsAcquiring (ou_status p) then
                   if ou_queue_reason p \<noteq> '''' then fst (SetOrderQueueReason w st2 u (ou_queue_reason p) (ou_queue_code p)) else st2
                 else fst (SetOrderQueueReason w st2 u '''' ''''))
      in if ou_status p = StatusFaulted then
           fst (SetOrderFaultClock w st3 u (ou_fault_since p) (ou_fault_deadline p) (ou_fault_notice_after p) (encodeFaultRef (ou_fault_ref p)))
         else fst (SetOrderFaultClock w st3 u None None 0 None))"

definition HandleOrderAck :: "edge_world \<Rightarrow> edge_state \<Rightarrow> string \<Rightarrow> string \<Rightarrow> edge_state" where
  "HandleOrderAck w st u sourceNode = fst (HandleDispatchReply w st u ReplyAck '''' '''' sourceNode)"

definition HandleOrderWaybill :: "edge_world \<Rightarrow> edge_state \<Rightarrow> string \<Rightarrow> string \<Rightarrow> string \<Rightarrow> edge_state" where
  "HandleOrderWaybill w st u waybill eta = fst (HandleDispatchReply w st u ReplyWaybill waybill eta '''')"

definition HandleOrderDelivered ::
  "edge_world \<Rightarrow> edge_state \<Rightarrow> string \<Rightarrow> string \<Rightarrow> instant option \<Rightarrow> bin_id option \<Rightarrow> int option \<Rightarrow> int \<Rightarrow> string \<Rightarrow> string \<Rightarrow> edge_state" where
  "HandleOrderDelivered w st u at expire bin uop epoch deliveryNode dest =
     fst (HandleDeliveredWithExpiry w st u at expire bin uop epoch deliveryNode dest)"

definition HandleOrderError :: "edge_world \<Rightarrow> edge_state \<Rightarrow> string \<Rightarrow> string \<Rightarrow> string \<Rightarrow> edge_state" where
  "HandleOrderError w st u errorCode detail =
     (if errorCode = ''manifest_sync_failed'' then
        fst (RollbackForRetry w st u (''Manifest sync failed at Core: '' @ detail @ ''. Click release to retry.''))
      else if errorCode = ''invalid_state'' then
        fst (RollbackReleaseRejection w st u (''Core rejected the release: '' @ detail @ ''. Click release to retry.''))
      else fst (HandleDispatchReply w st u ReplyError '''' '''' detail))"

definition HandleOrderSkipped :: "edge_world \<Rightarrow> edge_state \<Rightarrow> string \<Rightarrow> string \<Rightarrow> string \<Rightarrow> edge_state" where
  "HandleOrderSkipped w st u errorCode detail = fst (HandleSkipped w st u errorCode detail)"

definition HandleOrderCancelled :: "edge_world \<Rightarrow> edge_state \<Rightarrow> string \<Rightarrow> string \<Rightarrow> edge_state" where
  "HandleOrderCancelled w st u reason = fst (HandleDispatchReply w st u ReplyCancelled '''' '''' reason)"

definition HandleOrderStaged :: "edge_world \<Rightarrow> edge_state \<Rightarrow> string \<Rightarrow> string \<Rightarrow> edge_state" where
  "HandleOrderStaged w st u detail = fst (HandleDispatchReply w st u ReplyStaged '''' '''' detail)"

section \<open>Elementary writes\<close>

text \<open>
  Every handler is a sequence of two kinds of write: one that leaves the identity and the status of
  all rows and the history alone, and one status write by \<^verbatim>\<open>applyTransition\<close>.  \<^verbatim>\<open>G\<close> is what is
  known of the row at each status write.
\<close>

definition status_key :: "edge_order \<Rightarrow> order_id \<times> string \<times> status" where
  "status_key r = (eo_id r, eo_uuid r, eo_status r)"

definition status_view :: "edge_state \<Rightarrow> (order_id \<times> string \<times> status) list" where
  "status_view st = map status_key (es_orders st)"

definition same_view :: "edge_state \<Rightarrow> edge_state \<Rightarrow> bool" where
  "same_view st st' \<longleftrightarrow> status_view st' = status_view st \<and> es_history st' = es_history st"

definition edge_ok :: "edge_state \<Rightarrow> bool" where
  "edge_ok st \<longleftrightarrow> distinct (map eo_id (es_orders st)) \<and> distinct (map eo_uuid (es_orders st))"

inductive mirror_step :: "(edge_world \<Rightarrow> edge_order \<Rightarrow> bool) \<Rightarrow> edge_state \<Rightarrow> edge_state \<Rightarrow> bool" for G where
  ms_side: "same_view st st' \<Longrightarrow> mirror_step G st st'"
| ms_apply: "ord \<in> set (es_orders st) \<Longrightarrow> eo_status ord \<noteq> new \<Longrightarrow> G w ord \<Longrightarrow>
    applyTransition w st ord new detail = (st', None) \<Longrightarrow> mirror_step G st st'"

abbreviation mirror_steps :: "(edge_world \<Rightarrow> edge_order \<Rightarrow> bool) \<Rightarrow> edge_state \<Rightarrow> edge_state \<Rightarrow> bool" where
  "mirror_steps G \<equiv> (mirror_step G)\<^sup>*\<^sup>*"

lemma same_view_refl [simp, intro]: "same_view st st"
  by (simp add: same_view_def)

lemma same_view_trans [trans]: "same_view a b \<Longrightarrow> same_view b c \<Longrightarrow> same_view a c"
  by (simp add: same_view_def)

lemma write_order_view:
  "(\<And>r. status_key (f r) = status_key r) \<Longrightarrow> same_view st (write_order i f st)"
  by (auto simp: same_view_def status_view_def write_order_def update_rows_def)

lemma side_writes [simp]:
  "same_view st (UpdateOrderWaybill i wb eta st)" "same_view st (UpdateOrderETA i eta st)"
  "same_view st (UpdateOrderFinalCount i n c st)" "same_view st (UpdateOrderDeliveryNode i d st)"
  "same_view st (UpdateOrderStagedExpireAt i t st)" "same_view st (UpdateOrderBinID i b st)"
  unfolding UpdateOrderWaybill_def UpdateOrderETA_def UpdateOrderFinalCount_def UpdateOrderDeliveryNode_def
    UpdateOrderStagedExpireAt_def UpdateOrderBinID_def
  by (rule write_order_view, simp add: status_key_def)+

lemma side_columns [simp]:
  "same_view st (SetQueueReason u reason code st)" "same_view st (SetFaultClock u a b n ref st)"
  by (auto simp: same_view_def status_view_def SetQueueReason_def SetFaultClock_def update_rows_def status_key_def)

lemma side_other [simp]:
  "same_view st (UpdateChangeoverNodeTaskState t s st)" "same_view st (SetChangeoverNodeTaskSkipNote t n st)"
  "same_view st (emit e st)" "same_view st (Queue_message m st)" "same_view st (store_seed i sd st)"
  "same_view st (delete_seed i st)"
  by (simp_all add: same_view_def status_view_def UpdateChangeoverNodeTaskState_def SetChangeoverNodeTaskSkipNote_def
      emit_def Queue_message_def store_seed_def delete_seed_def)

lemma stampAwaitingMaterial_view: "same_view st (stampAwaitingMaterial w st u)"
  by (simp add: stampAwaitingMaterial_def split: option.split)

lemma steps_side: "same_view st st' \<Longrightarrow> mirror_steps G st st'"
  by (blast intro: ms_side)

lemma applyTransition_effect:
  assumes "applyTransition w st ord new detail = (st', None)"
  shows "es_orders st' = update_rows (\<lambda>r. eo_id r = eo_id ord) (\<lambda>r. r\<lparr>eo_status := new\<rparr>) (es_orders st)"
    and "es_history st' = es_history st @
      (if ew_history w then [\<lparr>eh_order = eo_id ord, eh_old = eo_status ord, eh_new = new, eh_detail = detail\<rparr>] else [])"
  using assms
  by (auto simp: applyTransition_def Let_def UpdateOrderStatus_def write_order_def InsertOrderHistory_def emit_def
      emit_delivered_def emit_terminal_def delete_seed_def split: if_splits)

lemma applyTransition_error:
  "applyTransition w st ord new detail = (st', Some e) \<Longrightarrow> st' = st \<and> e = StoreFailed \<and> \<not> ew_status w"
  by (auto simp: applyTransition_def Let_def split: if_splits)

lemma GetOrder_Some: "GetOrder w st i = Some ord \<Longrightarrow> ord \<in> set (es_orders st) \<and> eo_id ord = i"
  by (auto simp: GetOrder_def dest: select_row_Some split: if_splits)

lemma GetOrderByUUID_Some: "GetOrderByUUID w st u = Some ord \<Longrightarrow> ord \<in> set (es_orders st) \<and> eo_uuid ord = u \<and> ew_get w"
  by (auto simp: GetOrderByUUID_def dest: select_row_Some split: if_splits)

lemma edge_ok_view: "edge_ok st \<longleftrightarrow> distinct (map fst (status_view st)) \<and> distinct (map (fst \<circ> snd) (status_view st))"
  by (simp add: edge_ok_def status_view_def status_key_def o_def)

lemma edge_ok_same_view: "same_view st st' \<Longrightarrow> edge_ok st' = edge_ok st"
  by (simp add: edge_ok_view same_view_def)

lemma edge_row_unique:
  "edge_ok st \<Longrightarrow> r \<in> set (es_orders st) \<Longrightarrow> r' \<in> set (es_orders st) \<Longrightarrow> eo_id r = eo_id r' \<Longrightarrow> r = r'"
  by (auto simp: edge_ok_def distinct_map dest: inj_onD)

lemma GetOrder_row:
  "edge_ok st \<Longrightarrow> ord \<in> set (es_orders st) \<Longrightarrow> ew_get w \<Longrightarrow> GetOrder w st (eo_id ord) = Some ord"
  by (cases "GetOrder w st (eo_id ord)")
    (auto simp: GetOrder_def select_row_None dest: select_row_Some edge_row_unique)

lemma update_rows_keys:
  "(\<And>r. k (f r) = k r) \<Longrightarrow> map k (update_rows P f rs) = map k rs"
  by (auto simp: update_rows_def)

lemma edge_ok_step: "mirror_step G st st' \<Longrightarrow> edge_ok st \<Longrightarrow> edge_ok st'"
proof (induction rule: mirror_step.induct)
  case (ms_apply ord st new w detail st')
  then show ?case
    unfolding edge_ok_def applyTransition_effect(1) [OF ms_apply(4)] by (simp add: update_rows_keys)
qed (simp add: edge_ok_same_view)

lemma edge_ok_steps: "mirror_steps G st st' \<Longrightarrow> edge_ok st \<Longrightarrow> edge_ok st'"
  by (induction rule: rtranclp_induct) (auto intro: edge_ok_step)

section \<open>The handlers as sequences of writes\<close>

definition live_guard :: "(edge_world \<Rightarrow> edge_order \<Rightarrow> bool) \<Rightarrow> edge_world \<Rightarrow> bool" where
  "live_guard G w \<longleftrightarrow> (\<forall>r. \<not> IsTerminal (eo_status r) \<longrightarrow> G w r)"

lemma applyTransition_steps:
  "ord \<in> set (es_orders st) \<Longrightarrow> eo_status ord \<noteq> new \<Longrightarrow> G w ord \<Longrightarrow> mirror_steps G st (fst (applyTransition w st ord new detail))"
proof (cases "applyTransition w st ord new detail")
  case (Pair st' e)
  assume "ord \<in> set (es_orders st)" "eo_status ord \<noteq> new" "G w ord"
  then show ?thesis
    using Pair applyTransition_error [of w st ord new detail st'] by (cases e) (auto intro: ms_apply)
qed

lemma ForceTransition_steps:
  "(\<And>r. r \<in> set (es_orders st) \<Longrightarrow> eo_id r = i \<Longrightarrow> G w r) \<Longrightarrow> mirror_steps G st (fst (ForceTransition w st i new detail))"
  by (auto simp: ForceTransition_def dest: GetOrder_Some split: option.split intro: applyTransition_steps)

lemma IsValidTransition_live: "IsValidTransition s t \<Longrightarrow> \<not> IsTerminal s \<and> s \<noteq> t"
  by (cases s) (auto simp: IsValidTransition_def)

lemma Transition_steps: "live_guard G w \<Longrightarrow> mirror_steps G st (fst (Transition w st i new detail))"
  by (auto simp: Transition_def live_guard_def dest: GetOrder_Some IsValidTransition_live split: option.split
      intro: applyTransition_steps)

lemma Transition_invalid:
  "Transition w st i new detail = (st', Some (InvalidTransition a b)) \<Longrightarrow>
     st' = st \<and> (\<exists>ord. GetOrder w st i = Some ord \<and> \<not> IsTerminal (eo_status ord))"
  by (auto simp: Transition_def dest: applyTransition_error split: option.splits if_splits)

lemma mirrorTransition_steps:
  assumes "live_guard G w"
  shows "mirror_steps G st (fst (mirrorTransition w st i target detail))"
proof -
  have "mirror_steps G st (fst (ForceTransition w st i target d))"
    if "GetOrder w st i = Some ord" "\<not> IsTerminal (eo_status ord)" for ord d
    using that assms by (auto simp: ForceTransition_def live_guard_def dest: GetOrder_Some intro!: applyTransition_steps)
  moreover have "mirror_steps G st st1" if "Transition w st i target detail = (st1, e)" for st1 e
    using Transition_steps [OF assms, of st i target detail] that by simp
  ultimately show ?thesis
    by (auto simp: mirrorTransition_def TransitionOrder_def dest!: Transition_invalid
        split: prod.split option.split edge_error.split)
qed

lemma steps_side_then: "same_view st st1 \<Longrightarrow> mirror_steps G st1 st2 \<Longrightarrow> mirror_steps G st st2"
  by (meson converse_rtranclp_into_rtranclp ms_side)

lemma steps_then_side: "mirror_steps G st st1 \<Longrightarrow> same_view st1 st2 \<Longrightarrow> mirror_steps G st st2"
  by (meson rtranclp.rtrancl_into_rtrancl ms_side)

lemma same_view_if: "same_view s (g s) \<Longrightarrow> same_view s (if c then g s else s)"
  by simp

lemma HandleDelivered_steps:
  assumes "live_guard G w"
  shows "mirror_steps G st (fst (HandleDelivered w st ord detail expire bin uop epoch dest))"
proof -
  let ?st1 = "if expire \<noteq> None \<and> ew_side w then UpdateOrderStagedExpireAt (eo_id ord) expire st else st"
  let ?st2 = "if bin \<noteq> None \<and> ew_side w then UpdateOrderBinID (eo_id ord) bin ?st1 else ?st1"
  let ?st3 = "store_seed (eo_id ord) \<lparr>ds_uop = uop, ds_epoch = epoch, ds_dest = dest\<rparr> ?st2"
  have "same_view st ?st1" by simp
  also have "same_view ?st1 ?st2" by (rule same_view_if) (rule side_writes)
  also have "same_view ?st2 ?st3" by (rule side_other)
  finally have side: "same_view st ?st3" .
  have "mirror_steps G ?st3 (fst (Transition w ?st3 (eo_id ord) StatusDelivered detail))"
    by (rule Transition_steps [OF assms])
  from steps_side_then [OF side this] show ?thesis
    unfolding HandleDelivered_def Let_def case_prod_beta fst_conv by (rule steps_then_side) (rule side_other)
qed

lemma ConfirmDelivery_steps: "live_guard G w \<Longrightarrow> mirror_steps G st (fst (ConfirmDelivery w st i n))"
  by (auto simp: ConfirmDelivery_def TransitionOrder_def Let_def split: option.split
      intro: steps_side steps_side_then [OF side_writes(3)] steps_side_then [OF side_other(4)] Transition_steps)

lemma handleDelivered_steps:
  assumes "live_guard G w"
  shows "mirror_steps G st (fst (handleDelivered w st ord detail expire bin uop epoch dest))"
  using HandleDelivered_steps [OF assms, of st ord detail expire bin uop epoch dest]
  by (auto simp: handleDelivered_def split: prod.split option.split
      intro: rtranclp_trans [OF _ ConfirmDelivery_steps [OF assms]])

lemma HandleDispatchReply_steps:
  "live_guard G w \<Longrightarrow> mirror_steps G st (fst (HandleDispatchReply w st u reply wb eta detail))"
  by (auto simp: HandleDispatchReply_def TransitionOrder_def split: option.split ReplyType.split
      intro: mirrorTransition_steps Transition_steps handleDelivered_steps steps_side
        steps_side_then [OF side_writes(1)])

lemma HandleCoreStatusPush_steps:
  assumes "live_guard G w" and "edge_ok st"
  shows "mirror_steps G st (fst (HandleCoreStatusPush w st u core detail))"
proof -
  have "mirror_steps G st (fst (ForceTransition w st (eo_id ord) core detail))"
    if "GetOrderByUUID w st u = Some ord" "\<not> IsTerminal (eo_status ord)" for ord
    using that assms edge_row_unique [OF assms(2), of _ ord]
    by (intro ForceTransition_steps) (auto simp: live_guard_def dest: GetOrderByUUID_Some)
  then show ?thesis
    by (auto simp: HandleCoreStatusPush_def ApplyCoreStatus_def split: option.split)
qed

lemma queue_and_clock_view:
  "same_view st (fst (SetOrderQueueReason w st u reason code))"
  "same_view st (fst (SetOrderFaultClock w st u a b n ref))"
  "same_view st (fst (SetOrderETA w st u eta))"
  by (auto simp: SetOrderQueueReason_def SetOrderFaultClock_def SetOrderETA_def Let_def split: option.split
      intro: same_view_trans [OF side_columns(1) stampAwaitingMaterial_view])

lemma HandleOrderUpdate_steps:
  assumes "live_guard G w" and "edge_ok st"
  shows "mirror_steps G st (HandleOrderUpdate w st p)"
proof -
  let ?st1 = "if ou_eta p \<noteq> '''' then fst (SetOrderETA w st (ou_uuid p) (ou_eta p)) else st"
  have v1: "same_view st ?st1" by (simp add: queue_and_clock_view)
  then have "edge_ok ?st1" using assms(2) edge_ok_same_view by blast
  from steps_side_then [OF v1 HandleCoreStatusPush_steps [OF assms(1) this]]
  have push: "mirror_steps G st (fst (HandleCoreStatusPush w ?st1 (ou_uuid p) (ou_status p) (ou_detail p)))" .
  obtain st2 where st2: "st2 = fst (HandleCoreStatusPush w ?st1 (ou_uuid p) (ou_status p) (ou_detail p))" by blast
  obtain st3 where st3: "st3 = (if IsAcquiring (ou_status p) then
        if ou_queue_reason p \<noteq> '''' then fst (SetOrderQueueReason w st2 (ou_uuid p) (ou_queue_reason p) (ou_queue_code p)) else st2
      else fst (SetOrderQueueReason w st2 (ou_uuid p) '''' ''''))" by blast
  have "same_view st2 st3" unfolding st3 by (simp add: queue_and_clock_view)
  also have "same_view st3 (HandleOrderUpdate w st p)"
    unfolding HandleOrderUpdate_def Let_def st2 [symmetric] st3 [symmetric] by (simp add: queue_and_clock_view)
  finally show ?thesis using push unfolding st2 [symmetric] by (rule steps_then_side [rotated])
qed

lemma HandleDeliveredWithExpiry_steps:
  "live_guard G w \<Longrightarrow> mirror_steps G st (fst (HandleDeliveredWithExpiry w st u detail expire bin uop epoch node dest))"
  by (auto simp: HandleDeliveredWithExpiry_def split: option.split intro: handleDelivered_steps steps_side)

lemma operator_steps:
  assumes "live_guard G w"
  shows "mirror_steps G st (fst (ReleaseOrderWithDisposition w st i uop by'))"
    and "mirror_steps G st (fst (AbortOrderWithReason w st i reason))"
    and "mirror_steps G st (fst (SubmitOrder w st i))"
    and "mirror_steps G st (fst (RedirectOrder w st i node))"
  using assms
  by (auto simp: ReleaseOrderWithDisposition_def AbortOrderWithReason_def SubmitOrder_def RedirectOrder_def TransitionOrder_def
      Let_def split: option.split
      intro: Transition_steps steps_side steps_side [OF same_view_trans [OF side_other(4) side_writes(4)]]
        steps_side_then [OF side_other(4)])

lemma RollbackReleaseRejection_steps:
  assumes "live_guard G w" and "edge_ok st"
  shows "mirror_steps G st (fst (RollbackReleaseRejection w st u detail))"
proof -
  have "mirror_steps G st (fst (ForceTransition w st (eo_id ord) StatusStaged detail))"
    if "GetOrderByUUID w st u = Some ord" "eo_status ord = StatusInTransit" for ord
  proof (rule ForceTransition_steps)
    fix r assume "r \<in> set (es_orders st)" "eo_id r = eo_id ord"
    then have "r = ord" using that edge_row_unique [OF assms(2)] GetOrderByUUID_Some by blast
    then show "G w r" using that assms(1) by (simp add: live_guard_def)
  qed
  then show ?thesis by (auto simp: RollbackReleaseRejection_def split: option.split)
qed

lemma override_steps:
  assumes "\<And>r. G w r"
  shows "mirror_steps G st (fst (RollbackForRetry w st u detail))"
    and "mirror_steps G st (fst (HandleSkipped w st u code detail))"
    and "mirror_steps G st (fst (ApplyCoreStatusSnapshot w st sn))"
proof -
  have force: "mirror_steps G st (fst (ForceTransition w st i new d))" for st i new d
    by (rule ForceTransition_steps) (rule assms)
  have live: "live_guard G w" using assms by (simp add: live_guard_def)
  show "mirror_steps G st (fst (RollbackForRetry w st u detail))"
    by (auto simp: RollbackForRetry_def split: option.split intro: force)
  show "mirror_steps G st (fst (HandleSkipped w st u code detail))"
  proof (cases "GetOrderByUUID w st u")
    case (Some ord)
    obtain st1 e where st1: "ForceTransition w st (eo_id ord) StatusSkipped detail = (st1, e)" by fastforce
    have "same_view s (SetChangeoverNodeTaskSkipNote t n (UpdateChangeoverNodeTaskState t z s))" for s t n z
      by (rule same_view_trans [OF side_other(1) side_other(2)])
    then have "same_view st1 (fst (HandleSkipped w st u code detail))"
      using Some st1 by (simp add: HandleSkipped_def Let_def split: option.split)
    moreover have "mirror_steps G st st1" using force [of st "eo_id ord" StatusSkipped detail] st1 by simp
    ultimately show ?thesis by (rule steps_then_side [rotated])
  qed (simp add: HandleSkipped_def)
  show "mirror_steps G st (fst (ApplyCoreStatusSnapshot w st sn))"
  proof (cases "GetOrderByUUID w st (sn_uuid sn)")
    case (Some ord)
    let ?st1 = "snapshot_fault_clock w st ord sn"
    let ?st2 = "if (sn_queue_reason sn \<noteq> '''' \<or> eo_queue_reason ord \<noteq> '''') \<and> ew_side w
      then SetQueueReason (eo_uuid ord) (sn_queue_reason sn) (sn_queue_code sn) ?st1 else ?st1"
    have v1: "same_view st ?st1" by (simp add: snapshot_fault_clock_def)
    also have "same_view ?st1 ?st2" by (rule same_view_if) (rule side_columns)
    finally have v2: "same_view st ?st2" .
    obtain st2 where st2: "st2 = ?st2" by blast
    have "fst (ApplyCoreStatusSnapshot w st sn) \<in>
        {?st1, st2, fst (Transition w st2 (eo_id ord) StatusConfirmed ''startup reconciliation with core''),
         fst (ForceTransition w st2 (eo_id ord) (sn_status sn) ''startup reconciliation with core'')}"
      unfolding ApplyCoreStatusSnapshot_def Some option.case Let_def st2 [symmetric] by (simp split: if_split)
    then show ?thesis
      by (elim insertE emptyE)
        (simp_all only: steps_side [OF v1] steps_side [OF v2 [folded st2]] steps_side_then [OF v2 [folded st2] force]
          steps_side_then [OF v2 [folded st2] Transition_steps [OF live]])
  qed (simp add: ApplyCoreStatusSnapshot_def)
qed

section \<open>Runs\<close>

datatype edge_input =
    InAck string string
  | InWaybill string string string
  | InUpdate OrderUpdate
  | InDelivered string string "instant option" "bin_id option" "int option" int string string
  | InError string string string
  | InSkipped string string string
  | InCancelled string string
  | InStaged string string
  | InSnapshot OrderStatusSnapshot
  | OpRelease order_id "int option" string
  | OpAbort order_id string
  | OpRedirect order_id string
  | OpSubmit order_id
  | OpConfirm order_id int

fun edge_apply :: "edge_world \<Rightarrow> edge_state \<Rightarrow> edge_input \<Rightarrow> edge_state" where
  "edge_apply w st (InAck u src) = HandleOrderAck w st u src"
| "edge_apply w st (InWaybill u wb eta) = HandleOrderWaybill w st u wb eta"
| "edge_apply w st (InUpdate p) = HandleOrderUpdate w st p"
| "edge_apply w st (InDelivered u at expire bin uop epoch node dest) = HandleOrderDelivered w st u at expire bin uop epoch node dest"
| "edge_apply w st (InError u code detail) = HandleOrderError w st u code detail"
| "edge_apply w st (InSkipped u code detail) = HandleOrderSkipped w st u code detail"
| "edge_apply w st (InCancelled u reason) = HandleOrderCancelled w st u reason"
| "edge_apply w st (InStaged u detail) = HandleOrderStaged w st u detail"
| "edge_apply w st (InSnapshot sn) = fst (ApplyCoreStatusSnapshot w st sn)"
| "edge_apply w st (OpRelease i uop who) = fst (ReleaseOrderWithDisposition w st i uop who)"
| "edge_apply w st (OpAbort i reason) = fst (AbortOrderWithReason w st i reason)"
| "edge_apply w st (OpRedirect i node) = fst (RedirectOrder w st i node)"
| "edge_apply w st (OpSubmit i) = fst (SubmitOrder w st i)"
| "edge_apply w st (OpConfirm i n) = fst (ConfirmDelivery w st i n)"

fun edge_run :: "edge_state \<Rightarrow> (edge_world \<times> edge_input) list \<Rightarrow> edge_state" where
  "edge_run st [] = st"
| "edge_run st ((w, inp) # ins) = edge_run (edge_apply w st inp) ins"

text \<open>The inputs by which Core overrides the Edge's row whatever its status.\<close>

fun overrides :: "edge_input \<Rightarrow> bool" where
  "overrides (InSkipped _ _ _) = True"
| "overrides (InSnapshot _) = True"
| "overrides (InError _ code _) = (code = ''manifest_sync_failed'')"
| "overrides _ = False"

lemma edge_apply_steps:
  assumes "edge_ok st" and "live_guard G w" and "overrides inp \<Longrightarrow> \<forall>r. G w r"
  shows "mirror_steps G st (edge_apply w st inp)"
  using assms
  by (cases inp)
    (auto simp: HandleOrderAck_def HandleOrderWaybill_def HandleOrderDelivered_def HandleOrderError_def
      HandleOrderSkipped_def HandleOrderCancelled_def HandleOrderStaged_def
      intro: HandleDispatchReply_steps HandleOrderUpdate_steps HandleDeliveredWithExpiry_steps override_steps
        RollbackReleaseRejection_steps operator_steps ConfirmDelivery_steps)

lemma edge_run_steps:
  "edge_ok st \<Longrightarrow> \<forall>(w, inp)\<in>set ins. live_guard G w \<and> (overrides inp \<longrightarrow> (\<forall>r. G w r)) \<Longrightarrow> mirror_steps G st (edge_run st ins)"
proof (induction st ins rule: edge_run.induct)
  case (2 st w inp ins)
  then have "mirror_steps G st (edge_apply w st inp)" by (intro edge_apply_steps) auto
  moreover from this have "mirror_steps G (edge_apply w st inp) (edge_run (edge_apply w st inp) ins)"
    using 2 by (intro "2.IH" edge_ok_steps [OF _ 2(2)]) auto
  ultimately show ?case by simp
qed simp

subsection \<open>Terminal rows\<close>

abbreviation only_live :: "edge_world \<Rightarrow> edge_order \<Rightarrow> bool" where
  "only_live \<equiv> \<lambda>_ r. \<not> IsTerminal (eo_status r)"

definition has_status :: "edge_state \<Rightarrow> order_id \<Rightarrow> status \<Rightarrow> bool" where
  "has_status st i s \<longleftrightarrow> (\<exists>r\<in>set (es_orders st). eo_id r = i \<and> eo_status r = s)"

lemma has_status_view: "has_status st i s \<longleftrightarrow> (\<exists>u. (i, u, s) \<in> set (status_view st))"
  by (auto simp: has_status_def status_view_def status_key_def)

lemma has_status_step:
  assumes "mirror_step only_live st st'" and "edge_ok st" and "has_status st i s" and "IsTerminal s"
  shows "has_status st' i s"
  using assms
proof (induction rule: mirror_step.induct)
  case (ms_apply ord st new w detail st')
  from ms_apply(6) obtain r where r: "r \<in> set (es_orders st)" "eo_id r = i" "eo_status r = s"
    by (auto simp: has_status_def)
  with ms_apply edge_row_unique [of st r ord] have "eo_id r \<noteq> eo_id ord" by auto
  with r show ?case
    unfolding has_status_def applyTransition_effect(1) [OF ms_apply(4)] by (auto simp: set_update_rows)
qed (simp add: has_status_view same_view_def)

lemma has_status_steps:
  assumes "mirror_steps only_live st st'" and "edge_ok st" and "has_status st i s" and "IsTerminal s"
  shows "has_status st' i s"
  using assms(1)
proof (induction rule: rtranclp_induct)
  case base
  show ?case by (rule assms(3))
next
  case (step st1 st2)
  from has_status_step [OF step(2) edge_ok_steps [OF step(1) assms(2)] step(3) assms(4)] show ?case .
qed

subsection \<open>The history\<close>

fun status_chain :: "status \<Rightarrow> edge_history list \<Rightarrow> status \<Rightarrow> bool" where
  "status_chain s [] t = (s = t)"
| "status_chain s (h # hs) t = (eh_old h = s \<and> eh_new h \<noteq> s \<and> status_chain (eh_new h) hs t)"

definition order_log :: "edge_state \<Rightarrow> order_id \<Rightarrow> edge_history list" where
  "order_log st i = filter (\<lambda>h. eh_order h = i) (es_history st)"

definition log_inv :: "(order_id \<Rightarrow> status) \<Rightarrow> edge_state \<Rightarrow> bool" where
  "log_inv start st \<longleftrightarrow> (\<forall>r\<in>set (es_orders st). status_chain (start (eo_id r)) (order_log st (eo_id r)) (eo_status r))"

lemma status_chain_append: "status_chain s (hs @ [h]) t \<longleftrightarrow> status_chain s hs (eh_old h) \<and> eh_new h \<noteq> eh_old h \<and> eh_new h = t"
  by (induction hs arbitrary: s) auto

lemma log_inv_view: "log_inv start st \<longleftrightarrow> (\<forall>(i, u, s)\<in>set (status_view st). status_chain (start i) (order_log st i) s)"
  by (auto simp: log_inv_def status_view_def status_key_def)

lemma log_inv_step:
  "mirror_step (\<lambda>w _. ew_history w) st st' \<Longrightarrow> edge_ok st \<Longrightarrow> log_inv start st \<Longrightarrow> log_inv start st'"
proof (induction rule: mirror_step.induct)
  case (ms_side st st')
  then show ?case by (simp add: log_inv_view same_view_def order_log_def)
next
  case (ms_apply ord st new w detail st')
  note eff = applyTransition_effect [OF ms_apply(4)]
  have log: "order_log st' i = order_log st i @ (if i = eo_id ord
      then [\<lparr>eh_order = eo_id ord, eh_old = eo_status ord, eh_new = new, eh_detail = detail\<rparr>] else [])" for i
    using ms_apply(3) by (simp add: order_log_def eff(2))
  show ?case
    unfolding log_inv_def
  proof
    fix r' assume "r' \<in> set (es_orders st')"
    then obtain r where r: "r \<in> set (es_orders st)" "r' = (if eo_id r = eo_id ord then r\<lparr>eo_status := new\<rparr> else r)"
      unfolding eff(1) by (auto simp: update_rows_def)
    have chain: "status_chain (start (eo_id r)) (order_log st (eo_id r)) (eo_status r)"
      using ms_apply(6) r(1) by (simp add: log_inv_def)
    show "status_chain (start (eo_id r')) (order_log st' (eo_id r')) (eo_status r')"
    proof (cases "eo_id r = eo_id ord")
      case True
      then have "r = ord" using edge_row_unique [OF ms_apply(5) r(1) ms_apply(1)] by simp
      then show ?thesis using chain r ms_apply(2) by (auto simp: log status_chain_append)
    next
      case False
      then show ?thesis using chain r by (simp add: log)
    qed
  qed
qed

lemma log_inv_steps:
  "mirror_steps (\<lambda>w _. ew_history w) st st' \<Longrightarrow> edge_ok st \<Longrightarrow> log_inv start st \<Longrightarrow> log_inv start st'"
  by (induction rule: rtranclp_induct) (auto intro: log_inv_step edge_ok_steps)

section \<open>What a reader of one row sees\<close>

definition world_ok :: "edge_world \<Rightarrow> bool" where
  "world_ok w \<longleftrightarrow> ew_get w \<and> ew_status w \<and> ew_history w \<and> ew_side w \<and> ew_queue w"

lemma mirror_path:
  "IsValidTransition s t \<or> IsForwardJump s t \<longleftrightarrow> s \<noteq> t \<and> (s, t) \<in> order_steps\<^sup>+"
proof -
  have "IsForwardJump s t \<longleftrightarrow> s \<noteq> t \<and> \<not> IsValidTransition s t \<and> (s, t) \<in> order_steps\<^sup>+"
    using jump_bfs_sound [of t "[s]" "[s]"] jump_bfs_complete [of t "[s]" "[s]"] by (auto simp: IsForwardJump_def)
  moreover have "IsValidTransition s t \<Longrightarrow> (s, t) \<in> order_steps\<^sup>+" by blast
  ultimately show ?thesis using IsValidTransition_live by blast
qed

lemma applyTransition_ok: "ew_status w \<Longrightarrow> \<exists>st'. applyTransition w st ord new detail = (st', None)"
  by (simp add: applyTransition_def Let_def)

lemma applyTransition_status:
  "ew_status w \<Longrightarrow> ord \<in> set (es_orders st) \<Longrightarrow> has_status (fst (applyTransition w st ord new detail)) (eo_id ord) new \<and>
     snd (applyTransition w st ord new detail) = None"
proof -
  assume "ew_status w" and ord: "ord \<in> set (es_orders st)"
  then obtain st' where st': "applyTransition w st ord new detail = (st', None)" using applyTransition_ok by blast
  have "ord\<lparr>eo_status := new\<rparr> \<in> set (es_orders st')"
    unfolding applyTransition_effect(1) [OF st'] set_update_rows using ord by blast
  then have "has_status st' (eo_id ord) new" unfolding has_status_def by (rule bexI [rotated]) simp
  then show ?thesis using st' by simp
qed

lemma reading_rows:
  "(\<And>r. eo_uuid (f r) = eo_uuid r) \<Longrightarrow>
     GetOrderByUUID w (write_order i f st) u = map_option (\<lambda>r. if eo_id r = i then f r else r) (GetOrderByUUID w st u)"
  "GetOrderByUUID w (SetQueueReason v reason code st) u =
     map_option (\<lambda>r. if eo_uuid r = v then r\<lparr>eo_queue_reason := reason, eo_queue_code := code\<rparr> else r) (GetOrderByUUID w st u)"
  by (simp_all add: GetOrderByUUID_def write_order_def SetQueueReason_def select_row_update_rows)

lemma reading_clock:
  "GetOrderByUUID w st u = Some r \<Longrightarrow> GetOrderByUUID w (SetFaultClock u a b n ref st) u =
     Some (r\<lparr>eo_fault_since := a, eo_fault_deadline := b, eo_fault_notice_after := n, eo_fault_ref := ref\<rparr>)"
proof -
  assume row: "GetOrderByUUID w st u = Some r"
  have "r\<lparr>eo_fault_since := a, eo_fault_deadline := b, eo_fault_notice_after := n, eo_fault_ref := ref\<rparr> = r"
    if "eo_fault_since r = a" "eo_fault_deadline r = b" "eo_fault_notice_after r = n" "eo_fault_ref r = ref"
    using that by (cases r) simp
  then show ?thesis
    using row GetOrderByUUID_Some [OF row]
    by (simp add: GetOrderByUUID_def SetFaultClock_def select_row_update_rows)
qed

lemma reading_same_orders: "es_orders st' = es_orders st \<Longrightarrow> GetOrderByUUID w st' u = GetOrderByUUID w st u"
  by (simp add: GetOrderByUUID_def)

lemma stampAwaitingMaterial_orders: "es_orders (stampAwaitingMaterial w st u) = es_orders st"
  by (simp add: stampAwaitingMaterial_def UpdateChangeoverNodeTaskState_def split: option.split)

lemma reading_applyTransition:
  assumes "ew_status w" and "GetOrderByUUID w st u = Some ord"
  shows "GetOrderByUUID w (fst (applyTransition w st ord new detail)) u = Some (ord\<lparr>eo_status := new\<rparr>)"
proof -
  obtain st' where st': "applyTransition w st ord new detail = (st', None)" using applyTransition_ok [OF assms(1)] by blast
  have "es_orders st' = es_orders (write_order (eo_id ord) (\<lambda>r. r\<lparr>eo_status := new\<rparr>) st)"
    using applyTransition_effect(1) [OF st'] by (simp add: write_order_def)
  from reading_same_orders [OF this, of w u] show ?thesis using assms(2) st' by (simp add: reading_rows)
qed

lemma reading_push:
  assumes "world_ok w" and "edge_ok st" and "GetOrderByUUID w st u = Some ord"
  shows "GetOrderByUUID w (fst (HandleCoreStatusPush w st u core detail)) u =
    Some (if core \<in> {StatusDispatched, StatusInTransit, StatusFaulted, StatusQueued, StatusSourcing, StatusConfirmed} \<and>
             \<not> IsTerminal (eo_status ord) then ord\<lparr>eo_status := core\<rparr> else ord)"
proof -
  have "GetOrder w st (eo_id ord) = Some ord"
    using GetOrder_row [OF assms(2)] GetOrderByUUID_Some [OF assms(3)] by blast
  then have "GetOrderByUUID w (fst (ForceTransition w st (eo_id ord) core detail)) u = Some (ord\<lparr>eo_status := core\<rparr>)"
    using reading_applyTransition [OF _ assms(3)] assms(1,3) by (simp add: ForceTransition_def world_ok_def)
  then show ?thesis using assms(3) by (auto simp: HandleCoreStatusPush_def ApplyCoreStatus_def)
qed

lemma reading_queue_reason:
  assumes "world_ok w" and "GetOrderByUUID w st u = Some ord"
  shows "GetOrderByUUID w (fst (SetOrderQueueReason w st u reason code)) u =
    Some (ord\<lparr>eo_queue_reason := reason, eo_queue_code := code\<rparr>)"
  using assms GetOrderByUUID_Some [OF assms(2)]
  by (simp add: SetOrderQueueReason_def world_ok_def Let_def reading_rows
      reading_same_orders [OF stampAwaitingMaterial_orders])

definition pushed_row :: "OrderUpdate \<Rightarrow> edge_order \<Rightarrow> edge_order" where
  "pushed_row p r =
     (let r1 = (if ou_eta p \<noteq> '''' then r\<lparr>eo_eta := Some (ou_eta p)\<rparr> else r);
          r2 = (if ou_status p \<in> {StatusDispatched, StatusInTransit, StatusFaulted, StatusQueued, StatusSourcing, StatusConfirmed} \<and>
                  \<not> IsTerminal (eo_status r) then r1\<lparr>eo_status := ou_status p\<rparr> else r1);
          r3 = (if \<not> IsAcquiring (ou_status p) then r2\<lparr>eo_queue_reason := '''', eo_queue_code := ''''\<rparr>
                else if ou_queue_reason p \<noteq> '''' then r2\<lparr>eo_queue_reason := ou_queue_reason p, eo_queue_code := ou_queue_code p\<rparr>
                else r2)
      in if ou_status p = StatusFaulted
         then r3\<lparr>eo_fault_since := ou_fault_since p, eo_fault_deadline := ou_fault_deadline p,
                 eo_fault_notice_after := ou_fault_notice_after p, eo_fault_ref := encodeFaultRef (ou_fault_ref p)\<rparr>
         else r3\<lparr>eo_fault_since := None, eo_fault_deadline := None, eo_fault_notice_after := 0, eo_fault_ref := None\<rparr>)"

lemma reading_update:
  assumes w: "world_ok w" and ok: "edge_ok st" and ord: "GetOrderByUUID w st (ou_uuid p) = Some ord"
  shows "GetOrderByUUID w (HandleOrderUpdate w st p) (ou_uuid p) = Some (pushed_row p ord)"
proof -
  let ?u = "ou_uuid p"
  obtain st1 where st1: "st1 = (if ou_eta p \<noteq> '''' then fst (SetOrderETA w st ?u (ou_eta p)) else st)" by blast
  obtain r1 where r1: "r1 = (if ou_eta p \<noteq> '''' then ord\<lparr>eo_eta := Some (ou_eta p)\<rparr> else ord)" by blast
  have row1: "GetOrderByUUID w st1 ?u = Some r1"
    using ord w by (simp add: st1 r1 SetOrderETA_def world_ok_def UpdateOrderETA_def reading_rows)
  have "edge_ok st1" using ok edge_ok_same_view [OF queue_and_clock_view(3)] by (simp add: st1)
  note row2 = reading_push [OF w this row1, of "ou_status p" "ou_detail p"]
  obtain st2 r2 where st2: "st2 = fst (HandleCoreStatusPush w st1 ?u (ou_status p) (ou_detail p))"
    and r2: "r2 = (if ou_status p \<in> {StatusDispatched, StatusInTransit, StatusFaulted, StatusQueued, StatusSourcing, StatusConfirmed} \<and>
             \<not> IsTerminal (eo_status ord) then r1\<lparr>eo_status := ou_status p\<rparr> else r1)" by blast
  have row2: "GetOrderByUUID w st2 ?u = Some r2" using row2 unfolding st2 r2 by (simp add: r1)
  obtain st3 r3 where st3: "st3 = (if IsAcquiring (ou_status p) then
        if ou_queue_reason p \<noteq> '''' then fst (SetOrderQueueReason w st2 ?u (ou_queue_reason p) (ou_queue_code p)) else st2
      else fst (SetOrderQueueReason w st2 ?u '''' ''''))"
    and r3: "r3 = (if \<not> IsAcquiring (ou_status p) then r2\<lparr>eo_queue_reason := '''', eo_queue_code := ''''\<rparr>
                else if ou_queue_reason p \<noteq> '''' then r2\<lparr>eo_queue_reason := ou_queue_reason p, eo_queue_code := ou_queue_code p\<rparr>
                else r2)" by blast
  have row3: "GetOrderByUUID w st3 ?u = Some r3" using row2 by (simp add: st3 r3 reading_queue_reason [OF w row2])
  have "ew_side w" using w by (simp add: world_ok_def)
  then show ?thesis
    using reading_clock [OF row3]
    unfolding HandleOrderUpdate_def pushed_row_def Let_def st1 [symmetric] r1 [symmetric] st2 [symmetric] r2 [symmetric]
      st3 [symmetric] r3 [symmetric] SetOrderFaultClock_def by simp
qed

lemma steps_ids: "mirror_steps G st st' \<Longrightarrow> eo_id ` set (es_orders st') = eo_id ` set (es_orders st)"
proof (induction rule: rtranclp_induct)
  case (step st1 st2)
  from step(2) have "map eo_id (es_orders st2) = map eo_id (es_orders st1)"
  proof cases
    case ms_side
    then have "map fst (status_view st2) = map fst (status_view st1)" by (simp add: same_view_def)
    then show ?thesis by (simp add: status_view_def status_key_def o_def)
  next
    case (ms_apply ord new w detail)
    then show ?thesis using applyTransition_effect(1) [OF ms_apply(4)] by (simp add: update_rows_keys)
  qed
  then show ?case using step(3) by (metis set_map)
qed simp

section \<open>A worked example\<close>

definition mirror_world :: edge_world where
  "mirror_world = \<lparr>ew_get = True, ew_status = True, ew_history = True, ew_side = True, ew_queue = True\<rparr>"

definition mirror_order :: "status \<Rightarrow> edge_order" where
  "mirror_order s = \<lparr>eo_id = 3, eo_uuid = ''u3'', eo_status = s, eo_process_node = Some 4, eo_quantity = 20,
     eo_delivery_node = ''LINE1'', eo_waybill = None, eo_eta = None, eo_final_count = None, eo_count_confirmed = False,
     eo_auto_confirm = False, eo_staged_expire = None, eo_bin = None, eo_queue_reason = '''', eo_queue_code = '''',
     eo_fault_since = None, eo_fault_deadline = None, eo_fault_notice_after = 0, eo_fault_ref = None\<rparr>"

definition mirror_start :: "status \<Rightarrow> edge_state" where
  "mirror_start s = \<lparr>es_orders = [mirror_order s], es_history = [], es_tasks = [], es_events = [], es_outbox = [], es_seeds = []\<rparr>"

lemma mirror_start_ok: "edge_ok (mirror_start s)"
  by (simp add: edge_ok_def mirror_start_def)

lemma mirror_simps [simp]:
  "ew_get mirror_world" "ew_status mirror_world" "ew_history mirror_world" "ew_side mirror_world" "ew_queue mirror_world"
  "es_orders (mirror_start s) = [mirror_order s]" "es_history (mirror_start s) = []"
  "eo_id (mirror_order s) = 3" "eo_uuid (mirror_order s) = ''u3''" "eo_status (mirror_order s) = s"
  by (simp_all add: mirror_world_def mirror_start_def mirror_order_def)

section \<open>Properties\<close>


definition late_messages :: "(edge_world \<times> edge_input) list" where
  "late_messages = [(mirror_world, InWaybill ''u3'' ''WB'' ''12:00''), (mirror_world, InStaged ''u3'' ''late''),
     (mirror_world, OpAbort 3 ''operator''), (mirror_world, InError ''u3'' ''no_route'' ''late'')]"


text \<open>The override by \<^verbatim>\<open>manifest_sync_failed\<close> has no guard, although its comment restricts it to orders
  that are not terminal: a cancelled order goes back to \<^verbatim>\<open>staged\<close>.\<close>
lemma rollback_revives_cancelled:
  "map eo_status (es_orders (HandleOrderError mirror_world (mirror_start StatusCancelled) ''u3'' ''manifest_sync_failed'' ''x'')) =
     [StatusStaged]"
  by code_simp

text \<open>The boot snapshot adopts a non-terminal status over a terminal row as well.\<close>
lemma snapshot_revives_confirmed:
  "map eo_status (es_orders (fst (ApplyCoreStatusSnapshot mirror_world (mirror_start StatusConfirmed)
     \<lparr>sn_uuid = ''u3'', sn_found = True, sn_status = StatusInTransit, sn_queue_reason = '''', sn_queue_code = '''',
      sn_fault_since = None, sn_fault_deadline = None, sn_fault_notice_after = 0, sn_fault_ref = None\<rparr>))) = [StatusInTransit]"
  by code_simp


definition catch_up :: "(edge_world \<times> edge_input) list" where
  "catch_up = [(mirror_world, InAck ''u3'' ''SM''), (mirror_world, InStaged ''u3'' ''dwell''), (mirror_world, OpRelease 3 None ''op'')]"




text \<open>A status push rewrites the row as the mapping says: it adopts the five planning and fleet
  statuses and \<^verbatim>\<open>confirmed\<close> unless the row is ended, ignores every other status, keeps a hold
  reason only while the pushed status is acquiring and a fault clock only while it is faulted.\<close>
theorem status_push_effect:
  assumes "world_ok w" and "edge_ok st" and "GetOrderByUUID w st (ou_uuid p) = Some ord"
  shows "\<exists>r. GetOrderByUUID w (HandleOrderUpdate w st p) (ou_uuid p) = Some r \<and>
    eo_status r = (if \<not> IsTerminal (eo_status ord) \<and>
        ou_status p \<in> {StatusDispatched, StatusInTransit, StatusFaulted, StatusQueued, StatusSourcing, StatusConfirmed}
      then ou_status p else eo_status ord) \<and>
    (eo_queue_reason r \<noteq> '''' \<longrightarrow> IsAcquiring (ou_status p)) \<and>
    (IsAcquiring (ou_status p) \<and> ou_queue_reason p \<noteq> '''' \<longrightarrow> eo_queue_reason r = ou_queue_reason p) \<and>
    (eo_fault_since r \<noteq> None \<or> eo_fault_ref r \<noteq> None \<longrightarrow> ou_status p = StatusFaulted)"
  unfolding reading_update [OF assms] pushed_row_def by (simp add: Let_def)

definition fault_push :: OrderUpdate where
  "fault_push = \<lparr>ou_uuid = ''u3'', ou_status = StatusFaulted, ou_detail = ''blocked'', ou_eta = '''', ou_queue_reason = '''',
     ou_queue_code = '''', ou_fault_since = Some 50, ou_fault_deadline = Some 90, ou_fault_notice_after = 30, ou_fault_ref = None\<rparr>"

theorem status_push_effect_witness:
  "\<exists>r. GetOrderByUUID mirror_world (HandleOrderUpdate mirror_world (mirror_start StatusInTransit) fault_push) ''u3'' = Some r \<and>
     eo_status r = StatusFaulted"
  using status_push_effect [of mirror_world "mirror_start StatusInTransit" fault_push "mirror_order StatusInTransit"]
  by (auto simp: world_ok_def mirror_start_ok GetOrderByUUID_def select_row_def fault_push_def)

lemma terminal_or_cancel: "IsTerminal s \<or> IsValidTransition s StatusCancelled"
  by (cases s) (simp_all add: IsValidTransition_def)

lemma applyTransition_outbox: "es_outbox (fst (applyTransition w st ord new detail)) = es_outbox st"
  by (simp add: applyTransition_def Let_def UpdateOrderStatus_def write_order_def InsertOrderHistory_def emit_def
      emit_delivered_def emit_terminal_def delete_seed_def)

text \<open>The documented invariant of the row, that a hold reason is present only while the order is
  acquiring, is enforced by status pushes alone: an acknowledgement moves the row on and leaves the
  reason behind.\<close>
lemma ack_keeps_queue_reason:
  "map (\<lambda>r. (eo_status r, eo_queue_reason r))
     (es_orders (edge_run (mirror_start StatusQueued)
        [(mirror_world, InUpdate (fault_push\<lparr>ou_status := StatusQueued, ou_queue_reason := ''no bin''\<rparr>)),
         (mirror_world, InAck ''u3'' ''SM'')])) = [(StatusAcknowledged, ''no bin'')]"
  by code_simp

lemma write_order_simps [simp]:
  "es_seeds (write_order i f st) = es_seeds st" "es_events (write_order i f st) = es_events st"
  "es_outbox (write_order i f st) = es_outbox st"
  by (simp_all add: write_order_def)

lemma GetOrder_write:
  "(\<And>r. eo_id (f r) = eo_id r) \<Longrightarrow> GetOrder w (write_order i f st) j = map_option (\<lambda>r. if eo_id r = i then f r else r) (GetOrder w st j)"
  by (simp add: GetOrder_def write_order_def select_row_update_rows)

lemma GetOrder_same_orders: "es_orders st' = es_orders st \<Longrightarrow> GetOrder w st' i = GetOrder w st i"
  by (simp add: GetOrder_def)

lemma GetOrder_seed [simp]: "GetOrder w (store_seed i s st) j = GetOrder w st j" "GetOrder w (emit e st) j = GetOrder w st j"
  "GetOrder w (InsertOrderHistory i a b d st) j = GetOrder w st j"
  by (rule GetOrder_same_orders, simp add: store_seed_def emit_def InsertOrderHistory_def)+

definition delivered_row :: "edge_order \<Rightarrow> instant option \<Rightarrow> bin_id option \<Rightarrow> edge_order" where
  "delivered_row ord expire bin =
     (let r1 = (if expire \<noteq> None then ord\<lparr>eo_staged_expire := expire\<rparr> else ord)
      in if bin \<noteq> None then r1\<lparr>eo_bin := bin\<rparr> else r1)"

lemma delivered_row_simps [simp]:
  "eo_id (delivered_row ord expire bin) = eo_id ord" "eo_status (delivered_row ord expire bin) = eo_status ord"
  "eo_eta (delivered_row ord expire bin) = eo_eta ord" "eo_process_node (delivered_row ord expire bin) = eo_process_node ord"
  "eo_delivery_node (delivered_row ord expire bin) = eo_delivery_node ord"
  "eo_bin (delivered_row ord expire bin) = (if bin \<noteq> None then bin else eo_bin ord)"
  by (simp_all add: delivered_row_def Let_def)

lemma applyTransition_delivered:
  assumes "world_ok w" and "GetOrder w st (eo_id ord) = Some ord"
  shows "es_events (fst (applyTransition w st ord StatusDelivered detail)) = es_events st @
      [EdgeStatusChanged (eo_id ord) (eo_status ord) StatusDelivered (case eo_eta ord of None \<Rightarrow> '''' | Some e \<Rightarrow> e),
       EdgeDelivered (eo_id ord) (eo_process_node ord) (eo_bin ord) (ds_uop (seed_of st (eo_id ord)))
         (ds_epoch (seed_of st (eo_id ord))) (ds_dest (seed_of st (eo_id ord))) (eo_delivery_node ord)] \<and>
    es_seeds (fst (applyTransition w st ord StatusDelivered detail)) = filter (\<lambda>p. fst p \<noteq> eo_id ord) (es_seeds st)"
  using assms
  by (simp add: applyTransition_def world_ok_def Let_def UpdateOrderStatus_def GetOrder_write emit_delivered_def seed_of_def)
    (simp add: emit_def InsertOrderHistory_def delete_seed_def)

lemma HandleDelivered_prepared:
  assumes w: "world_ok w" and get: "GetOrder w st (eo_id ord) = Some ord"
  obtains st3 where "HandleDelivered w st ord detail expire bin uop epoch dest =
      (delete_seed (eo_id ord) (fst (Transition w st3 (eo_id ord) StatusDelivered detail)),
       snd (Transition w st3 (eo_id ord) StatusDelivered detail))"
    and "GetOrder w st3 (eo_id ord) = Some (delivered_row ord expire bin)"
    and "es_events st3 = es_events st" and "seed_of st3 (eo_id ord) = \<lparr>ds_uop = uop, ds_epoch = epoch, ds_dest = dest\<rparr>"
    and "es_seeds st3 = (eo_id ord, \<lparr>ds_uop = uop, ds_epoch = epoch, ds_dest = dest\<rparr>) # filter (\<lambda>p. fst p \<noteq> eo_id ord) (es_seeds st)"
proof -
  let ?st1 = "if expire \<noteq> None \<and> ew_side w then UpdateOrderStagedExpireAt (eo_id ord) expire st else st"
  let ?st2 = "if bin \<noteq> None \<and> ew_side w then UpdateOrderBinID (eo_id ord) bin ?st1 else ?st1"
  let ?st3 = "store_seed (eo_id ord) \<lparr>ds_uop = uop, ds_epoch = epoch, ds_dest = dest\<rparr> ?st2"
  have side: "ew_side w" using w by (simp add: world_ok_def)
  show thesis
  proof (rule that [of ?st3])
    show "HandleDelivered w st ord detail expire bin uop epoch dest =
        (delete_seed (eo_id ord) (fst (Transition w ?st3 (eo_id ord) StatusDelivered detail)),
         snd (Transition w ?st3 (eo_id ord) StatusDelivered detail))"
      unfolding HandleDelivered_def Let_def case_prod_beta ..
    show "GetOrder w ?st3 (eo_id ord) = Some (delivered_row ord expire bin)"
      using get side by (simp add: UpdateOrderStagedExpireAt_def UpdateOrderBinID_def GetOrder_write delivered_row_def)
    show "es_events ?st3 = es_events st"
      by (simp add: store_seed_def UpdateOrderStagedExpireAt_def UpdateOrderBinID_def)
    show "es_seeds ?st3 = (eo_id ord, \<lparr>ds_uop = uop, ds_epoch = epoch, ds_dest = dest\<rparr>) # filter (\<lambda>p. fst p \<noteq> eo_id ord) (es_seeds st)"
      by (simp add: store_seed_def UpdateOrderStagedExpireAt_def UpdateOrderBinID_def)
    show "seed_of ?st3 (eo_id ord) = \<lparr>ds_uop = uop, ds_epoch = epoch, ds_dest = dest\<rparr>"
      by (simp add: seed_of_def store_seed_def)
  qed
qed



text \<open>Nothing is cancelled locally behind Core's back.  An abort that reports success has put the
  cancel message in the outbox and then cancelled the row; an abort refused before the database is
  asked for the status write changes nothing, so the operator can retry.\<close>
theorem abort_sends_first:
  assumes "edge_ok st" and "AbortOrderWithReason w st i reason = (st', res)"
  shows "(res = None \<longrightarrow> (\<exists>u. es_outbox st' = es_outbox st @ [MsgOrderCancel u reason]) \<and> has_status st' i StatusCancelled) \<and>
    (res \<noteq> None \<and> res \<noteq> Some StoreFailed \<longrightarrow> st' = st) \<and>
    (res = Some StoreFailed \<longrightarrow> es_orders st' = es_orders st)"
proof (cases "GetOrder w st i")
  case None
  then show ?thesis using assms(2) by (auto simp: AbortOrderWithReason_def)
next
  case (Some ord)
  then have ord: "ord \<in> set (es_orders st)" "eo_id ord = i" using GetOrder_Some by blast+
  show ?thesis
  proof (cases "IsTerminal (eo_status ord) \<or> \<not> ew_queue w")
    case True
    then show ?thesis using Some assms(2) by (auto simp: AbortOrderWithReason_def split: if_splits)
  next
    case False
    let ?st1 = "Queue_message (MsgOrderCancel (eo_uuid ord) reason) st"
    have valid: "IsValidTransition (eo_status ord) StatusCancelled"
      using False terminal_or_cancel [of "eo_status ord"] by blast
    have "GetOrder w ?st1 i = Some ord" using Some GetOrder_same_orders [of ?st1 st w i] by (simp add: Queue_message_def)
    then have res: "(st', res) = applyTransition w ?st1 ord StatusCancelled reason"
      using Some False assms(2) valid by (simp add: AbortOrderWithReason_def TransitionOrder_def Transition_def)
    show ?thesis
    proof (cases "ew_status w")
      case True
      have "ord \<in> set (es_orders ?st1)" using ord by (simp add: Queue_message_def)
      from applyTransition_status [OF True this, of StatusCancelled reason] res ord
      have "has_status st' i StatusCancelled" "res = None" by (metis fst_conv snd_conv)+
      moreover have "es_outbox st' = es_outbox ?st1"
        using arg_cong [OF res, of "\<lambda>x. es_outbox (fst x)"] applyTransition_outbox by simp
      ultimately show ?thesis by (simp add: Queue_message_def)
    next
      case False
      then show ?thesis using res by (simp add: applyTransition_def Queue_message_def)
    qed
  qed
qed

theorem abort_sends_first_witness:
  "\<exists>u. es_outbox (fst (AbortOrderWithReason mirror_world (mirror_start StatusQueued) 3 ''stop'')) = [MsgOrderCancel u ''stop'']"
proof -
  have "snd (AbortOrderWithReason mirror_world (mirror_start StatusQueued) 3 ''stop'') = None" by code_simp
  with abort_sends_first [OF mirror_start_ok prod.collapse [symmetric], of mirror_world StatusQueued 3 "''stop''"]
  show ?thesis by (simp add: mirror_start_def)
qed

text \<open>\<^verbatim>\<open>ConfirmDelivery\<close> says that a failure to enqueue the receipt is logged and does not block the
  confirmation.  It does: the call returns the error and the row stays delivered.\<close>
lemma receipt_failure_blocks_confirmation:
  "(case ConfirmDelivery (mirror_world\<lparr>ew_queue := False\<rparr>) (mirror_start StatusDelivered) 3 20 of
      (st, e) \<Rightarrow> e = Some EnqueueFailed \<and> map eo_status (es_orders st) = [StatusDelivered])"
  by code_simp

text \<open>Releasing an order that is still sourcing sends Core a release it refuses, but does not move the
  Edge's row: the transition to \<^verbatim>\<open>in_transit\<close> is not a legal step from there.\<close>
lemma release_of_sourcing_is_refused:
  "(case ReleaseOrderWithDisposition mirror_world (mirror_start StatusSourcing) 3 None ''op'' of
      (st, e) \<Rightarrow> e = Some (InvalidTransition StatusSourcing StatusInTransit) \<and> map eo_status (es_orders st) = [StatusSourcing] \<and>
                 es_outbox st = [MsgOrderRelease ''u3'' None ''op''])"
  by code_simp

end
