(* ===== verification/InventoryWire.thy ===== *)
theory InventoryWire
  imports Prelude
begin

text \<open>
  The inventory messages Edge and Core exchange (\<^verbatim>\<open>protocol/payloads.go\<close>): the signed count
  changes a station reports for a bin and for a lineside bucket, and the absolute
  adjustment Core sends back.  A time that may be the zero time is an option.
\<close>

definition ReasonConsumeTick :: string where "ReasonConsumeTick = ''consume_tick''"
definition ReasonProduceTick :: string where "ReasonProduceTick = ''produce_tick''"
definition ReasonABFallthrough :: string where "ReasonABFallthrough = ''ab_fallthrough''"
definition ReasonCaptureReduction :: string where "ReasonCaptureReduction = ''capture_reduction''"
definition ReasonOperatorCorrection :: string where "ReasonOperatorCorrection = ''operator_correction''"

record BinUOPDelta =
  bd_station :: string
  bd_bin :: bin_id
  bd_payload :: string
  bd_delta :: int
  bd_reason :: string
  bd_seq :: int
  bd_epoch :: int
  bd_start :: "instant option"
  bd_end :: "instant option"

record LinesideBucketDelta =
  ld_node :: string
  ld_pair :: string
  ld_style :: int
  ld_part :: string
  ld_payload :: string
  ld_delta :: int
  ld_reason :: string
  ld_seq :: int
  ld_start :: "instant option"
  ld_end :: "instant option"

record UOPAdjustment =
  ua_bin :: bin_id
  ua_node :: string
  ua_remaining :: int
  ua_actor :: string
  ua_released :: bool
  ua_bound :: bool
  ua_epoch :: int

end
