(* ===== verification/BinLedger.thy ===== *)
theory BinLedger
  imports InventoryWire Reservations "HOL-Library.AList"
begin

text \<open>
  Core's count of every bin: the manifest service (\<^verbatim>\<open>service/bin_manifest.go\<close>), the cycle
  count (\<^verbatim>\<open>service/bin_service.go\<close>), the applier of the counts a station reports
  (\<^verbatim>\<open>uop/applier.go\<close>), and the two audit tables they write, \<^verbatim>\<open>bin_uop_ledger\<close> and
  \<^verbatim>\<open>bin_uop_exception\<close> (\<^verbatim>\<open>store/audit\<close>).

  A method named \<^verbatim>\<open>...Tx\<close> runs in its caller's transaction and is a function from
  the database to an error or a new database; the methods that own their transaction commit the
  new database or leave the old one.  The environment gives the clock, whether the
  announcement topic is wired, whether the statements of the transaction succeed and
  whether the best-effort writes outside it do; it also holds the payload templates and
  Go's time parser for each of the accepted layouts.  Of a ledger row the columns \<^verbatim>\<open>source\<close>,
  \<^verbatim>\<open>node_id\<close>, \<^verbatim>\<open>station\<close> and \<^verbatim>\<open>loader_id\<close>, which label the row for reports, are left out.
\<close>

section \<open>Tables\<close>

type_synonym manifest = "(string \<times> int) list"

record bin_row =
  bn_id :: bin_id
  bn_payload :: string
  bn_manifest :: "manifest option"
  bn_uop :: int
  bn_confirmed :: bool
  bn_loaded :: "instant option"
  bn_epoch :: int
  bn_anomaly :: "instant option"
  bn_node :: string
  bn_locked :: bool
  bn_claimed :: "order_id option"
  bn_type :: "int option"
  bn_counted :: "(instant \<times> string) option"

text \<open>The JSON the applier and the release audit attach to a row.\<close>

datatype audit_meta =
    NoMeta
  | StaleMeta int int int int
  | BindMeta string int
  | RebindMeta string int int int
  | MismatchMeta string string int int
  | DeltaMeta string int int int int
  | OverrideMeta string string int int
  | CapacityMeta int int

record ledger_row =
  lg_bin :: bin_id
  lg_before :: "int option"
  lg_after :: int
  lg_op :: string
  lg_order :: "order_id option"
  lg_payload :: string
  lg_actor :: string
  lg_at :: instant
  lg_meta :: audit_meta

datatype exc_kind = ExcNegativeCrossing | ExcStaleEpoch | ExcPayloadMismatch | ExcBoundary

record ExceptionRow =
  ex_kind :: exc_kind
  ex_bin :: bin_id
  ex_payload :: string
  ex_actor :: string
  ex_seq :: "int option"
  ex_at :: instant
  ex_before :: "int option"
  ex_after :: "int option"
  ex_deepest :: "int option"
  ex_recovered :: "instant option"
  ex_op :: string
  ex_meta :: audit_meta

record lineside_bucket =
  lb_id :: int
  lb_station :: string
  lb_node :: string
  lb_pair :: string
  lb_style :: int
  lb_part :: string
  lb_qty :: int
  lb_payload :: string

type_synonym dedup_key = "string \<times> string \<times> string \<times> int"

datatype announcement = AnnAdjustment UOPAdjustment | AnnEpochRefresh bin_id string int

record inv_db =
  iv_bins :: "bin_row list"
  iv_ledger :: "ledger_row list"
  iv_exceptions :: "ExceptionRow list"
  iv_dedup :: "(dedup_key \<times> int) list"
  iv_buckets :: "lineside_bucket list"
  iv_bucket_next :: int
  iv_announced :: "announcement list"
  iv_reservations :: reservations
  iv_nodes :: "string list"

record inv_env =
  en_now :: instant
  en_wired :: bool
  en_clearer :: bool
  en_db :: bool
  en_obs_row :: bool
  en_obs_exc :: bool
  en_obs_flag :: bool
  en_layouts :: "(string \<Rightarrow> instant option) list"
  en_template :: "string \<Rightarrow> (int \<times> manifest) option"

datatype inv_error =
    DeltaSkipped
  | InvalidDelta
  | NoSuchBin bin_id
  | PayloadMismatch string string
  | StoreError
  | BinNotClaimable bin_id
  | NotClaimedOrLocked bin_id
  | NegativeRemaining int
  | NoSuchNode string
  | NoSuchBucket
  | BucketUnderflow
  | NoPayload
  | NoCapacity
  | NegativeCount
  | NoTemplate string
  | BinReserved

definition get_bin :: "inv_db \<Rightarrow> bin_id \<Rightarrow> bin_row option" where
  "get_bin db b = select_row (\<lambda>r. bn_id r = b) (iv_bins db)"

definition put_bin :: "bin_id \<Rightarrow> (bin_row \<Rightarrow> bin_row) \<Rightarrow> inv_db \<Rightarrow> inv_db" where
  "put_bin b f db = db\<lparr>iv_bins := update_rows (\<lambda>r. bn_id r = b) f (iv_bins db)\<rparr>"


section \<open>The audit tables\<close>

definition OpSetForProduction :: string where "OpSetForProduction = ''set_for_production''"
definition OpClearForReuse :: string where "OpClearForReuse = ''clear_for_reuse''"
definition OpClearAndClaim :: string where "OpClearAndClaim = ''clear_and_claim''"
definition OpSyncUOPAndClaim :: string where "OpSyncUOPAndClaim = ''sync_uop_and_claim''"
definition OpReleasedEmpty :: string where "OpReleasedEmpty = ''released_empty''"
definition OpReleasedPartial :: string where "OpReleasedPartial = ''released_partial''"
definition OpReleasedEmptyFallback :: string where "OpReleasedEmptyFallback = ''released_empty_fallback''"
definition OpReleasedPartialFallback :: string where "OpReleasedPartialFallback = ''released_partial_fallback''"
definition OpManifestConfirmed :: string where "OpManifestConfirmed = ''manifest_confirmed''"
definition OpReleasedCaptureEmpty :: string where "OpReleasedCaptureEmpty = ''released_capture_empty''"
definition OpCycleCount :: string where "OpCycleCount = ''cycle_count''"
definition OpCycleCountOverCapacity :: string where "OpCycleCountOverCapacity = ''cycle_count_over_capacity''"
definition OpReleasedUnderpack :: string where "OpReleasedUnderpack = ''released_underpack''"
definition OpOperatorOverridePullParts :: string where "OpOperatorOverridePullParts = ''operator_override_pull_parts''"
definition OpOperatorOverrideReleasePartial :: string where
  "OpOperatorOverrideReleasePartial = ''operator_override_release_partial''"
definition OpStaleEpochDropped :: string where "OpStaleEpochDropped = ''stale_epoch_dropped''"
definition OpPayloadBoundFirstDelta :: string where "OpPayloadBoundFirstDelta = ''payload_bound_first_delta''"
definition OpPayloadReboundWithInventory :: string where
  "OpPayloadReboundWithInventory = ''payload_rebound_with_inventory''"
definition OpPayloadMismatchDropped :: string where "OpPayloadMismatchDropped = ''payload_mismatch_dropped''"
definition OpBinUOPDelta :: string where "OpBinUOPDelta = ''bin_uop_delta''"

lemmas op_defs = OpSetForProduction_def OpClearForReuse_def OpClearAndClaim_def OpSyncUOPAndClaim_def OpReleasedEmpty_def
  OpReleasedPartial_def OpReleasedEmptyFallback_def OpReleasedPartialFallback_def OpManifestConfirmed_def
  OpReleasedCaptureEmpty_def OpCycleCount_def OpCycleCountOverCapacity_def OpReleasedUnderpack_def
  OpOperatorOverridePullParts_def OpOperatorOverrideReleasePartial_def OpStaleEpochDropped_def
  OpPayloadBoundFirstDelta_def OpPayloadReboundWithInventory_def OpPayloadMismatchDropped_def OpBinUOPDelta_def

definition EpochBumpOps :: "string list" where
  "EpochBumpOps = [OpSetForProduction, OpClearAndClaim, OpClearForReuse, OpReleasedEmpty, OpReleasedPartial,
     OpReleasedEmptyFallback, OpReleasedPartialFallback, OpReleasedCaptureEmpty, OpReleasedUnderpack]"

definition AppendBinUOPException :: "ExceptionRow \<Rightarrow> inv_db \<Rightarrow> inv_db" where
  "AppendBinUOPException e db = db\<lparr>iv_exceptions := iv_exceptions db @ [e]\<rparr>"

definition NextBinUOPEpochSeq :: "inv_db \<Rightarrow> bin_id \<Rightarrow> int" where
  "NextBinUOPEpochSeq db b = int (count_rows (\<lambda>e. ex_bin e = b \<and> ex_kind e = ExcBoundary) (iv_exceptions db)) + 1"

definition append_ledger :: "ledger_row \<Rightarrow> inv_db \<Rightarrow> inv_db" where
  "append_ledger l db = db\<lparr>iv_ledger := iv_ledger db @ [l]\<rparr>"

definition AppendBinUOP ::
  "inv_env \<Rightarrow> bin_id \<Rightarrow> int option \<Rightarrow> int \<Rightarrow> string \<Rightarrow> order_id option \<Rightarrow> string \<Rightarrow> string \<Rightarrow> inv_db \<Rightarrow> inv_db" where
  "AppendBinUOP env b before after op ord payload actor db =
     (let db1 = append_ledger \<lparr>lg_bin = b, lg_before = before, lg_after = after, lg_op = op, lg_order = ord,
            lg_payload = payload, lg_actor = actor, lg_at = en_now env, lg_meta = NoMeta\<rparr> db
      in if op \<in> set EpochBumpOps
         then AppendBinUOPException \<lparr>ex_kind = ExcBoundary, ex_bin = b, ex_payload = payload, ex_actor = actor,
                ex_seq = Some (NextBinUOPEpochSeq db1 b), ex_at = en_now env, ex_before = before, ex_after = Some after,
                ex_deepest = None, ex_recovered = None, ex_op = op, ex_meta = NoMeta\<rparr> db1
         else db1)"

definition AppendBinUOPOverride ::
  "inv_env \<Rightarrow> bin_id \<Rightarrow> int \<Rightarrow> int \<Rightarrow> string \<Rightarrow> order_id option \<Rightarrow> string \<Rightarrow> string \<Rightarrow> audit_meta \<Rightarrow> inv_db \<Rightarrow> inv_db" where
  "AppendBinUOPOverride env b suggested operator op ord payload actor meta db =
     append_ledger \<lparr>lg_bin = b, lg_before = Some suggested, lg_after = operator, lg_op = op, lg_order = ord,
       lg_payload = payload, lg_actor = actor, lg_at = en_now env, lg_meta = meta\<rparr> db"

text \<open>The subselect of the recovery: the lowest count in the ledger between the crossing and now.\<close>

definition deepest_between :: "inv_db \<Rightarrow> bin_id \<Rightarrow> instant \<Rightarrow> instant \<Rightarrow> int option" where
  "deepest_between db b t0 t1 =
     (case map lg_after (filter (\<lambda>l. lg_bin l = b \<and> t0 \<le> lg_at l \<and> lg_at l \<le> t1) (iv_ledger db)) of
        [] \<Rightarrow> None
      | x # xs \<Rightarrow> Some (foldl min x xs))"

definition open_crossing :: "bin_id \<Rightarrow> ExceptionRow \<Rightarrow> bool" where
  "open_crossing b e = (ex_bin e = b \<and> ex_kind e = ExcNegativeCrossing \<and> ex_recovered e = None)"

definition RecoverBinUOPOpenCrossing :: "bin_id \<Rightarrow> instant \<Rightarrow> inv_db \<Rightarrow> inv_db" where
  "RecoverBinUOPOpenCrossing b t db =
     db\<lparr>iv_exceptions := update_rows (open_crossing b)
          (\<lambda>e. e\<lparr>ex_deepest := (case deepest_between db b (ex_at e) t of Some d \<Rightarrow> Some d | None \<Rightarrow> ex_after e),
                 ex_recovered := Some t\<rparr>) (iv_exceptions db)\<rparr>"

section \<open>The manifest service\<close>

definition readBinUOPInTx :: "inv_db \<Rightarrow> bin_id \<Rightarrow> int option" where
  "readBinUOPInTx db b = map_option bn_uop (get_bin db b)"

definition bumpEpochRaw :: "bin_id \<Rightarrow> inv_db \<Rightarrow> inv_error + inv_db \<times> int \<times> int \<times> string" where
  "bumpEpochRaw b db = (case get_bin db b of
       None \<Rightarrow> Inl (NoSuchBin b)
     | Some r \<Rightarrow> Inr (put_bin b (\<lambda>r. r\<lparr>bn_epoch := bn_epoch r + 1\<rparr>) db, bn_epoch r + 1, bn_uop r, bn_node r))"

definition ActorCoreLifecycle :: string where "ActorCoreLifecycle = ''core''"

definition announce :: "announcement \<Rightarrow> inv_db \<Rightarrow> inv_db" where
  "announce a db = db\<lparr>iv_announced := iv_announced db @ [a]\<rparr>"

definition bumpEpoch :: "inv_env \<Rightarrow> bin_id \<Rightarrow> inv_db \<Rightarrow> inv_error + inv_db \<times> int" where
  "bumpEpoch env b db = (case bumpEpochRaw b db of
       Inl e \<Rightarrow> Inl e
     | Inr (db1, epoch, remaining, nodeName) \<Rightarrow>
         if nodeName = '''' then Inr (db1, epoch)
         else if \<not> en_wired env then Inr (db1, epoch)
         else Inr (announce (AnnAdjustment \<lparr>ua_bin = b, ua_node = nodeName, ua_remaining = remaining,
                      ua_actor = ActorCoreLifecycle, ua_released = False, ua_bound = False, ua_epoch = epoch\<rparr>) db1, epoch))"

definition empty_bin :: "bin_row \<Rightarrow> bin_row" where
  "empty_bin r = r\<lparr>bn_payload := '''', bn_manifest := None, bn_uop := 0, bn_confirmed := False, bn_loaded := None\<rparr>"

definition ClearForReuseTx :: "inv_env \<Rightarrow> bin_id \<Rightarrow> int option \<Rightarrow> string \<Rightarrow> inv_db \<Rightarrow> inv_error + inv_db \<times> int" where
  "ClearForReuseTx env b binTypeID op db =
     (let before = readBinUOPInTx db b;
          db1 = put_bin b (\<lambda>r. (empty_bin r)\<lparr>bn_type := (if binTypeID \<noteq> None then binTypeID else bn_type r)\<rparr>) db
      in case bumpEpoch env b db1 of
           Inl e \<Rightarrow> Inl e
         | Inr (db2, epoch) \<Rightarrow> Inr (AppendBinUOP env b before 0 op None '''' '''' db2, epoch))"

definition setForProductionTx ::
  "inv_env \<Rightarrow> bin_id \<Rightarrow> manifest \<Rightarrow> string \<Rightarrow> int \<Rightarrow> inv_db \<Rightarrow> inv_error + inv_db \<times> int" where
  "setForProductionTx env b man payload uop db =
     (let before = readBinUOPInTx db b;
          db1 = put_bin b (\<lambda>r. r\<lparr>bn_payload := payload, bn_manifest := Some man, bn_uop := uop, bn_confirmed := False\<rparr>) db
      in case bumpEpoch env b db1 of
           Inl e \<Rightarrow> Inl e
         | Inr (db2, epoch) \<Rightarrow> Inr (AppendBinUOP env b before uop OpSetForProduction None payload '''' db2, epoch))"

definition resolveLoadedAt :: "inv_env \<Rightarrow> string \<Rightarrow> instant" where
  "resolveLoadedAt env producedAt =
     (if producedAt = '''' then en_now env
      else case List.find (\<lambda>p. p producedAt \<noteq> None) (en_layouts env) of
             None \<Rightarrow> en_now env
           | Some p \<Rightarrow> the (p producedAt))"

definition ConfirmManifestTx :: "inv_env \<Rightarrow> bin_id \<Rightarrow> string \<Rightarrow> inv_db \<Rightarrow> inv_error + inv_db \<times> int \<times> string" where
  "ConfirmManifestTx env b producedAt db = (case get_bin db b of
       None \<Rightarrow> Inl (NoSuchBin b)
     | Some r \<Rightarrow> Inr (put_bin b (\<lambda>r. r\<lparr>bn_confirmed := True, bn_loaded := Some (resolveLoadedAt env producedAt)\<rparr>) db,
                      bn_uop r, bn_payload r))"

definition confirmTx :: "inv_env \<Rightarrow> bin_id \<Rightarrow> string \<Rightarrow> inv_db \<Rightarrow> inv_error + inv_db" where
  "confirmTx env b producedAt db =
     (case ConfirmManifestTx env b producedAt db of
        Inl e \<Rightarrow> Inl e
      | Inr (db1, uop, payload) \<Rightarrow>
          Inr (AppendBinUOP env b (readBinUOPInTx db b) uop OpManifestConfirmed None payload '''' db1))"

definition pending_hold :: "inv_db \<Rightarrow> order_id \<Rightarrow> bin_id \<Rightarrow> bool" where
  "pending_hold db ord b =
     list_ex (\<lambda>h. r_order h = ord \<and> r_bin h = Some b \<and> r_state h = StatePending) (iv_reservations db)"

definition claimable :: "inv_db \<Rightarrow> bin_id \<Rightarrow> order_id \<Rightarrow> bin_row \<Rightarrow> bool" where
  "claimable db b ord r =
     (bn_id r = b \<and> \<not> bn_locked r \<and> (bn_claimed r = None \<or> bn_claimed r = Some ord) \<and> pending_hold db ord b)"

definition claim_update :: "bin_id \<Rightarrow> order_id \<Rightarrow> (bin_row \<Rightarrow> bin_row) \<Rightarrow> inv_db \<Rightarrow> inv_error + inv_db" where
  "claim_update b ord f db =
     (if \<not> list_ex (claimable db b ord) (iv_bins db) then Inl (BinNotClaimable b)
      else Inr (db\<lparr>iv_bins := update_rows (claimable db b ord) (\<lambda>r. (f r)\<lparr>bn_claimed := Some ord\<rparr>) (iv_bins db)\<rparr>))"

definition clearAndClaimTx :: "inv_env \<Rightarrow> bin_id \<Rightarrow> order_id \<Rightarrow> inv_db \<Rightarrow> inv_error + inv_db" where
  "clearAndClaimTx env b ord db = (case claim_update b ord empty_bin db of
       Inl e \<Rightarrow> Inl e
     | Inr db1 \<Rightarrow> (case bumpEpoch env b db1 of
           Inl e \<Rightarrow> Inl e
         | Inr (db2, epoch) \<Rightarrow> Inr (AppendBinUOP env b (readBinUOPInTx db b) 0 OpClearAndClaim (Some ord) '''' '''' db2)))"

definition syncUOPAndClaimTx :: "inv_env \<Rightarrow> bin_id \<Rightarrow> order_id \<Rightarrow> int \<Rightarrow> inv_db \<Rightarrow> inv_error + inv_db" where
  "syncUOPAndClaimTx env b ord remainingUOP db = (case claim_update b ord (\<lambda>r. r\<lparr>bn_uop := remainingUOP\<rparr>) db of
       Inl e \<Rightarrow> Inl e
     | Inr db1 \<Rightarrow> Inr (AppendBinUOP env b (readBinUOPInTx db b) remainingUOP OpSyncUOPAndClaim (Some ord) '''' '''' db1))"

definition claimBin :: "bin_id \<Rightarrow> order_id \<Rightarrow> inv_db \<Rightarrow> inv_error + inv_db" where
  "claimBin b ord db = claim_update b ord (\<lambda>r. r) db"

definition claimUnderReservationTx :: "inv_env \<Rightarrow> bin_id \<Rightarrow> order_id \<Rightarrow> int option \<Rightarrow> inv_db \<Rightarrow> inv_error + inv_db" where
  "claimUnderReservationTx env b ord remainingUOP db = (case remainingUOP of
       Some u \<Rightarrow> if u \<le> 0 then clearAndClaimTx env b ord db else syncUOPAndClaimTx env b ord u db
     | None \<Rightarrow> claimBin b ord db)"

definition commit_tx :: "inv_env \<Rightarrow> inv_db \<Rightarrow> inv_error + inv_db \<Rightarrow> inv_db \<times> inv_error option" where
  "commit_tx env db res =
     (if \<not> en_db env then (db, Some StoreError)
      else case res of Inl e \<Rightarrow> (db, Some e) | Inr db' \<Rightarrow> (db', None))"

definition ClearForReuse :: "inv_env \<Rightarrow> inv_db \<Rightarrow> bin_id \<Rightarrow> int option \<Rightarrow> inv_db \<times> inv_error option" where
  "ClearForReuse env db b binTypeID =
     commit_tx env db (map_sum id fst (ClearForReuseTx env b binTypeID OpClearForReuse db))"

definition SetForProduction ::
  "inv_env \<Rightarrow> inv_db \<Rightarrow> bin_id \<Rightarrow> manifest \<Rightarrow> string \<Rightarrow> int \<Rightarrow> inv_db \<times> inv_error option" where
  "SetForProduction env db b man payload uop = commit_tx env db (map_sum id fst (setForProductionTx env b man payload uop db))"

definition resolveTemplateManifest :: "inv_env \<Rightarrow> string \<Rightarrow> int option \<Rightarrow> inv_error + manifest \<times> int" where
  "resolveTemplateManifest env payload uopOverride = (case en_template env payload of
       None \<Rightarrow> Inl (NoTemplate payload)
     | Some (capacity, items) \<Rightarrow> (case uopOverride of
           None \<Rightarrow> Inr (items, capacity)
         | Some u \<Rightarrow> if u < 0 then Inl (NegativeRemaining u) else Inr (items, u)))"

definition SetFromTemplate :: "inv_env \<Rightarrow> inv_db \<Rightarrow> bin_id \<Rightarrow> string \<Rightarrow> int option \<Rightarrow> inv_db \<times> inv_error option" where
  "SetFromTemplate env db b payload uopOverride = (case resolveTemplateManifest env payload uopOverride of
       Inl e \<Rightarrow> (db, Some e)
     | Inr (man, uop) \<Rightarrow> SetForProduction env db b man payload uop)"

definition ConfirmBin :: "inv_env \<Rightarrow> inv_db \<Rightarrow> bin_id \<Rightarrow> string \<Rightarrow> inv_db \<times> inv_error option" where
  "ConfirmBin env db b producedAt = commit_tx env db (confirmTx env b producedAt db)"

definition RecordProducedBin ::
  "inv_env \<Rightarrow> inv_db \<Rightarrow> bin_id \<Rightarrow> manifest \<Rightarrow> string \<Rightarrow> int \<Rightarrow> string \<Rightarrow> inv_db \<times> inv_error option" where
  "RecordProducedBin env db b man payload uop producedAt =
     commit_tx env db (case setForProductionTx env b man payload uop db of
         Inl e \<Rightarrow> Inl e
       | Inr (db1, epoch) \<Rightarrow> confirmTx env b producedAt db1)"

definition RecordProducedBinFromTemplate ::
  "inv_env \<Rightarrow> inv_db \<Rightarrow> bin_id \<Rightarrow> string \<Rightarrow> int option \<Rightarrow> string \<Rightarrow> inv_db \<times> inv_error option" where
  "RecordProducedBinFromTemplate env db b payload uopOverride producedAt = (case resolveTemplateManifest env payload uopOverride of
       Inl e \<Rightarrow> (db, Some e)
     | Inr (man, uop) \<Rightarrow> RecordProducedBin env db b man payload uop producedAt)"

definition Unconfirm :: "inv_env \<Rightarrow> inv_db \<Rightarrow> bin_id \<Rightarrow> inv_db \<times> inv_error option" where
  "Unconfirm env db b = commit_tx env db (Inr (put_bin b (\<lambda>r. r\<lparr>bn_confirmed := False\<rparr>) db))"

definition ClearAndClaim :: "inv_env \<Rightarrow> inv_db \<Rightarrow> bin_id \<Rightarrow> order_id \<Rightarrow> inv_db \<times> inv_error option" where
  "ClearAndClaim env db b ord = commit_tx env db (clearAndClaimTx env b ord db)"

definition SyncUOPAndClaim :: "inv_env \<Rightarrow> inv_db \<Rightarrow> bin_id \<Rightarrow> order_id \<Rightarrow> int \<Rightarrow> inv_db \<times> inv_error option" where
  "SyncUOPAndClaim env db b ord remainingUOP = commit_tx env db (syncUOPAndClaimTx env b ord remainingUOP db)"

definition claimAndConfirm :: "inv_env \<Rightarrow> inv_db \<Rightarrow> bin_id \<Rightarrow> order_id \<Rightarrow> int option \<Rightarrow> inv_db \<times> inv_error option" where
  "claimAndConfirm env db b ord remainingUOP =
     commit_tx env db (case claimUnderReservationTx env b ord remainingUOP db of
         Inl e \<Rightarrow> Inl e
       | Inr db1 \<Rightarrow> Inr (db1\<lparr>iv_reservations := confirm (iv_reservations db1) ord (BinRef b)\<rparr>))"

definition ConfirmClaim :: "inv_env \<Rightarrow> inv_db \<Rightarrow> bin_id \<Rightarrow> order_id \<Rightarrow> int option \<Rightarrow> inv_db \<times> inv_error option" where
  "ConfirmClaim env db b ord remainingUOP = claimAndConfirm env db b ord remainingUOP"

definition ConfirmHeldReservation :: "inv_env \<Rightarrow> inv_db \<Rightarrow> order_id \<Rightarrow> bin_id \<Rightarrow> inv_db \<times> inv_error option" where
  "ConfirmHeldReservation env db ord b =
     commit_tx env db (Inr (db\<lparr>iv_reservations := confirm (iv_reservations db) ord (BinRef b)\<rparr>))"

definition reserve :: "inv_env \<Rightarrow> inv_db \<Rightarrow> bin_id \<Rightarrow> order_id \<Rightarrow> string \<Rightarrow> inv_db \<times> inv_error option" where
  "reserve env db b ord tag = commit_tx env db (case acquire (iv_reservations db) ord (BinRef b) tag of
       Inl e \<Rightarrow> Inl BinReserved
     | Inr rs \<Rightarrow> Inr (db\<lparr>iv_reservations := rs\<rparr>))"

definition ReserveForDispatch :: "inv_env \<Rightarrow> inv_db \<Rightarrow> bin_id \<Rightarrow> order_id \<Rightarrow> inv_db \<times> inv_error option" where
  "ReserveForDispatch env db b ord = reserve env db b ord ''reserveComplexPlan''"

definition ClaimForDispatch :: "inv_env \<Rightarrow> inv_db \<Rightarrow> bin_id \<Rightarrow> order_id \<Rightarrow> int option \<Rightarrow> inv_db \<times> inv_error option" where
  "ClaimForDispatch env db b ord remainingUOP = (case reserve env db b ord ''ClaimForDispatch'' of
       (db1, Some e) \<Rightarrow> (db1, Some e)
     | (db1, None) \<Rightarrow> (case claimAndConfirm env db1 b ord remainingUOP of
           (db2, Some e) \<Rightarrow> (db2\<lparr>iv_reservations := release (iv_reservations db2) ord (BinRef b)\<rparr>, Some e)
         | (db2, None) \<Rightarrow> (db2, None)))"

definition DispositionPullParts :: string where "DispositionPullParts = ''pull_parts''"
definition DispositionReleasePartial :: string where "DispositionReleasePartial = ''release_partial''"
definition DispositionReleaseUnderpack :: string where "DispositionReleaseUnderpack = ''release_underpack''"

definition releasable :: "bin_id \<Rightarrow> order_id \<Rightarrow> bool \<Rightarrow> bin_row \<Rightarrow> bool" where
  "releasable b ord sourceNodeFallback r =
     (bn_id r = b \<and> \<not> bn_locked r \<and> (sourceNodeFallback \<or> bn_claimed r = Some ord))"

definition partial_bin :: "int \<Rightarrow> bin_row \<Rightarrow> bin_row" where
  "partial_bin u r = r\<lparr>bn_uop := u, bn_manifest := (if bn_payload r = '''' then bn_manifest r else Some [(bn_payload r, u)])\<rparr>"

definition release_op :: "int \<Rightarrow> string \<Rightarrow> bool \<Rightarrow> string" where
  "release_op u kind sourceNodeFallback =
     (if u = 0 then (if sourceNodeFallback then OpReleasedEmptyFallback
                     else if kind = DispositionReleaseUnderpack then OpReleasedUnderpack else OpReleasedEmpty)
      else if sourceNodeFallback then OpReleasedPartialFallback else OpReleasedPartial)"

definition syncOrClearForReleased ::
  "inv_env \<Rightarrow> inv_db \<Rightarrow> bin_id \<Rightarrow> order_id \<Rightarrow> int option \<Rightarrow> string \<Rightarrow> string \<Rightarrow> bool \<Rightarrow> inv_db \<times> inv_error option" where
  "syncOrClearForReleased env db b ord remainingUOP kind actor0 sourceNodeFallback = (case remainingUOP of
       None \<Rightarrow> (db, None)
     | Some u \<Rightarrow>
         let actor = (if actor0 = '''' then ''system'' else actor0) in
         if u < 0 then (db, Some (NegativeRemaining u))
         else commit_tx env db
           (let before = readBinUOPInTx db b;
                releasedPayload = (case get_bin db b of Some r \<Rightarrow> bn_payload r | None \<Rightarrow> '''');
                P = releasable b ord sourceNodeFallback;
                f = (if u = 0 then empty_bin else partial_bin u)
            in if \<not> list_ex P (iv_bins db) then Inl (NotClaimedOrLocked b)
               else case bumpEpoch env b (db\<lparr>iv_bins := update_rows P f (iv_bins db)\<rparr>) of
                   Inl e \<Rightarrow> Inl e
                 | Inr (db2, epoch) \<Rightarrow>
                     Inr (AppendBinUOP env b before u (release_op u kind sourceNodeFallback) (Some ord) releasedPayload actor db2)))"

definition SyncOrClearForReleased ::
  "inv_env \<Rightarrow> inv_db \<Rightarrow> bin_id \<Rightarrow> order_id \<Rightarrow> int option \<Rightarrow> string \<Rightarrow> string \<Rightarrow> inv_db \<times> inv_error option" where
  "SyncOrClearForReleased env db b ord remainingUOP kind actor = syncOrClearForReleased env db b ord remainingUOP kind actor False"

definition SyncOrClearForReleasedNoOwner ::
  "inv_env \<Rightarrow> inv_db \<Rightarrow> bin_id \<Rightarrow> order_id \<Rightarrow> int option \<Rightarrow> string \<Rightarrow> inv_db \<times> inv_error option" where
  "SyncOrClearForReleasedNoOwner env db b ord remainingUOP actor = syncOrClearForReleased env db b ord remainingUOP '''' actor True"

record UOPDisposition =
  dp_kind :: string
  dp_count :: int
  dp_captures :: "(string \<times> int) list"
  dp_count_suggested :: "int option"
  dp_captures_suggested :: "(string \<times> int) list"

definition map_get :: "(string \<times> int) list \<Rightarrow> string \<Rightarrow> int" where
  "map_get m k = (case map_of m k of Some v \<Rightarrow> v | None \<Rightarrow> 0)"

definition audit_part :: "inv_env \<Rightarrow> bin_id \<Rightarrow> order_id \<Rightarrow> UOPDisposition \<Rightarrow> string \<Rightarrow> inv_db \<Rightarrow> string \<Rightarrow> inv_db" where
  "audit_part env b ord d actor db part =
     (let suggested = map_get (dp_captures_suggested d) part; operator = map_get (dp_captures d) part
      in if suggested = operator then db
         else AppendBinUOPOverride env b suggested operator OpOperatorOverridePullParts (Some ord) part actor
                (OverrideMeta (dp_kind d) part suggested operator) db)"

definition AuditReleaseOverride ::
  "inv_env \<Rightarrow> inv_db \<Rightarrow> bin_id \<Rightarrow> order_id \<Rightarrow> UOPDisposition option \<Rightarrow> string \<Rightarrow> inv_db \<times> inv_error option" where
  "AuditReleaseOverride env db b ord disposition actor0 = (case disposition of
       None \<Rightarrow> (db, None)
     | Some d \<Rightarrow>
         let actor = (if actor0 = '''' then ''system'' else actor0) in
         if dp_kind d = DispositionReleasePartial then (case dp_count_suggested d of
             None \<Rightarrow> (db, None)
           | Some suggested \<Rightarrow>
               if suggested = dp_count d then (db, None)
               else commit_tx env db (Inr (AppendBinUOPOverride env b suggested (dp_count d) OpOperatorOverrideReleasePartial
                      (Some ord) '''' actor (OverrideMeta (dp_kind d) '''' suggested (dp_count d)) db)))
         else if dp_kind d = DispositionPullParts then
           (if dp_captures_suggested d = [] then (db, None)
            else commit_tx env db (Inr (foldl (audit_part env b ord d actor) db
                   (sorted_list_of_set (set (map fst (dp_captures_suggested d) @ map fst (dp_captures d)))))))
         else (db, None))"


section \<open>Cycle counts\<close>

text \<open>
  \<^verbatim>\<open>BinService.RecordCount\<close> gets the caller's copy of the bin: its payload and its count
  are what the caller read before the transaction began.
\<close>

definition RecordCount :: "inv_env \<Rightarrow> inv_db \<Rightarrow> bin_row \<Rightarrow> int \<Rightarrow> string \<Rightarrow> inv_db \<times> inv_error option" where
  "RecordCount env db b actualUOP actor =
     (if bn_payload b = '''' then (db, Some NoPayload)
      else case en_template env (bn_payload b) of
        None \<Rightarrow> (db, Some (NoTemplate (bn_payload b)))
      | Some (capacity, items) \<Rightarrow>
          if capacity \<le> 0 then (db, Some NoCapacity)
          else if actualUOP < 0 then (db, Some NegativeCount)
          else commit_tx env db (Inr
            (let db1 = put_bin (bn_id b) (\<lambda>r. r\<lparr>bn_uop := actualUOP, bn_counted := Some (en_now env, actor), bn_anomaly := None\<rparr>) db;
                 db2 = AppendBinUOP env (bn_id b) (Some (bn_uop b)) actualUOP OpCycleCount None (bn_payload b) actor db1
             in if actualUOP > capacity
                then AppendBinUOPOverride env (bn_id b) capacity actualUOP OpCycleCountOverCapacity None (bn_payload b) actor
                       (CapacityMeta actualUOP capacity) db2
                else db2)))"


section \<open>Applying a station's count\<close>

record inv_svc =
  sv_db :: inv_db
  sv_repaired :: "(bin_id \<times> int) list"
  sv_stale :: nat
  sv_mismatch :: nat

definition dedup_last :: "(dedup_key \<times> int) list \<Rightarrow> dedup_key \<Rightarrow> int option" where
  "dedup_last t k = map_of t k"

definition claimDeltaSequence :: "dedup_key \<Rightarrow> int \<Rightarrow> inv_db \<Rightarrow> inv_db \<times> bool" where
  "claimDeltaSequence k sq db = (case dedup_last (iv_dedup db) k of
       None \<Rightarrow> (db\<lparr>iv_dedup := AList.update k sq (iv_dedup db)\<rparr>, True)
     | Some old \<Rightarrow> if old < sq then (db\<lparr>iv_dedup := AList.update k sq (iv_dedup db)\<rparr>, True) else (db, False))"

definition alreadyRepaired :: "inv_svc \<Rightarrow> bin_id \<Rightarrow> int \<Rightarrow> bool" where
  "alreadyRepaired s b epoch = ((case map_of (sv_repaired s) b of Some e \<Rightarrow> e | None \<Rightarrow> 0) = epoch)"

definition markRepaired :: "bin_id \<Rightarrow> int \<Rightarrow> inv_svc \<Rightarrow> inv_svc" where
  "markRepaired b epoch s = s\<lparr>sv_repaired := AList.update b epoch (sv_repaired s)\<rparr>"

definition repairEpoch :: "inv_env \<Rightarrow> inv_svc \<Rightarrow> bin_id \<Rightarrow> int \<Rightarrow> inv_db \<Rightarrow> inv_db \<times> bool" where
  "repairEpoch env s b currentEpoch db =
     (if \<not> en_wired env then (db, False)
      else if alreadyRepaired s b currentEpoch then (db, False)
      else case get_bin db b of
        None \<Rightarrow> (db, False)
      | Some r \<Rightarrow> if bn_node r = '''' then (db, False)
                  else (announce (AnnEpochRefresh b (bn_node r) currentEpoch) db, True))"

definition flag_anomaly :: "instant \<Rightarrow> bin_row \<Rightarrow> bin_row" where
  "flag_anomaly now r = r\<lparr>bn_anomaly := (case bn_anomaly r of Some t \<Rightarrow> Some t | None \<Rightarrow> Some now)\<rparr>"

definition drop_stale :: "inv_env \<Rightarrow> string \<Rightarrow> BinUOPDelta \<Rightarrow> bin_row \<Rightarrow> inv_svc \<Rightarrow> inv_svc" where
  "drop_stale env station d r s =
     (let meta = StaleMeta (bd_epoch d) (bn_epoch r) (bd_seq d) (bd_delta d);
          db1 = AppendBinUOPOverride env (bd_bin d) (bn_uop r) (bn_uop r) OpStaleEpochDropped None (bd_payload d) station meta (sv_db s);
          db2 = AppendBinUOPException \<lparr>ex_kind = ExcStaleEpoch, ex_bin = bd_bin d, ex_payload = bd_payload d, ex_actor = station,
                  ex_seq = None, ex_at = en_now env, ex_before = Some (bn_uop r), ex_after = Some (bn_uop r), ex_deepest = None,
                  ex_recovered = None, ex_op = OpStaleEpochDropped, ex_meta = meta\<rparr> db1;
          db3 = put_bin (bd_bin d) (flag_anomaly (en_now env)) db2;
          rep = repairEpoch env s (bd_bin d) (bn_epoch r) db3;
          s1 = s\<lparr>sv_db := fst rep, sv_stale := sv_stale s + 1\<rparr>
      in if snd rep then markRepaired (bd_bin d) (bn_epoch r) s1 else s1)"

definition bind_payload :: "inv_env \<Rightarrow> string \<Rightarrow> BinUOPDelta \<Rightarrow> bin_row \<Rightarrow> inv_db \<Rightarrow> inv_db \<times> string" where
  "bind_payload env station d r db =
     (if bd_reason d = ReasonProduceTick \<and> bd_payload d \<noteq> '''' \<and> bn_payload r \<noteq> bd_payload d then
        (if bn_uop r = 0
         then AppendBinUOPOverride env (bd_bin d) (bn_uop r) (bn_uop r) OpPayloadBoundFirstDelta None (bd_payload d) station
                (BindMeta (bn_payload r) (bd_seq d)) (put_bin (bd_bin d) (\<lambda>r. r\<lparr>bn_payload := bd_payload d\<rparr>) db)
         else AppendBinUOPOverride env (bd_bin d) (bn_uop r) (bn_uop r) OpPayloadReboundWithInventory None (bd_payload d) station
                (RebindMeta (bn_payload r) (bn_uop r) (bd_seq d) (bd_delta d))
                (put_bin (bd_bin d) (\<lambda>r. flag_anomaly (en_now env) (r\<lparr>bn_payload := bd_payload d\<rparr>)) db),
         bd_payload d)
      else (db, bn_payload r))"

definition recordRejectedDelta :: "inv_env \<Rightarrow> string \<Rightarrow> BinUOPDelta \<Rightarrow> bin_row \<Rightarrow> inv_svc \<Rightarrow> inv_svc" where
  "recordRejectedDelta env station d r s =
     (let meta = MismatchMeta (bd_payload d) (bn_payload r) (bd_seq d) (bd_delta d);
          db1 = (if en_obs_row env then AppendBinUOPOverride env (bd_bin d) (bn_uop r) (bn_uop r) OpPayloadMismatchDropped None
                   (bd_payload d) station meta (sv_db s) else sv_db s);
          db2 = (if en_obs_exc env then AppendBinUOPException \<lparr>ex_kind = ExcPayloadMismatch, ex_bin = bd_bin d, ex_payload = bd_payload d,
                   ex_actor = station, ex_seq = None, ex_at = en_now env, ex_before = Some (bn_uop r), ex_after = Some (bn_uop r),
                   ex_deepest = None, ex_recovered = None, ex_op = OpPayloadMismatchDropped, ex_meta = meta\<rparr> db1 else db1);
          db3 = (if bn_anomaly r = None \<and> en_obs_flag env
                 then put_bin (bd_bin d) (\<lambda>r. r\<lparr>bn_anomaly := Some (en_now env)\<rparr>) db2 else db2)
      in s\<lparr>sv_db := db3, sv_mismatch := sv_mismatch s + 1\<rparr>)"

definition record_crossing :: "inv_env \<Rightarrow> string \<Rightarrow> BinUOPDelta \<Rightarrow> int \<Rightarrow> audit_meta \<Rightarrow> inv_db \<Rightarrow> inv_db" where
  "record_crossing env station d before meta db =
     (let new = before + bd_delta d in
      if before \<ge> 0 \<and> new < 0
      then AppendBinUOPException \<lparr>ex_kind = ExcNegativeCrossing, ex_bin = bd_bin d, ex_payload = bd_payload d, ex_actor = station,
             ex_seq = None, ex_at = en_now env, ex_before = Some before, ex_after = Some new, ex_deepest = None,
             ex_recovered = None, ex_op = OpBinUOPDelta, ex_meta = meta\<rparr> db
      else if before < 0 \<and> new \<ge> 0 then RecoverBinUOPOpenCrossing (bd_bin d) (en_now env) db
      else db)"

definition apply_count :: "inv_env \<Rightarrow> string \<Rightarrow> BinUOPDelta \<Rightarrow> bin_row \<Rightarrow> inv_db \<Rightarrow> inv_error + inv_db" where
  "apply_count env station d r db =
     (let before = bn_uop r;
          meta = DeltaMeta (bd_reason d) (bd_delta d) (bd_seq d) (bd_epoch d) (bn_epoch r);
          db1 = put_bin (bd_bin d) (\<lambda>r. r\<lparr>bn_uop := bn_uop r + bd_delta d\<rparr>) db;
          db2 = append_ledger \<lparr>lg_bin = bd_bin d, lg_before = Some before, lg_after = before + bd_delta d, lg_op = OpBinUOPDelta,
                  lg_order = None, lg_payload = bd_payload d, lg_actor = station, lg_at = en_now env, lg_meta = meta\<rparr> db1;
          db3 = record_crossing env station d before meta db2
      in if bd_reason d = ReasonCaptureReduction \<and> before + bd_delta d \<le> 0 \<and> en_clearer env
         then map_sum id fst (ClearForReuseTx env (bd_bin d) None OpReleasedCaptureEmpty db3)
         else Inr db3)"

definition ApplyBinUOPDelta :: "inv_env \<Rightarrow> inv_svc \<Rightarrow> string \<Rightarrow> BinUOPDelta \<Rightarrow> inv_svc \<times> inv_error option" where
  "ApplyBinUOPDelta env s station d =
     (if station = '''' then (s, Some InvalidDelta)
      else if bd_bin d \<le> 0 then (s, Some InvalidDelta)
      else if \<not> en_db env then (s, Some StoreError)
      else case get_bin (sv_db s) (bd_bin d) of
        Some r \<Rightarrow>
          if 0 < bd_epoch d \<and> bd_epoch d < bn_epoch r then (drop_stale env station d r s, Some DeltaSkipped)
          else (case claimDeltaSequence (station, ''bin'', format_int (bd_bin d), bd_epoch d) (bd_seq d) (sv_db s) of
              (db1, False) \<Rightarrow> (s, Some DeltaSkipped)
            | (db1, True) \<Rightarrow> (case bind_payload env station d r db1 of
                (db2, have_payload) \<Rightarrow>
                  if bd_payload d \<noteq> '''' \<and> have_payload \<noteq> '''' \<and> bd_payload d \<noteq> have_payload
                  then (recordRejectedDelta env station d r s, Some (PayloadMismatch (bd_payload d) have_payload))
                  else (case apply_count env station d r db2 of
                      Inl e \<Rightarrow> (s, Some e)
                    | Inr db3 \<Rightarrow> (s\<lparr>sv_db := db3\<rparr>, None))))
      | None \<Rightarrow>
          (case claimDeltaSequence (station, ''bin'', format_int (bd_bin d), bd_epoch d) (bd_seq d) (sv_db s) of
              (db1, False) \<Rightarrow> (s, Some DeltaSkipped)
            | (db1, True) \<Rightarrow> (s, Some (NoSuchBin (bd_bin d)))))"

definition DroppedDeltaCounts :: "inv_svc \<Rightarrow> nat \<times> nat" where
  "DroppedDeltaCounts s = (sv_stale s, sv_mismatch s)"


section \<open>Lineside buckets\<close>

definition core_bucketScopeKey :: "string \<Rightarrow> string \<Rightarrow> int \<Rightarrow> string \<Rightarrow> string" where
  "core_bucketScopeKey coreNodeName pairKey styleID partNumber =
     coreNodeName @ ''|'' @ pairKey @ ''|'' @ format_int styleID @ ''|'' @ partNumber"

definition same_bucket :: "LinesideBucketDelta \<Rightarrow> lineside_bucket \<Rightarrow> bool" where
  "same_bucket d k = (lb_node k = ld_node d \<and> lb_pair k = ld_pair d \<and> lb_style k = ld_style d \<and> lb_part k = ld_part d)"

definition upsert_bucket :: "string \<Rightarrow> LinesideBucketDelta \<Rightarrow> inv_db \<Rightarrow> inv_error + inv_db" where
  "upsert_bucket station d db =
     (if list_ex (same_bucket d) (iv_buckets db)
      then (if list_ex (\<lambda>k. same_bucket d k \<and> lb_qty k + ld_delta d < 0) (iv_buckets db) then Inl BucketUnderflow
            else Inr (db\<lparr>iv_buckets := update_rows (same_bucket d)
                   (\<lambda>k. k\<lparr>lb_qty := lb_qty k + ld_delta d,
                          lb_payload := (if ld_payload d = '''' then lb_payload k else ld_payload d),
                          lb_station := station\<rparr>) (iv_buckets db)\<rparr>))
      else Inr (db\<lparr>iv_buckets := iv_buckets db @ [\<lparr>lb_id = iv_bucket_next db, lb_station = station, lb_node = ld_node d,
                     lb_pair = ld_pair d, lb_style = ld_style d, lb_part = ld_part d, lb_qty = max (ld_delta d) 0,
                     lb_payload = ld_payload d\<rparr>],
                   iv_bucket_next := iv_bucket_next db + 1\<rparr>))"

definition ApplyLinesideBucketDelta :: "inv_env \<Rightarrow> inv_db \<Rightarrow> string \<Rightarrow> LinesideBucketDelta \<Rightarrow> inv_db \<times> inv_error option" where
  "ApplyLinesideBucketDelta env db station d =
     (if station = '''' then (db, Some InvalidDelta)
      else if ld_node d = '''' then (db, Some InvalidDelta)
      else if ld_part d = '''' then (db, Some InvalidDelta)
      else if \<not> ld_node d \<in> set (iv_nodes db) then (db, Some (NoSuchNode (ld_node d)))
      else commit_tx env db
        (case claimDeltaSequence (station, ''bucket'', core_bucketScopeKey (ld_node d) (ld_pair d) (ld_style d) (ld_part d), 0) (ld_seq d) db of
           (db1, False) \<Rightarrow> Inl DeltaSkipped
         | (db1, True) \<Rightarrow>
             if ld_delta d < 0 \<and> \<not> list_ex (same_bucket d) (iv_buckets db1) then Inl NoSuchBucket
             else (case upsert_bucket station d db1 of
                 Inl e \<Rightarrow> Inl e
               | Inr db2 \<Rightarrow> Inr (db2\<lparr>iv_buckets := delete_rows (\<lambda>k. same_bucket d k \<and> lb_qty k = 0) (iv_buckets db2)\<rparr>))))"

definition DeleteLinesideBucket :: "inv_env \<Rightarrow> inv_db \<Rightarrow> int \<Rightarrow> inv_db \<times> nat" where
  "DeleteLinesideBucket env db i = (case select_row (\<lambda>k. lb_id k = i) (iv_buckets db) of
       None \<Rightarrow> (db, 0)
     | Some k \<Rightarrow>
         if \<not> en_db env then (db, 0)
         else (let key = core_bucketScopeKey (lb_node k) (lb_pair k) (lb_style k) (lb_part k) in
           (db\<lparr>iv_buckets := delete_rows (\<lambda>k. lb_id k = i) (iv_buckets db),
               iv_dedup := filter (\<lambda>((st, kd, sk, ep), sq). \<not> (st = lb_station k \<and> kd = ''bucket'' \<and> sk = key)) (iv_dedup db)\<rparr>,
            count_rows (\<lambda>k. lb_id k = i) (iv_buckets db))))"

record BinUOPRow =
  br_bin :: bin_id
  br_node :: string
  br_payload :: string
  br_uop :: int
  br_epoch :: int

definition ListBinUOPForNodes :: "inv_db \<Rightarrow> string list \<Rightarrow> BinUOPRow list" where
  "ListBinUOPForNodes db names =
     (if names = [] then []
      else map (\<lambda>r. \<lparr>br_bin = bn_id r, br_node = bn_node r, br_payload = bn_payload r, br_uop = bn_uop r, br_epoch = bn_epoch r\<rparr>)
             (filter (\<lambda>r. bn_node r \<in> set names \<and> bn_node r \<noteq> '''') (iv_bins db)))"

definition SumInvariant :: "inv_db \<Rightarrow> int \<times> int \<times> int" where
  "SumInvariant db =
     (let binSum = sum_list (map bn_uop (iv_bins db)); bucketSum = sum_list (map lb_qty (iv_buckets db))
      in (binSum + bucketSum, binSum, bucketSum))"

section \<open>Reading the tables after a write\<close>

lemma select_bin_update:
  "(\<And>r. bn_id (f r) = bn_id r) \<Longrightarrow> select_row (\<lambda>r. bn_id r = i) (update_rows (\<lambda>r. bn_id r = b) f rs) =
     (if i = b then map_option f (select_row (\<lambda>r. bn_id r = b) rs) else select_row (\<lambda>r. bn_id r = i) rs)"
  by (induction rs) (auto simp: select_row_def update_rows_def)

lemma get_bin_put:
  "(\<And>r. bn_id (f r) = bn_id r) \<Longrightarrow> get_bin (put_bin b f db) i = (if i = b then map_option f (get_bin db b) else get_bin db i)"
  by (simp add: get_bin_def put_bin_def select_bin_update)

lemma get_bin_Some: "get_bin db b = Some r \<Longrightarrow> r \<in> set (iv_bins db) \<and> bn_id r = b"
  by (auto simp: get_bin_def dest: select_row_Some)

lemma select_bin_distinct: "distinct (map bn_id rs) \<Longrightarrow> r \<in> set rs \<Longrightarrow> select_row (\<lambda>q. bn_id q = bn_id r) rs = Some r"
  by (induction rs) (auto simp: select_row_def)

lemma get_bin_row: "distinct (map bn_id (iv_bins db)) \<Longrightarrow> r \<in> set (iv_bins db) \<Longrightarrow> get_bin db (bn_id r) = Some r"
  by (simp add: get_bin_def select_bin_distinct)

lemma put_bin_fields [simp]:
  "iv_ledger (put_bin b f db) = iv_ledger db" "iv_exceptions (put_bin b f db) = iv_exceptions db"
  "iv_dedup (put_bin b f db) = iv_dedup db" "iv_announced (put_bin b f db) = iv_announced db"
  "iv_buckets (put_bin b f db) = iv_buckets db" "iv_reservations (put_bin b f db) = iv_reservations db"
  "iv_nodes (put_bin b f db) = iv_nodes db" "iv_bucket_next (put_bin b f db) = iv_bucket_next db"
  by (simp_all add: put_bin_def)

lemma append_fields [simp]:
  "iv_bins (append_ledger l db) = iv_bins db" "iv_exceptions (append_ledger l db) = iv_exceptions db"
  "iv_dedup (append_ledger l db) = iv_dedup db" "iv_announced (append_ledger l db) = iv_announced db"
  "iv_buckets (append_ledger l db) = iv_buckets db" "iv_reservations (append_ledger l db) = iv_reservations db"
  "iv_ledger (append_ledger l db) = iv_ledger db @ [l]"
  "iv_bins (AppendBinUOPException e db) = iv_bins db" "iv_exceptions (AppendBinUOPException e db) = iv_exceptions db @ [e]"
  "iv_dedup (AppendBinUOPException e db) = iv_dedup db" "iv_announced (AppendBinUOPException e db) = iv_announced db"
  "iv_buckets (AppendBinUOPException e db) = iv_buckets db" "iv_reservations (AppendBinUOPException e db) = iv_reservations db"
  "iv_ledger (AppendBinUOPException e db) = iv_ledger db"
  "iv_bins (announce a db) = iv_bins db" "iv_ledger (announce a db) = iv_ledger db" "iv_exceptions (announce a db) = iv_exceptions db"
  "iv_dedup (announce a db) = iv_dedup db" "iv_buckets (announce a db) = iv_buckets db"
  "iv_announced (announce a db) = iv_announced db @ [a]"
  by (simp_all add: append_ledger_def AppendBinUOPException_def announce_def)

lemma same_bins_get: "iv_bins db' = iv_bins db \<Longrightarrow> get_bin db' = get_bin db"
  by (rule ext) (simp add: get_bin_def)

lemma get_bin_append [simp]:
  "get_bin (append_ledger l db) = get_bin db" "get_bin (AppendBinUOPException e db) = get_bin db" "get_bin (announce a db) = get_bin db"
  "get_bin (db\<lparr>iv_dedup := d\<rparr>) = get_bin db" "get_bin (db\<lparr>iv_reservations := h\<rparr>) = get_bin db"
  "get_bin (db\<lparr>iv_exceptions := x\<rparr>) = get_bin db" "get_bin (db\<lparr>iv_buckets := k\<rparr>) = get_bin db"
  by (intro same_bins_get; simp)+

definition boundaries :: "inv_db \<Rightarrow> bin_id \<Rightarrow> int" where
  "boundaries db i = int (count_rows (\<lambda>e. ex_bin e = i \<and> ex_kind e = ExcBoundary) (iv_exceptions db))"

lemma AppendBinUOP_effect:
  "iv_bins (AppendBinUOP env b before after op ord payload actor db) = iv_bins db"
  "get_bin (AppendBinUOP env b before after op ord payload actor db) = get_bin db"
  "iv_dedup (AppendBinUOP env b before after op ord payload actor db) = iv_dedup db"
  "iv_announced (AppendBinUOP env b before after op ord payload actor db) = iv_announced db"
  "iv_buckets (AppendBinUOP env b before after op ord payload actor db) = iv_buckets db"
  "iv_reservations (AppendBinUOP env b before after op ord payload actor db) = iv_reservations db"
  "iv_ledger (AppendBinUOP env b before after op ord payload actor db) = iv_ledger db @ [\<lparr>lg_bin = b, lg_before = before,
     lg_after = after, lg_op = op, lg_order = ord, lg_payload = payload, lg_actor = actor, lg_at = en_now env, lg_meta = NoMeta\<rparr>]"
  "boundaries (AppendBinUOP env b before after op ord payload actor db) i =
     boundaries db i + (if i = b \<and> op \<in> set EpochBumpOps then 1 else 0)"
  by (simp_all add: AppendBinUOP_def Let_def boundaries_def count_rows_def)


section \<open>The one shape of a reset\<close>

text \<open>
  Every path that ends a bin's life writes the row, raises its epoch, tells the
  station and appends a ledger row.  \<^verbatim>\<open>reset_bin\<close> is that shape; the five
  paths of the code are shown equal to it.
\<close>

definition adjustment :: "bin_row \<Rightarrow> announcement" where
  "adjustment r = AnnAdjustment \<lparr>ua_bin = bn_id r, ua_node = bn_node r, ua_remaining = bn_uop r, ua_actor = ActorCoreLifecycle,
     ua_released = False, ua_bound = False, ua_epoch = bn_epoch r\<rparr>"

definition tell :: "inv_env \<Rightarrow> bin_row \<Rightarrow> inv_db \<Rightarrow> inv_db" where
  "tell env r db = (if bn_node r \<noteq> '''' \<and> en_wired env then announce (adjustment r) db else db)"

definition renew :: "(bin_row \<Rightarrow> bin_row) \<Rightarrow> bin_row \<Rightarrow> bin_row" where
  "renew f r = (f r)\<lparr>bn_epoch := bn_epoch (f r) + 1\<rparr>"

definition reset_bin ::
  "inv_env \<Rightarrow> bin_row \<Rightarrow> (bin_row \<Rightarrow> bin_row) \<Rightarrow> int \<Rightarrow> string \<Rightarrow> order_id option \<Rightarrow> string \<Rightarrow> string \<Rightarrow> inv_db \<Rightarrow> inv_db" where
  "reset_bin env r f u op ord payload actor db =
     AppendBinUOP env (bn_id r) (Some (bn_uop r)) u op ord payload actor (tell env (renew f r) (put_bin (bn_id r) (renew f) db))"

lemma put_bin_twice: "(\<And>r. bn_id (f r) = bn_id r) \<Longrightarrow> put_bin b g (put_bin b f db) = put_bin b (\<lambda>r. g (f r)) db"
  by (simp add: put_bin_def update_rows_def)

lemma bumpEpoch_put:
  assumes "\<And>r. bn_id (f r) = bn_id r" and "get_bin db b = Some r"
  shows "bumpEpoch env b (put_bin b f db) = Inr (tell env (renew f r) (put_bin b (renew f) db), bn_epoch (f r) + 1)"
proof -
  have id: "bn_id r = b" using get_bin_Some [OF assms(2)] by simp
  have "put_bin b (\<lambda>r. r\<lparr>bn_epoch := bn_epoch r + 1\<rparr>) (put_bin b f db) = put_bin b (renew f) db"
    by (simp add: put_bin_twice [OF assms(1)] renew_def [abs_def])
  then show ?thesis
    using assms id by (simp add: bumpEpoch_def bumpEpochRaw_def get_bin_put tell_def adjustment_def renew_def ActorCoreLifecycle_def)
qed

lemma bumpEpoch_missing: "(\<And>r. bn_id (f r) = bn_id r) \<Longrightarrow> get_bin db b = None \<Longrightarrow> bumpEpoch env b (put_bin b f db) = Inl (NoSuchBin b)"
  by (simp add: bumpEpoch_def bumpEpochRaw_def get_bin_put)

lemma ClearForReuseTx_reset:
  "ClearForReuseTx env b t op db = (case get_bin db b of
       None \<Rightarrow> Inl (NoSuchBin b)
     | Some r \<Rightarrow> Inr (reset_bin env r (\<lambda>r. (empty_bin r)\<lparr>bn_type := (if t \<noteq> None then t else bn_type r)\<rparr>) 0 op None '''' '''' db, bn_epoch r + 1))"
  by (auto simp: ClearForReuseTx_def bumpEpoch_put bumpEpoch_missing empty_bin_def reset_bin_def readBinUOPInTx_def Let_def
      split: option.splits dest: get_bin_Some)

lemma setForProductionTx_reset:
  "setForProductionTx env b man payload uop db = (case get_bin db b of
       None \<Rightarrow> Inl (NoSuchBin b)
     | Some r \<Rightarrow> Inr (reset_bin env r (\<lambda>r. r\<lparr>bn_payload := payload, bn_manifest := Some man, bn_uop := uop, bn_confirmed := False\<rparr>)
                     uop OpSetForProduction None payload '''' db, bn_epoch r + 1))"
  by (auto simp: setForProductionTx_def bumpEpoch_put bumpEpoch_missing reset_bin_def readBinUOPInTx_def Let_def
      split: option.splits dest: get_bin_Some)

lemma update_rows_only:
  assumes "distinct (map bn_id rs)" and "list_ex P rs" and "\<And>r. P r \<Longrightarrow> bn_id r = b"
  shows "update_rows P f rs = update_rows (\<lambda>r. bn_id r = b) f rs"
proof -
  obtain q where q: "q \<in> set rs" "P q" using assms(2) by (auto simp: list_ex_iff)
  have "r = q" if "r \<in> set rs" "bn_id r = b" for r
    using that q assms(1,3) by (auto simp: distinct_map inj_on_def)
  then have "P r \<longleftrightarrow> bn_id r = b" if "r \<in> set rs" for r using that q(2) assms(3) by blast
  then show ?thesis by (auto simp: update_rows_def)
qed

lemma claim_update_put:
  assumes "distinct (map bn_id (iv_bins db))" and "claim_update b ord f db = Inr db'"
  obtains r where "get_bin db b = Some r" "claimable db b ord r" "db' = put_bin b (\<lambda>r. (f r)\<lparr>bn_claimed := Some ord\<rparr>) db"
proof -
  have ex: "list_ex (claimable db b ord) (iv_bins db)" using assms(2) by (auto simp: claim_update_def split: if_splits)
  then obtain r where r: "r \<in> set (iv_bins db)" "claimable db b ord r" by (auto simp: list_ex_iff)
  have "get_bin db b = Some r" using get_bin_row [OF assms(1) r(1)] r(2) by (simp add: claimable_def)
  moreover have "db' = put_bin b (\<lambda>r. (f r)\<lparr>bn_claimed := Some ord\<rparr>) db"
    using assms ex update_rows_only [OF assms(1) ex, of b "\<lambda>r. (f r)\<lparr>bn_claimed := Some ord\<rparr>"]
    by (simp add: claim_update_def put_bin_def claimable_def)
  ultimately show ?thesis using r(2) that by blast
qed


section \<open>The ledger explains the count\<close>

text \<open>
  Rows that record an operator's number against a suggested one do not describe the
  bin's count; the others do.  \<^verbatim>\<open>explained db db'\<close>: the rows appended between the two
  lead each bin's count from the one to the other, and its epoch rose once per boundary row.
\<close>

definition side_ops :: "string list" where
  "side_ops = [OpOperatorOverridePullParts, OpOperatorOverrideReleasePartial, OpCycleCountOverCapacity]"

definition count_entry :: "bin_id \<Rightarrow> ledger_row \<Rightarrow> bool" where
  "count_entry i l = (lg_bin l = i \<and> lg_op l \<notin> set side_ops)"

fun ledger_chain :: "int \<Rightarrow> ledger_row list \<Rightarrow> int \<Rightarrow> bool" where
  "ledger_chain u [] v = (u = v)"
| "ledger_chain u (l # ls) v = (lg_before l = Some u \<and> ledger_chain (lg_after l) ls v)"

lemma ledger_chain_append: "ledger_chain u (ls @ ls') w \<longleftrightarrow> (\<exists>v. ledger_chain u ls v \<and> ledger_chain v ls' w)"
  by (induction ls arbitrary: u) auto

definition explained :: "inv_db \<Rightarrow> inv_db \<Rightarrow> bool" where
  "explained db db' \<longleftrightarrow> map bn_id (iv_bins db') = map bn_id (iv_bins db) \<and>
     (\<exists>rows. iv_ledger db' = iv_ledger db @ rows \<and>
        (\<forall>i r. get_bin db i = Some r \<longrightarrow> (\<exists>r'. get_bin db' i = Some r' \<and> ledger_chain (bn_uop r) (filter (count_entry i) rows) (bn_uop r') \<and>
           bn_epoch r' - bn_epoch r = boundaries db' i - boundaries db i \<and> bn_epoch r \<le> bn_epoch r' \<and> bn_node r' = bn_node r)))"

lemma explained_refl [simp]: "explained db db"
  by (auto simp: explained_def)

lemma explained_trans:
  assumes "explained a b" and "explained b c"
  shows "explained a c"
proof -
  obtain rs where rs: "map bn_id (iv_bins b) = map bn_id (iv_bins a)" "iv_ledger b = iv_ledger a @ rs"
    "\<And>i r. get_bin a i = Some r \<Longrightarrow> \<exists>r'. get_bin b i = Some r' \<and> ledger_chain (bn_uop r) (filter (count_entry i) rs) (bn_uop r') \<and>
       bn_epoch r' - bn_epoch r = boundaries b i - boundaries a i \<and> bn_epoch r \<le> bn_epoch r' \<and> bn_node r' = bn_node r"
    using assms(1) unfolding explained_def by blast
  obtain ss where ss: "map bn_id (iv_bins c) = map bn_id (iv_bins b)" "iv_ledger c = iv_ledger b @ ss"
    "\<And>i r. get_bin b i = Some r \<Longrightarrow> \<exists>r'. get_bin c i = Some r' \<and> ledger_chain (bn_uop r) (filter (count_entry i) ss) (bn_uop r') \<and>
       bn_epoch r' - bn_epoch r = boundaries c i - boundaries b i \<and> bn_epoch r \<le> bn_epoch r' \<and> bn_node r' = bn_node r"
    using assms(2) unfolding explained_def by blast
  have "\<exists>r'. get_bin c i = Some r' \<and> ledger_chain (bn_uop r) (filter (count_entry i) (rs @ ss)) (bn_uop r') \<and>
       bn_epoch r' - bn_epoch r = boundaries c i - boundaries a i \<and> bn_epoch r \<le> bn_epoch r' \<and> bn_node r' = bn_node r"
    if got: "get_bin a i = Some r" for i r
  proof -
    obtain q where q: "get_bin b i = Some q" "ledger_chain (bn_uop r) (filter (count_entry i) rs) (bn_uop q)"
      "bn_epoch q - bn_epoch r = boundaries b i - boundaries a i" "bn_epoch r \<le> bn_epoch q" "bn_node q = bn_node r"
      using rs(3) [OF got] by blast
    obtain r' where r': "get_bin c i = Some r'" "ledger_chain (bn_uop q) (filter (count_entry i) ss) (bn_uop r')"
      "bn_epoch r' - bn_epoch q = boundaries c i - boundaries b i" "bn_epoch q \<le> bn_epoch r'" "bn_node r' = bn_node q"
      using ss(3) [OF q(1)] by blast
    have "ledger_chain (bn_uop r) (filter (count_entry i) (rs @ ss)) (bn_uop r')"
      using q(2) r'(2) by (auto simp: ledger_chain_append)
    moreover have "bn_epoch r' - bn_epoch r = boundaries c i - boundaries a i" using q(3) r'(3) by linarith
    ultimately show ?thesis using q(4,5) r'(1,4,5) by auto
  qed
  then show ?thesis unfolding explained_def using rs(1,2) ss(1,2) by (intro conjI exI [of _ "rs @ ss"]) auto
qed

lemma explained_same:
  assumes "iv_bins db' = iv_bins db" and "iv_ledger db' = iv_ledger db" and "boundaries db' = boundaries db"
  shows "explained db db'"
  unfolding explained_def assms same_bins_get [OF assms(1)] by (intro conjI exI [of _ "[]"]) simp_all

lemma map_id_update: "(\<And>r. bn_id (f r) = bn_id r) \<Longrightarrow> map bn_id (update_rows P f rs) = map bn_id rs"
  by (auto simp: update_rows_def)

lemma explained_put:
  "(\<And>r. bn_id (f r) = bn_id r \<and> bn_uop (f r) = bn_uop r \<and> bn_epoch (f r) = bn_epoch r \<and> bn_node (f r) = bn_node r) \<Longrightarrow> explained db (put_bin b f db)"
  unfolding explained_def by (auto simp: put_bin_def map_id_update boundaries_def get_bin_put [unfolded put_bin_def])

lemma tell_fields [simp]:
  "iv_bins (tell env r db) = iv_bins db" "get_bin (tell env r db) = get_bin db" "iv_ledger (tell env r db) = iv_ledger db"
  "iv_exceptions (tell env r db) = iv_exceptions db" "iv_dedup (tell env r db) = iv_dedup db" "iv_buckets (tell env r db) = iv_buckets db"
  "iv_announced (tell env r db) = iv_announced db @ (if bn_node r \<noteq> '''' \<and> en_wired env then [adjustment r] else [])"
  by (simp_all add: tell_def)

lemma boundaries_same [simp]:
  "boundaries (tell env r db) = boundaries db" "boundaries (put_bin b f db) = boundaries db" "boundaries (append_ledger l db) = boundaries db"
  "boundaries (announce a db) = boundaries db" "boundaries (db\<lparr>iv_dedup := d\<rparr>) = boundaries db"
  "ex_kind e \<noteq> ExcBoundary \<Longrightarrow> boundaries (AppendBinUOPException e db) = boundaries db"
  by (rule ext, simp add: boundaries_def count_rows_def)+

lemma bump_ops_count: "op \<in> set EpochBumpOps \<Longrightarrow> op \<notin> set side_ops"
  by (auto simp: EpochBumpOps_def side_ops_def op_defs)

lemma explained_write:
  assumes "get_bin db b = Some r" and "iv_bins db' = iv_bins (put_bin b f db)" and "\<And>r. bn_id (f r) = bn_id r" and "bn_node (f r) = bn_node r"
    and "iv_ledger db' = iv_ledger db @ [l]" and "lg_bin l = b" and "lg_op l \<notin> set side_ops" and "lg_before l = Some (bn_uop r)"
    and "lg_after l = bn_uop (f r)" and "\<And>i. boundaries db' i = boundaries db i + (if i = b then bn_epoch (f r) - bn_epoch r else 0)"
    and "bn_epoch r \<le> bn_epoch (f r)"
  shows "explained db db'"
proof -
  have get: "get_bin db' i = (if i = b then Some (f r) else get_bin db i)" for i
    using same_bins_get [OF assms(2)] assms(1) get_bin_put [OF assms(3)] by simp
  have "map bn_id (iv_bins db') = map bn_id (iv_bins db)" unfolding assms(2) put_bin_def by (simp add: map_id_update assms(3))
  moreover have "\<exists>r'. get_bin db' i = Some r' \<and> ledger_chain (bn_uop q) (filter (count_entry i) [l]) (bn_uop r') \<and>
      bn_epoch r' - bn_epoch q = boundaries db' i - boundaries db i \<and> bn_epoch q \<le> bn_epoch r' \<and> bn_node r' = bn_node q"
    if "get_bin db i = Some q" for i q
    using that assms(1,4,6-11) by (cases "i = b") (auto simp: get count_entry_def)
  ultimately show ?thesis unfolding explained_def using assms(5) by blast
qed

lemma explained_reset:
  assumes "get_bin db b = Some r" and "\<And>r. bn_id (f r) = bn_id r" and "bn_epoch (f r) = bn_epoch r" and "bn_node (f r) = bn_node r"
    and "bn_uop (f r) = u" and "op \<in> set EpochBumpOps"
  shows "explained db (reset_bin env r f u op ord payload actor db)"
proof -
  have id: "bn_id r = b" using get_bin_Some [OF assms(1)] by simp
  show ?thesis
    by (rule explained_write [OF assms(1), where f = "renew f" and l = "\<lparr>lg_bin = b, lg_before = Some (bn_uop r),
          lg_after = u, lg_op = op, lg_order = ord, lg_payload = payload, lg_actor = actor, lg_at = en_now env, lg_meta = NoMeta\<rparr>"])
      (use assms id bump_ops_count [OF assms(6)] in \<open>simp_all add: reset_bin_def AppendBinUOP_effect renew_def\<close>)
qed

lemma explained_append_write:
  assumes "get_bin db b = Some r" and "\<And>r. bn_id (f r) = bn_id r" and "bn_epoch (f r) = bn_epoch r" and "bn_node (f r) = bn_node r"
    and "bn_uop (f r) = u" and "op \<notin> set EpochBumpOps" and "op \<notin> set side_ops"
  shows "explained db (AppendBinUOP env b (Some (bn_uop r)) u op ord payload actor (put_bin b f db))"
  by (rule explained_write [OF assms(1), where f = f and l = "\<lparr>lg_bin = b, lg_before = Some (bn_uop r),
          lg_after = u, lg_op = op, lg_order = ord, lg_payload = payload, lg_actor = actor, lg_at = en_now env, lg_meta = NoMeta\<rparr>"])
    (use assms in \<open>simp_all add: AppendBinUOP_effect\<close>)

lemma explained_row:
  assumes "lg_op l \<in> set side_ops \<or> get_bin db (lg_bin l) = None \<or>
    (\<exists>r. get_bin db (lg_bin l) = Some r \<and> lg_before l = Some (bn_uop r) \<and> lg_after l = bn_uop r)"
  shows "explained db (append_ledger l db)"
  unfolding explained_def using assms by (intro conjI exI [of _ "[l]"]) (auto simp: count_entry_def)

lemma explained_exception: "ex_kind e \<noteq> ExcBoundary \<Longrightarrow> explained db (AppendBinUOPException e db)"
  by (rule explained_same) simp_all

lemma explained_recover: "explained db (RecoverBinUOPOpenCrossing b t db)"
proof (rule explained_same)
  have "count_rows (\<lambda>e. ex_bin e = i \<and> ex_kind e = ExcBoundary) (update_rows (open_crossing b) f es) =
      count_rows (\<lambda>e. ex_bin e = i \<and> ex_kind e = ExcBoundary) es"
    if "\<And>e. ex_bin (f e) = ex_bin e \<and> ex_kind (f e) = ex_kind e" for i f es
    using that by (induction es) (auto simp: update_rows_def count_rows_def)
  then show "boundaries (RecoverBinUOPOpenCrossing b t db) = boundaries db"
    by (intro ext) (simp add: boundaries_def RecoverBinUOPOpenCrossing_def)
qed (simp_all add: RecoverBinUOPOpenCrossing_def)

definition db_ok :: "inv_db \<Rightarrow> bool" where
  "db_ok db \<longleftrightarrow> distinct (map bn_id (iv_bins db))"

lemma explained_ok: "explained db db' \<Longrightarrow> db_ok db \<Longrightarrow> db_ok db'"
  by (simp add: explained_def db_ok_def)

lemma explained_commit: "(\<And>db'. res = Inr db' \<Longrightarrow> explained db db') \<Longrightarrow> explained db (fst (commit_tx env db res))"
  by (simp add: commit_tx_def split: sum.splits)

lemma empty_bin_simps [simp]:
  "bn_id (empty_bin r) = bn_id r" "bn_uop (empty_bin r) = 0" "bn_epoch (empty_bin r) = bn_epoch r" "bn_node (empty_bin r) = bn_node r"
  "bn_locked (empty_bin r) = bn_locked r" "bn_claimed (empty_bin r) = bn_claimed r" "bn_type (empty_bin r) = bn_type r"
  by (simp_all add: empty_bin_def)

lemma partial_bin_simps [simp]:
  "bn_id (partial_bin u r) = bn_id r" "bn_uop (partial_bin u r) = u" "bn_epoch (partial_bin u r) = bn_epoch r"
  "bn_node (partial_bin u r) = bn_node r"
  by (simp_all add: partial_bin_def)

lemma flag_anomaly_simps [simp]:
  "bn_id (flag_anomaly t r) = bn_id r" "bn_uop (flag_anomaly t r) = bn_uop r" "bn_epoch (flag_anomaly t r) = bn_epoch r"
  "bn_node (flag_anomaly t r) = bn_node r" "bn_payload (flag_anomaly t r) = bn_payload r"
  by (simp_all add: flag_anomaly_def)

lemma explained_ClearTx: "ClearForReuseTx env b t op db = Inr (db', ep) \<Longrightarrow> op \<in> set EpochBumpOps \<Longrightarrow> explained db db'"
  by (auto simp: ClearForReuseTx_reset split: option.splits intro!: explained_reset)

lemma explained_setTx: "setForProductionTx env b man payload u db = Inr (db', ep) \<Longrightarrow> explained db db'"
  by (auto simp: setForProductionTx_reset EpochBumpOps_def split: option.splits intro!: explained_reset)

lemma confirm_op: "OpManifestConfirmed \<notin> set EpochBumpOps" "OpManifestConfirmed \<notin> set side_ops"
  "OpSyncUOPAndClaim \<notin> set EpochBumpOps" "OpSyncUOPAndClaim \<notin> set side_ops" "OpCycleCount \<notin> set EpochBumpOps" "OpCycleCount \<notin> set side_ops"
  by (simp_all add: EpochBumpOps_def side_ops_def op_defs)

lemma explained_confirmTx: "confirmTx env b at db = Inr db' \<Longrightarrow> explained db db'"
  by (auto simp: confirmTx_def ConfirmManifestTx_def readBinUOPInTx_def confirm_op split: option.splits intro!: explained_append_write)

lemma clearAndClaimTx_reset:
  assumes "db_ok db" and "clearAndClaimTx env b ord db = Inr db'"
  obtains r where "get_bin db b = Some r" "claimable db b ord r"
    "db' = reset_bin env r (\<lambda>r. (empty_bin r)\<lparr>bn_claimed := Some ord\<rparr>) 0 OpClearAndClaim (Some ord) '''' '''' db"
proof -
  obtain db1 where db1: "claim_update b ord empty_bin db = Inr db1"
    using assms(2) by (auto simp: clearAndClaimTx_def split: sum.splits)
  obtain r where r: "get_bin db b = Some r" "claimable db b ord r" "db1 = put_bin b (\<lambda>r. (empty_bin r)\<lparr>bn_claimed := Some ord\<rparr>) db"
    using claim_update_put [OF assms(1) [unfolded db_ok_def] db1] by blast
  have "bn_id r = b" using get_bin_Some [OF r(1)] by simp
  then show ?thesis using that [OF r(1,2)] assms(2) db1 r
    by (simp add: clearAndClaimTx_def bumpEpoch_put reset_bin_def readBinUOPInTx_def)
qed

lemma explained_clearAndClaimTx: "db_ok db \<Longrightarrow> clearAndClaimTx env b ord db = Inr db' \<Longrightarrow> explained db db'"
  by (erule (1) clearAndClaimTx_reset) (auto simp: EpochBumpOps_def intro!: explained_reset)

lemma explained_claim:
  assumes "db_ok db" and "claimUnderReservationTx env b ord remainingUOP db = Inr db'"
  shows "explained db db'"
proof -
  have plain: "explained db db1" if "claim_update b ord (\<lambda>r. r) db = Inr db1" for db1
    by (rule claim_update_put [OF assms(1) [unfolded db_ok_def] that]) (auto intro!: explained_put)
  have sync: "explained db db1" if sync1: "syncUOPAndClaimTx env b ord u db = Inr db1" for u db1
  proof -
    obtain db2 where db2: "claim_update b ord (\<lambda>r. r\<lparr>bn_uop := u\<rparr>) db = Inr db2"
      "db1 = AppendBinUOP env b (readBinUOPInTx db b) u OpSyncUOPAndClaim (Some ord) '''' '''' db2"
      using sync1 by (auto simp: syncUOPAndClaimTx_def split: sum.splits)
    obtain r where r: "get_bin db b = Some r" "db2 = put_bin b (\<lambda>r. r\<lparr>bn_uop := u, bn_claimed := Some ord\<rparr>) db"
      using claim_update_put [OF assms(1) [unfolded db_ok_def] db2(1)] by auto
    show ?thesis unfolding db2(2) r(2) using r(1) explained_append_write [OF r(1)] confirm_op by (simp add: readBinUOPInTx_def)
  qed
  show ?thesis using assms(2) plain sync explained_clearAndClaimTx [OF assms(1)]
    by (auto simp: claimUnderReservationTx_def claimBin_def split: option.splits if_splits)
qed

lemma release_op_bump: "release_op u kind fb \<in> set EpochBumpOps"
  by (simp add: release_op_def EpochBumpOps_def)

lemma release_reset:
  assumes "db_ok db" and "syncOrClearForReleased env db b ord (Some u) kind actor fb = (db', None)"
  obtains r where "get_bin db b = Some r" "releasable b ord fb r" "0 \<le> u"
    "db' = reset_bin env r (if u = 0 then empty_bin else partial_bin u) u (release_op u kind fb) (Some ord) (bn_payload r)
       (if actor = '''' then ''system'' else actor) db"
proof -
  let ?P = "releasable b ord fb" and ?f = "if u = 0 then empty_bin else partial_bin u"
  have u: "0 \<le> u" and ex: "list_ex ?P (iv_bins db)"
    using assms(2) by (auto simp: syncOrClearForReleased_def commit_tx_def Let_def split: if_splits)
  obtain r where r: "r \<in> set (iv_bins db)" "?P r" using ex by (auto simp: list_ex_iff)
  have got: "get_bin db b = Some r" using get_bin_row [OF assms(1) [unfolded db_ok_def] r(1)] r(2) by (simp add: releasable_def)
  have upd: "db\<lparr>iv_bins := update_rows ?P ?f (iv_bins db)\<rparr> = put_bin b ?f db"
    using update_rows_only [OF assms(1) [unfolded db_ok_def] ex, of b ?f] by (simp add: put_bin_def releasable_def)
  have id: "bn_id (?f q) = bn_id q" for q by simp
  have "bn_id r = b" using get_bin_Some [OF got] by simp
  then show ?thesis using that [OF got r(2) u] assms(2) u ex got upd bumpEpoch_put [OF id got]
    by (auto simp: syncOrClearForReleased_def commit_tx_def Let_def reset_bin_def readBinUOPInTx_def split: if_splits)
qed

lemma release_cases:
  "fst (syncOrClearForReleased env db b ord rem kind actor fb) = db \<or>
   (\<exists>u. rem = Some u \<and> snd (syncOrClearForReleased env db b ord rem kind actor fb) = None)"
  by (auto simp: syncOrClearForReleased_def commit_tx_def Let_def split: option.splits sum.splits if_splits)

lemma explained_release:
  assumes "db_ok db"
  shows "explained db (fst (syncOrClearForReleased env db b ord rem kind actor fb))"
proof (cases "fst (syncOrClearForReleased env db b ord rem kind actor fb) = db")
  case False
  then obtain u db' where u: "rem = Some u" "syncOrClearForReleased env db b ord rem kind actor fb = (db', None)"
    using release_cases [of env db b ord rem kind actor fb] by (metis prod.collapse)
  show ?thesis
    by (rule release_reset [OF assms u(2) [unfolded u(1)]]) (use u in \<open>auto intro!: explained_reset release_op_bump\<close>)
qed simp

lemma explained_override_row: "op \<in> set side_ops \<Longrightarrow> explained db (AppendBinUOPOverride env b x y op ord payload actor meta db)"
  unfolding AppendBinUOPOverride_def by (rule explained_row) simp

lemma explained_audit_parts: "explained db (foldl (audit_part env b ord d actor) db ps)"
proof (induction ps arbitrary: db)
  case (Cons p ps)
  have "explained db (audit_part env b ord d actor db p)"
    by (auto simp: audit_part_def Let_def side_ops_def intro!: explained_override_row)
  then show ?case using Cons.IH explained_trans by fastforce
qed simp

lemma explained_AuditReleaseOverride: "explained db (fst (AuditReleaseOverride env db b ord disp actor))"
  by (auto simp: AuditReleaseOverride_def Let_def side_ops_def split: option.splits
      intro!: explained_commit explained_override_row explained_audit_parts)

lemma explained_RecordCount:
  assumes "get_bin db (bn_id r) = Some r"
  shows "explained db (fst (RecordCount env db r actual actor))"
proof -
  let ?f = "\<lambda>r. r\<lparr>bn_uop := actual, bn_counted := Some (en_now env, actor), bn_anomaly := None\<rparr>"
  let ?db2 = "AppendBinUOP env (bn_id r) (Some (bn_uop r)) actual OpCycleCount None (bn_payload r) actor (put_bin (bn_id r) ?f db)"
  have "explained db ?db2" by (rule explained_append_write [OF assms]) (simp_all add: confirm_op)
  moreover have "explained ?db2 (AppendBinUOPOverride env (bn_id r) c actual OpCycleCountOverCapacity None (bn_payload r) actor m ?db2)" for c m
    by (rule explained_override_row) (simp add: side_ops_def)
  ultimately show ?thesis
    by (auto simp: RecordCount_def Let_def split: option.splits intro!: explained_commit intro: explained_trans)
qed


section \<open>What one reported count does\<close>

lemma claimDeltaSequence_effect:
  assumes "claimDeltaSequence k sq db = (db1, ok)"
  shows "ok \<longleftrightarrow> (case dedup_last (iv_dedup db) k of None \<Rightarrow> True | Some n \<Rightarrow> n < sq)"
    and "db1 = (if ok then db\<lparr>iv_dedup := AList.update k sq (iv_dedup db)\<rparr> else db)"
  using assms by (auto simp: claimDeltaSequence_def split: option.splits if_splits)

definition stale_rows :: "inv_env \<Rightarrow> string \<Rightarrow> BinUOPDelta \<Rightarrow> bin_row \<Rightarrow> inv_db \<Rightarrow> inv_db" where
  "stale_rows env station d r db =
     (let meta = StaleMeta (bd_epoch d) (bn_epoch r) (bd_seq d) (bd_delta d) in
      put_bin (bd_bin d) (flag_anomaly (en_now env))
        (AppendBinUOPException \<lparr>ex_kind = ExcStaleEpoch, ex_bin = bd_bin d, ex_payload = bd_payload d, ex_actor = station,
            ex_seq = None, ex_at = en_now env, ex_before = Some (bn_uop r), ex_after = Some (bn_uop r), ex_deepest = None,
            ex_recovered = None, ex_op = OpStaleEpochDropped, ex_meta = meta\<rparr>
          (AppendBinUOPOverride env (bd_bin d) (bn_uop r) (bn_uop r) OpStaleEpochDropped None (bd_payload d) station meta db)))"

lemma stale_rows_effect:
  assumes "get_bin db (bd_bin d) = Some r"
  shows "explained db (stale_rows env station d r db)"
    and "get_bin (stale_rows env station d r db) i = (if i = bd_bin d then Some (flag_anomaly (en_now env) r) else get_bin db i)"
    and "iv_dedup (stale_rows env station d r db) = iv_dedup db" "iv_announced (stale_rows env station d r db) = iv_announced db"
      "iv_buckets (stale_rows env station d r db) = iv_buckets db"
proof -
  let ?meta = "StaleMeta (bd_epoch d) (bn_epoch r) (bd_seq d) (bd_delta d)"
  obtain db1 where db1: "db1 = AppendBinUOPOverride env (bd_bin d) (bn_uop r) (bn_uop r) OpStaleEpochDropped None (bd_payload d) station ?meta db"
    by blast
  have "explained db db1" unfolding db1 AppendBinUOPOverride_def using assms by (intro explained_row) simp
  moreover have "explained db1 (stale_rows env station d r db)"
    unfolding stale_rows_def Let_def db1 [symmetric]
    by (rule explained_trans [OF explained_exception explained_put]) simp_all
  ultimately show "explained db (stale_rows env station d r db)" by (rule explained_trans)
qed (use assms in \<open>simp_all add: stale_rows_def Let_def get_bin_put AppendBinUOPOverride_def\<close>)

definition answers :: "inv_env \<Rightarrow> inv_svc \<Rightarrow> bin_row \<Rightarrow> bool" where
  "answers env s r \<longleftrightarrow> en_wired env \<and> \<not> alreadyRepaired s (bn_id r) (bn_epoch r) \<and> bn_node r \<noteq> ''''"

lemma drop_stale_eq:
  assumes "get_bin (sv_db s) (bd_bin d) = Some r"
  shows "drop_stale env station d r s =
    (if answers env s r
     then s\<lparr>sv_db := announce (AnnEpochRefresh (bd_bin d) (bn_node r) (bn_epoch r)) (stale_rows env station d r (sv_db s)),
            sv_repaired := AList.update (bd_bin d) (bn_epoch r) (sv_repaired s), sv_stale := sv_stale s + 1\<rparr>
     else s\<lparr>sv_db := stale_rows env station d r (sv_db s), sv_stale := sv_stale s + 1\<rparr>)"
proof -
  have id: "bn_id r = bd_bin d" using get_bin_Some [OF assms] by simp
  have "repairEpoch env s (bd_bin d) (bn_epoch r) (stale_rows env station d r (sv_db s)) =
      (if answers env s r
       then (announce (AnnEpochRefresh (bd_bin d) (bn_node r) (bn_epoch r)) (stale_rows env station d r (sv_db s)), True)
       else (stale_rows env station d r (sv_db s), False))"
    by (simp add: repairEpoch_def stale_rows_effect(2) [OF assms] answers_def id)
  then show ?thesis
    unfolding drop_stale_def Let_def stale_rows_def [unfolded Let_def, symmetric] by (simp add: markRepaired_def)
qed

lemma drop_stale_effect:
  assumes "get_bin (sv_db s) (bd_bin d) = Some r"
  shows "explained (sv_db s) (sv_db (drop_stale env station d r s))"
    and "get_bin (sv_db (drop_stale env station d r s)) i =
      (if i = bd_bin d then Some (flag_anomaly (en_now env) r) else get_bin (sv_db s) i)"
    and "iv_dedup (sv_db (drop_stale env station d r s)) = iv_dedup (sv_db s)"
    and "iv_announced (sv_db (drop_stale env station d r s)) = iv_announced (sv_db s) @
      (if answers env s r then [AnnEpochRefresh (bd_bin d) (bn_node r) (bn_epoch r)] else [])"
    and "sv_repaired (drop_stale env station d r s) =
      (if answers env s r then AList.update (bd_bin d) (bn_epoch r) (sv_repaired s) else sv_repaired s)"
    and "iv_buckets (sv_db (drop_stale env station d r s)) = iv_buckets (sv_db s)"
proof -
  note eff = stale_rows_effect [OF assms]
  have ann: "explained x (announce a x)" for x a by (rule explained_same) simp_all
  show "explained (sv_db s) (sv_db (drop_stale env station d r s))"
    unfolding drop_stale_eq [OF assms] using eff(1) explained_trans [OF eff(1) ann] by simp
qed (simp_all add: drop_stale_eq [OF assms] stale_rows_effect [OF assms])

lemma rejected_row:
  assumes "get_bin db b = Some r"
  shows "explained db (AppendBinUOPOverride env b (bn_uop r) (bn_uop r) op ord payload actor meta db)"
  unfolding AppendBinUOPOverride_def using assms by (intro explained_row) simp

lemma explained_if: "explained db (f db) \<Longrightarrow> explained db (if c then f db else db)"
  by simp

lemma recordRejectedDelta_effect:
  assumes "get_bin (sv_db s) (bd_bin d) = Some r"
  shows "explained (sv_db s) (sv_db (recordRejectedDelta env station d r s))"
    and "get_bin (sv_db (recordRejectedDelta env station d r s)) i =
      (if i = bd_bin d then Some (if en_obs_flag env then flag_anomaly (en_now env) r else r) else get_bin (sv_db s) i)"
    and "iv_dedup (sv_db (recordRejectedDelta env station d r s)) = iv_dedup (sv_db s)"
    and "iv_announced (sv_db (recordRejectedDelta env station d r s)) = iv_announced (sv_db s)"
    and "sv_repaired (recordRejectedDelta env station d r s) = sv_repaired s"
    and "iv_buckets (sv_db (recordRejectedDelta env station d r s)) = iv_buckets (sv_db s)"
proof -
  let ?meta = "MismatchMeta (bd_payload d) (bn_payload r) (bd_seq d) (bd_delta d)"
  let ?row = "AppendBinUOPOverride env (bd_bin d) (bn_uop r) (bn_uop r) OpPayloadMismatchDropped None (bd_payload d) station ?meta"
  let ?e = "\<lparr>ex_kind = ExcPayloadMismatch, ex_bin = bd_bin d, ex_payload = bd_payload d,
      ex_actor = station, ex_seq = None, ex_at = en_now env, ex_before = Some (bn_uop r), ex_after = Some (bn_uop r),
      ex_deepest = None, ex_recovered = None, ex_op = OpPayloadMismatchDropped, ex_meta = ?meta\<rparr>"
  let ?f = "\<lambda>r. r\<lparr>bn_anomaly := Some (en_now env)\<rparr>"
  obtain db1 where db1: "db1 = (if en_obs_row env then ?row (sv_db s) else sv_db s)" by blast
  obtain db2 where db2: "db2 = (if en_obs_exc env then AppendBinUOPException ?e db1 else db1)" by blast
  have rej: "recordRejectedDelta env station d r s =
      s\<lparr>sv_db := (if bn_anomaly r = None \<and> en_obs_flag env then put_bin (bd_bin d) ?f db2 else db2), sv_mismatch := sv_mismatch s + 1\<rparr>"
    unfolding recordRejectedDelta_def Let_def db2 db1 by (rule refl)
  have "explained (sv_db s) db1" unfolding db1 by (rule explained_if) (rule rejected_row [OF assms])
  moreover have "explained db1 db2" unfolding db2 by (rule explained_if) (rule explained_exception, simp)
  moreover have "explained db2 (sv_db (recordRejectedDelta env station d r s))"
    unfolding rej by (simp add: explained_put)
  ultimately show "explained (sv_db s) (sv_db (recordRejectedDelta env station d r s))" by (blast intro: explained_trans)
  have got2: "get_bin db2 = get_bin (sv_db s)" by (simp add: db2 db1 AppendBinUOPOverride_def)
  have "?f r = flag_anomaly (en_now env) r" if "bn_anomaly r = None" using that by (simp add: flag_anomaly_def)
  moreover have "flag_anomaly (en_now env) r = r" if "bn_anomaly r \<noteq> None" using that by (cases r) (auto simp: flag_anomaly_def)
  ultimately show "get_bin (sv_db (recordRejectedDelta env station d r s)) i =
      (if i = bd_bin d then Some (if en_obs_flag env then flag_anomaly (en_now env) r else r) else get_bin (sv_db s) i)"
    unfolding rej by (auto simp: get_bin_put got2 assms)
  show "iv_dedup (sv_db (recordRejectedDelta env station d r s)) = iv_dedup (sv_db s)"
    "iv_announced (sv_db (recordRejectedDelta env station d r s)) = iv_announced (sv_db s)"
    "sv_repaired (recordRejectedDelta env station d r s) = sv_repaired s"
    "iv_buckets (sv_db (recordRejectedDelta env station d r s)) = iv_buckets (sv_db s)"
    unfolding rej by (simp_all add: db2 db1 AppendBinUOPOverride_def)
qed

lemma bind_payload_effect:
  assumes "get_bin db (bd_bin d) = Some r" and "bind_payload env station d r db = (db', p)"
  shows "explained db db'" and "iv_dedup db' = iv_dedup db" and "iv_announced db' = iv_announced db" and "iv_buckets db' = iv_buckets db"
    and "i \<noteq> bd_bin d \<Longrightarrow> get_bin db' i = get_bin db i"
    and "\<exists>t. get_bin db' (bd_bin d) = Some (r\<lparr>bn_payload := p, bn_anomaly := t\<rparr>)"
    and "p = (if bd_reason d = ReasonProduceTick \<and> bd_payload d \<noteq> '''' then bd_payload d else bn_payload r)"
proof -
  let ?f = "\<lambda>r. r\<lparr>bn_payload := bd_payload d\<rparr>" and ?g = "\<lambda>r. flag_anomaly (en_now env) (r\<lparr>bn_payload := bd_payload d\<rparr>)"
  have obs: "explained db (AppendBinUOPOverride env (bd_bin d) (bn_uop r) (bn_uop r) op None q station m (put_bin (bd_bin d) h db))"
    if "\<And>r. bn_id (h r) = bn_id r \<and> bn_uop (h r) = bn_uop r \<and> bn_epoch (h r) = bn_epoch r \<and> bn_node (h r) = bn_node r" for h op q m
    using explained_trans [OF explained_put [OF that] rejected_row [of "put_bin (bd_bin d) h db" "bd_bin d" "h r"]] that assms(1)
    by (simp add: get_bin_put)
  show "explained db db'" using assms(2) obs [of ?f] obs [of ?g] by (auto simp: bind_payload_def split: if_splits)
  have same: "r = r\<lparr>bn_payload := bn_payload r, bn_anomaly := bn_anomaly r\<rparr>"
    "r\<lparr>bn_payload := q\<rparr> = r\<lparr>bn_payload := q, bn_anomaly := bn_anomaly r\<rparr>" for q by (cases r; simp)+
  have flag: "?g r = r\<lparr>bn_payload := bd_payload d, bn_anomaly := bn_anomaly (?g r)\<rparr>" by (simp add: flag_anomaly_def)
  show "\<exists>t. get_bin db' (bd_bin d) = Some (r\<lparr>bn_payload := p, bn_anomaly := t\<rparr>)"
  proof (cases "bd_reason d = ReasonProduceTick \<and> bd_payload d \<noteq> '''' \<and> bn_payload r \<noteq> bd_payload d \<and> bn_uop r \<noteq> 0")
    case True
    then show ?thesis using assms flag
      by (intro exI [of _ "bn_anomaly (?g r)"]) (auto simp: bind_payload_def get_bin_put AppendBinUOPOverride_def)
  next
    case False
    then show ?thesis using assms same
      by (intro exI [of _ "bn_anomaly r"]) (auto simp: bind_payload_def get_bin_put AppendBinUOPOverride_def split: if_splits)
  qed
qed (use assms in \<open>auto simp: bind_payload_def get_bin_put AppendBinUOPOverride_def split: if_splits\<close>)

definition clears :: "inv_env \<Rightarrow> BinUOPDelta \<Rightarrow> int \<Rightarrow> bool" where
  "clears env d u \<longleftrightarrow> bd_reason d = ReasonCaptureReduction \<and> u + bd_delta d \<le> 0 \<and> en_clearer env"

definition counted_row :: "inv_env \<Rightarrow> BinUOPDelta \<Rightarrow> bin_row \<Rightarrow> bin_row" where
  "counted_row env d r =
     (if clears env d (bn_uop r) then renew empty_bin (r\<lparr>bn_uop := bn_uop r + bd_delta d\<rparr>) else r\<lparr>bn_uop := bn_uop r + bd_delta d\<rparr>)"

lemma record_crossing_fields [simp]:
  "iv_bins (record_crossing env station d u m db) = iv_bins db" "iv_ledger (record_crossing env station d u m db) = iv_ledger db"
  "iv_dedup (record_crossing env station d u m db) = iv_dedup db" "iv_announced (record_crossing env station d u m db) = iv_announced db"
  "iv_buckets (record_crossing env station d u m db) = iv_buckets db" "get_bin (record_crossing env station d u m db) = get_bin db"
  by (simp_all add: record_crossing_def RecoverBinUOPOpenCrossing_def Let_def)

lemma explained_crossing: "explained db (record_crossing env station d u m db)"
  by (auto simp: record_crossing_def Let_def intro!: explained_recover explained_exception)

lemma apply_count_effect:
  assumes "get_bin db (bd_bin d) = Some q" and "bn_uop q = bn_uop r"
  shows "\<exists>db'. apply_count env station d r db = Inr db' \<and> explained db db' \<and> iv_dedup db' = iv_dedup db \<and> iv_buckets db' = iv_buckets db \<and>
    (\<forall>i. get_bin db' i = (if i = bd_bin d then Some (counted_row env d q) else get_bin db i)) \<and>
    iv_announced db' = iv_announced db @
      (if clears env d (bn_uop q) \<and> bn_node q \<noteq> '''' \<and> en_wired env then [adjustment (counted_row env d q)] else [])"
proof -
  let ?meta = "DeltaMeta (bd_reason d) (bd_delta d) (bd_seq d) (bd_epoch d) (bn_epoch r)"
  let ?f = "\<lambda>r. r\<lparr>bn_uop := bn_uop r + bd_delta d\<rparr>"
  let ?l = "\<lparr>lg_bin = bd_bin d, lg_before = Some (bn_uop r), lg_after = bn_uop r + bd_delta d, lg_op = OpBinUOPDelta,
      lg_order = None, lg_payload = bd_payload d, lg_actor = station, lg_at = en_now env, lg_meta = ?meta\<rparr>"
  obtain db2 where db2: "db2 = append_ledger ?l (put_bin (bd_bin d) ?f db)" by blast
  obtain db3 where db3: "db3 = record_crossing env station d (bn_uop r) ?meta db2" by blast
  have "explained db db2"
    by (rule explained_write [OF assms(1), where f = ?f and l = ?l]) (simp_all add: db2 assms(2) side_ops_def op_defs)
  then have e3: "explained db db3" using explained_crossing explained_trans unfolding db3 by blast
  have got3: "get_bin db3 i = (if i = bd_bin d then Some (?f q) else get_bin db i)" for i
    by (simp add: db3 db2 get_bin_put assms(1))
  have other: "iv_dedup db3 = iv_dedup db" "iv_buckets db3 = iv_buckets db" "iv_announced db3 = iv_announced db" by (simp_all add: db3 db2)
  have res: "apply_count env station d r db = (if clears env d (bn_uop q)
      then map_sum id fst (ClearForReuseTx env (bd_bin d) None OpReleasedCaptureEmpty db3) else Inr db3)"
    unfolding apply_count_def Let_def db2 [symmetric] db3 [symmetric] by (simp add: clears_def assms(2))
  show ?thesis
  proof (cases "clears env d (bn_uop q)")
    case False
    then show ?thesis using res e3 other got3 by (auto simp: counted_row_def)
  next
    case True
    let ?g = "\<lambda>r. (empty_bin r)\<lparr>bn_type := (if (None :: int option) \<noteq> None then None else bn_type r)\<rparr>"
    have g: "?g = empty_bin" by (rule ext) (simp add: empty_bin_def)
    obtain db4 where db4: "db4 = reset_bin env (?f q) empty_bin 0 OpReleasedCaptureEmpty None '''' '''' db3" by blast
    have clear: "ClearForReuseTx env (bd_bin d) None OpReleasedCaptureEmpty db3 = Inr (db4, bn_epoch (?f q) + 1)"
      unfolding ClearForReuseTx_reset g by (simp add: got3 db4)
    have id: "bn_id q = bd_bin d" using get_bin_Some [OF assms(1)] by simp
    have "explained db3 db4" using explained_ClearTx [OF clear] by (simp add: EpochBumpOps_def)
    then have "explained db db4" using e3 explained_trans by blast
    moreover have "get_bin db4 i = (if i = bd_bin d then Some (counted_row env d q) else get_bin db i)" for i
      using True id by (simp add: db4 reset_bin_def AppendBinUOP_effect get_bin_put renew_def got3 counted_row_def)
    moreover have "iv_announced db4 = iv_announced db @ (if bn_node q \<noteq> '''' \<and> en_wired env then [adjustment (counted_row env d q)] else [])"
      using True by (simp add: db4 reset_bin_def AppendBinUOP_effect other counted_row_def renew_def)
    moreover have "iv_dedup db4 = iv_dedup db \<and> iv_buckets db4 = iv_buckets db" by (simp add: db4 reset_bin_def AppendBinUOP_effect other)
    ultimately show ?thesis using res True clear by auto
  qed
qed

text \<open>
  The decision the applier takes on a count for an existing bin, as a table: a
  retired generation, a number already seen, a payload the bin does not hold, or
  an application.
\<close>

datatype verdict = VStale | VReplay | VMismatch | VApplied

definition delta_key :: "string \<Rightarrow> BinUOPDelta \<Rightarrow> dedup_key" where
  "delta_key station d = (station, ''bin'', format_int (bd_bin d), bd_epoch d)"

definition delta_verdict :: "inv_db \<Rightarrow> string \<Rightarrow> BinUOPDelta \<Rightarrow> bin_row \<Rightarrow> verdict" where
  "delta_verdict db station d r =
     (if 0 < bd_epoch d \<and> bd_epoch d < bn_epoch r then VStale
      else if (case dedup_last (iv_dedup db) (delta_key station d) of None \<Rightarrow> False | Some n \<Rightarrow> bd_seq d \<le> n) then VReplay
      else if bd_reason d \<noteq> ReasonProduceTick \<and> bd_payload d \<noteq> '''' \<and> bn_payload r \<noteq> '''' \<and> bd_payload d \<noteq> bn_payload r then VMismatch
      else VApplied)"

definition bound_payload :: "BinUOPDelta \<Rightarrow> bin_row \<Rightarrow> string" where
  "bound_payload d r = (if bd_reason d = ReasonProduceTick \<and> bd_payload d \<noteq> '''' then bd_payload d else bn_payload r)"

definition applied_to :: "inv_env \<Rightarrow> string \<Rightarrow> BinUOPDelta \<Rightarrow> bin_row \<Rightarrow> inv_svc \<Rightarrow> inv_svc \<Rightarrow> bool" where
  "applied_to env station d r s s' \<longleftrightarrow>
     explained (sv_db s) (sv_db s') \<and> sv_repaired s' = sv_repaired s \<and> iv_buckets (sv_db s') = iv_buckets (sv_db s) \<and>
     iv_dedup (sv_db s') = AList.update (delta_key station d) (bd_seq d) (iv_dedup (sv_db s)) \<and>
     (\<exists>t. let q = r\<lparr>bn_payload := bound_payload d r, bn_anomaly := t\<rparr> in
       (\<forall>i. get_bin (sv_db s') i = (if i = bd_bin d then Some (counted_row env d q) else get_bin (sv_db s) i)) \<and>
       iv_announced (sv_db s') = iv_announced (sv_db s) @
         (if clears env d (bn_uop r) \<and> bn_node r \<noteq> '''' \<and> en_wired env then [adjustment (counted_row env d q)] else []))"

lemma ApplyBinUOPDelta_verdict:
  assumes "station \<noteq> ''''" and "0 < bd_bin d" and "en_db env" and got: "get_bin (sv_db s) (bd_bin d) = Some r"
  shows "case delta_verdict (sv_db s) station d r of
      VStale \<Rightarrow> ApplyBinUOPDelta env s station d = (drop_stale env station d r s, Some DeltaSkipped)
    | VReplay \<Rightarrow> ApplyBinUOPDelta env s station d = (s, Some DeltaSkipped)
    | VMismatch \<Rightarrow> ApplyBinUOPDelta env s station d = (recordRejectedDelta env station d r s, Some (PayloadMismatch (bd_payload d) (bn_payload r)))
    | VApplied \<Rightarrow> (\<exists>s'. ApplyBinUOPDelta env s station d = (s', None) \<and> applied_to env station d r s s')"
proof (cases "0 < bd_epoch d \<and> bd_epoch d < bn_epoch r")
  case True
  then show ?thesis using assms by (simp add: ApplyBinUOPDelta_def delta_verdict_def)
next
  case live: False
  obtain db1 ok where claim: "claimDeltaSequence (delta_key station d) (bd_seq d) (sv_db s) = (db1, ok)" by fastforce
  note ok = claimDeltaSequence_effect [OF claim]
  show ?thesis
  proof (cases ok)
    case False
    then show ?thesis using assms live claim ok
      by (auto simp: ApplyBinUOPDelta_def delta_verdict_def delta_key_def [symmetric] split: option.splits)
  next
    case True
    have got1: "get_bin db1 (bd_bin d) = Some r" using ok(2) True got by simp
    obtain db2 p where bind: "bind_payload env station d r db1 = (db2, p)" by fastforce
    note be = bind_payload_effect [OF got1 bind]
    obtain t where got2: "get_bin db2 (bd_bin d) = Some (r\<lparr>bn_payload := p, bn_anomaly := t\<rparr>)" using be(6) by blast
    have p: "p = bound_payload d r" using be(7) by (simp add: bound_payload_def)
    have fresh: "\<not> (case dedup_last (iv_dedup (sv_db s)) (delta_key station d) of None \<Rightarrow> False | Some n \<Rightarrow> bd_seq d \<le> n)"
      using ok(1) True by (auto split: option.splits)
    have run: "ApplyBinUOPDelta env s station d =
        (if bd_payload d \<noteq> '''' \<and> p \<noteq> '''' \<and> bd_payload d \<noteq> p
         then (recordRejectedDelta env station d r s, Some (PayloadMismatch (bd_payload d) p))
         else (case apply_count env station d r db2 of Inl e \<Rightarrow> (s, Some e) | Inr db3 \<Rightarrow> (s\<lparr>sv_db := db3\<rparr>, None)))"
      using assms claim True bind live by (auto simp: ApplyBinUOPDelta_def delta_key_def [symmetric])
    show ?thesis
    proof (cases "bd_payload d \<noteq> '''' \<and> p \<noteq> '''' \<and> bd_payload d \<noteq> p")
      case mm: True
      then have "delta_verdict (sv_db s) station d r = VMismatch" "p = bn_payload r"
        using live fresh p by (auto simp: delta_verdict_def bound_payload_def split: if_splits)
      then show ?thesis using run mm by simp
    next
      case good: False
      have v: "delta_verdict (sv_db s) station d r = VApplied"
        using live fresh good p by (auto simp: delta_verdict_def bound_payload_def split: if_splits)
      let ?q = "r\<lparr>bn_payload := p, bn_anomaly := t\<rparr>"
      obtain db3 where db3: "apply_count env station d r db2 = Inr db3" "explained db2 db3" "iv_dedup db3 = iv_dedup db2"
        "iv_buckets db3 = iv_buckets db2" "\<And>i. get_bin db3 i = (if i = bd_bin d then Some (counted_row env d ?q) else get_bin db2 i)"
        "iv_announced db3 = iv_announced db2 @
          (if clears env d (bn_uop r) \<and> bn_node r \<noteq> '''' \<and> en_wired env then [adjustment (counted_row env d ?q)] else [])"
        using apply_count_effect [OF got2, of r env station] by auto
      have e1: "explained (sv_db s) db1" using ok(2) True by (auto intro!: explained_same)
      have same1: "iv_buckets db1 = iv_buckets (sv_db s)" "iv_announced db1 = iv_announced (sv_db s)" "get_bin db1 = get_bin (sv_db s)"
        "iv_dedup db1 = AList.update (delta_key station d) (bd_seq d) (iv_dedup (sv_db s))" using ok(2) True by simp_all
      have "explained (sv_db s) db3" using e1 be(1) db3(2) explained_trans by blast
      then have "applied_to env station d r s (s\<lparr>sv_db := db3\<rparr>)"
        unfolding applied_to_def Let_def using db3 be same1 p by (intro conjI exI [of _ t]) auto
      then show ?thesis using run good db3(1) v by simp
    qed
  qed
qed

lemma ApplyBinUOPDelta_other:
  assumes "station = '''' \<or> bd_bin d \<le> 0 \<or> \<not> en_db env \<or> get_bin (sv_db s) (bd_bin d) = None"
  shows "fst (ApplyBinUOPDelta env s station d) = s \<and> snd (ApplyBinUOPDelta env s station d) \<noteq> None"
  using assms by (auto simp: ApplyBinUOPDelta_def split: option.splits prod.splits bool.splits)

end
