(* ===== verification/LedgerRuns.thy ===== *)
theory LedgerRuns
  imports BinLedger
begin

text \<open>
  Runs of Core's inventory services: every public operation of \<^verbatim>\<open>BinLedger\<close> is an input,
  and a run feeds a list of inputs, each with its own environment, to the tables.  The
  theory shows what every input keeps (the ledger explains the count, the
  sequence table only grows, an epoch rises only with its announcement) and draws the
  properties of whole runs from it.
\<close>

section \<open>Inputs\<close>

datatype inv_input =
    InClearForReuse bin_id "int option"
  | InSetForProduction bin_id manifest string int
  | InSetFromTemplate bin_id string "int option"
  | InConfirm bin_id string
  | InRecordProduced bin_id manifest string int string
  | InRecordProducedTemplate bin_id string "int option" string
  | InUnconfirm bin_id
  | InClearAndClaim bin_id order_id
  | InSyncUOPAndClaim bin_id order_id int
  | InConfirmClaim bin_id order_id "int option"
  | InConfirmHeld order_id bin_id
  | InReserve bin_id order_id
  | InClaimForDispatch bin_id order_id "int option"
  | InRelease bin_id order_id "int option" string string
  | InReleaseNoOwner bin_id order_id "int option" string
  | InOverride bin_id order_id "UOPDisposition option" string
  | InCount bin_id int string
  | InBucketDelta string LinesideBucketDelta
  | InDeleteBucket int
  | InBinDelta string BinUOPDelta

fun db_apply :: "inv_env \<Rightarrow> inv_db \<Rightarrow> inv_input \<Rightarrow> inv_db" where
  "db_apply env db (InClearForReuse b t) = fst (ClearForReuse env db b t)"
| "db_apply env db (InSetForProduction b man p u) = fst (SetForProduction env db b man p u)"
| "db_apply env db (InSetFromTemplate b p u) = fst (SetFromTemplate env db b p u)"
| "db_apply env db (InConfirm b at) = fst (ConfirmBin env db b at)"
| "db_apply env db (InRecordProduced b man p u at) = fst (RecordProducedBin env db b man p u at)"
| "db_apply env db (InRecordProducedTemplate b p u at) = fst (RecordProducedBinFromTemplate env db b p u at)"
| "db_apply env db (InUnconfirm b) = fst (Unconfirm env db b)"
| "db_apply env db (InClearAndClaim b ord) = fst (ClearAndClaim env db b ord)"
| "db_apply env db (InSyncUOPAndClaim b ord u) = fst (SyncUOPAndClaim env db b ord u)"
| "db_apply env db (InConfirmClaim b ord rem) = fst (ConfirmClaim env db b ord rem)"
| "db_apply env db (InConfirmHeld ord b) = fst (ConfirmHeldReservation env db ord b)"
| "db_apply env db (InReserve b ord) = fst (ReserveForDispatch env db b ord)"
| "db_apply env db (InClaimForDispatch b ord rem) = fst (ClaimForDispatch env db b ord rem)"
| "db_apply env db (InRelease b ord rem kind actor) = fst (SyncOrClearForReleased env db b ord rem kind actor)"
| "db_apply env db (InReleaseNoOwner b ord rem actor) = fst (SyncOrClearForReleasedNoOwner env db b ord rem actor)"
| "db_apply env db (InOverride b ord disp actor) = fst (AuditReleaseOverride env db b ord disp actor)"
| "db_apply env db (InCount b u actor) = (case get_bin db b of None \<Rightarrow> db | Some r \<Rightarrow> fst (RecordCount env db r u actor))"
| "db_apply env db (InBucketDelta station d) = fst (ApplyLinesideBucketDelta env db station d)"
| "db_apply env db (InDeleteBucket i) = fst (DeleteLinesideBucket env db i)"
| "db_apply env db (InBinDelta station d) = db"

fun inv_apply :: "inv_env \<Rightarrow> inv_svc \<Rightarrow> inv_input \<Rightarrow> inv_svc" where
  "inv_apply env s (InBinDelta station d) = fst (ApplyBinUOPDelta env s station d)"
| "inv_apply env s inp = s\<lparr>sv_db := db_apply env (sv_db s) inp\<rparr>"

fun inv_run :: "inv_svc \<Rightarrow> (inv_env \<times> inv_input) list \<Rightarrow> inv_svc" where
  "inv_run s [] = s"
| "inv_run s ((env, inp) # ins) = inv_run (inv_apply env s inp) ins"

lemma inv_run_append: "inv_run s (xs @ ys) = inv_run (inv_run s xs) ys"
  by (induction xs arbitrary: s) auto


section \<open>What one input keeps\<close>

definition quiet :: "inv_db \<Rightarrow> inv_db \<Rightarrow> bool" where
  "quiet db db' \<longleftrightarrow> explained db db' \<and> iv_announced db' = iv_announced db \<and> iv_dedup db' = iv_dedup db \<and> boundaries db' = boundaries db"

definition told :: "inv_env \<Rightarrow> inv_db \<Rightarrow> inv_db \<Rightarrow> announcement list \<Rightarrow> bool" where
  "told env db db' anns \<longleftrightarrow> (\<forall>i r r'. get_bin db i = Some r \<longrightarrow> get_bin db' i = Some r' \<longrightarrow> bn_epoch r' \<noteq> bn_epoch r \<longrightarrow>
     bn_epoch r' = bn_epoch r + 1 \<and> (en_wired env \<and> bn_node r' \<noteq> '''' \<longrightarrow> anns = [adjustment r']))"

definition bin_dedup_le :: "inv_db \<Rightarrow> inv_db \<Rightarrow> bool" where
  "bin_dedup_le db db' \<longleftrightarrow> (\<forall>st key ep n. dedup_last (iv_dedup db) (st, ''bin'', key, ep) = Some n \<longrightarrow>
     (\<exists>n'. dedup_last (iv_dedup db') (st, ''bin'', key, ep) = Some n' \<and> n \<le> n'))"

definition is_adjustment :: "announcement \<Rightarrow> bool" where
  "is_adjustment a = (case a of AnnAdjustment x \<Rightarrow> True | AnnEpochRefresh b n e \<Rightarrow> False)"

definition op_ok :: "inv_env \<Rightarrow> inv_db \<Rightarrow> inv_db \<Rightarrow> bool" where
  "op_ok env db db' \<longleftrightarrow> explained db db' \<and> bin_dedup_le db db' \<and>
     (\<exists>anns. iv_announced db' = iv_announced db @ anns \<and> list_all is_adjustment anns \<and> told env db db' anns)"

lemma explainedD:
  assumes "explained db db'" and "get_bin db i = Some r"
  obtains r' where "get_bin db' i = Some r'" "bn_epoch r' - bn_epoch r = boundaries db' i - boundaries db i" "bn_epoch r \<le> bn_epoch r'"
    "bn_node r' = bn_node r"
  using assms unfolding explained_def by blast

lemma bin_dedup_le_refl [simp]: "bin_dedup_le db db"
  by (simp add: bin_dedup_le_def)

lemma bin_dedup_le_same: "iv_dedup db' = iv_dedup db \<Longrightarrow> bin_dedup_le db db'"
  by (simp add: bin_dedup_le_def)

lemma bin_dedup_le_trans: "bin_dedup_le a b \<Longrightarrow> bin_dedup_le b c \<Longrightarrow> bin_dedup_le a c"
  unfolding bin_dedup_le_def by (meson order.trans)

lemma quiet_refl [simp]: "quiet db db"
  by (simp add: quiet_def)

lemma quiet_trans: "quiet a b \<Longrightarrow> quiet b c \<Longrightarrow> quiet a c"
  by (auto simp: quiet_def intro: explained_trans)

lemma quiet_epoch: "quiet db db' \<Longrightarrow> get_bin db i = Some r \<Longrightarrow> get_bin db' i = Some r' \<Longrightarrow> bn_epoch r' = bn_epoch r"
  by (auto simp: quiet_def elim!: explainedD [of db db' i r])

lemma quiet_op_ok: "quiet db db' \<Longrightarrow> op_ok env db db'"
  unfolding op_ok_def told_def using quiet_epoch by (auto simp: quiet_def bin_dedup_le_same intro!: exI [of _ "[]"])

lemma op_ok_refl [simp]: "op_ok env db db"
  by (rule quiet_op_ok) simp

text \<open>A reset followed by writes that leave the count alone is still one reset.\<close>

lemma op_ok_quiet:
  assumes "op_ok env a b" and "quiet b c" and same: "\<And>i r r'. get_bin b i = Some r \<Longrightarrow> get_bin c i = Some r' \<Longrightarrow> bn_uop r' = bn_uop r"
  shows "op_ok env a c"
proof -
  obtain anns where anns: "iv_announced b = iv_announced a @ anns" "list_all is_adjustment anns" "told env a b anns"
    using assms(1) by (auto simp: op_ok_def)
  have "told env a c anns" unfolding told_def
  proof (intro allI impI)
    fix i r r' assume r: "get_bin a i = Some r" "get_bin c i = Some r'" "bn_epoch r' \<noteq> bn_epoch r"
    obtain q where q: "get_bin b i = Some q" using assms(1) r(1) by (auto simp: op_ok_def elim: explainedD)
    have eq: "bn_epoch r' = bn_epoch q" "bn_node r' = bn_node q" "bn_uop r' = bn_uop q" "bn_id r' = bn_id q"
      using quiet_epoch [OF assms(2) q r(2)] same [OF q r(2)] get_bin_Some [OF q] get_bin_Some [OF r(2)] assms(2) q r(2)
      by (auto simp: quiet_def elim!: explainedD [of b c i q])
    then have "adjustment r' = adjustment q" by (simp add: adjustment_def)
    then show "bn_epoch r' = bn_epoch r + 1 \<and> (en_wired env \<and> bn_node r' \<noteq> '''' \<longrightarrow> anns = [adjustment r'])"
      using anns(3) r eq q unfolding told_def by metis
  qed
  moreover have "explained a c" "bin_dedup_le a c"
    using assms(1,2) by (auto simp: op_ok_def quiet_def bin_dedup_le_def intro: explained_trans)
  ultimately show ?thesis using anns assms(2) by (auto simp: op_ok_def quiet_def)
qed

lemma op_ok_reset:
  assumes "get_bin db b = Some r" and "\<And>r. bn_id (f r) = bn_id r" and "bn_epoch (f r) = bn_epoch r" and "bn_node (f r) = bn_node r"
    and "bn_uop (f r) = u" and "op \<in> set EpochBumpOps"
  shows "op_ok env db (reset_bin env r f u op ord payload actor db)"
proof -
  have id: "bn_id r = b" using get_bin_Some [OF assms(1)] by simp
  let ?db' = "reset_bin env r f u op ord payload actor db"
  let ?anns = "if bn_node (renew f r) \<noteq> '''' \<and> en_wired env then [adjustment (renew f r)] else []"
  have renew_id: "bn_id (renew f q) = bn_id q" for q by (simp add: renew_def assms(2))
  have got: "get_bin ?db' i = (if i = b then Some (renew f r) else get_bin db i)" for i
    by (simp add: reset_bin_def AppendBinUOP_effect id get_bin_put renew_id assms(1))
  have "iv_announced ?db' = iv_announced db @ ?anns" "iv_dedup ?db' = iv_dedup db"
    by (simp_all add: reset_bin_def AppendBinUOP_effect)
  moreover have "told env db ?db' ?anns"
    unfolding told_def got using assms(1,3) by (auto simp: renew_def)
  moreover have "list_all is_adjustment ?anns" by (simp add: adjustment_def is_adjustment_def)
  ultimately show ?thesis using explained_reset [OF assms, of env ord payload actor] by (auto simp: op_ok_def bin_dedup_le_same)
qed

lemma op_ok_commit: "(\<And>db'. res = Inr db' \<Longrightarrow> op_ok env db db') \<Longrightarrow> op_ok env db (fst (commit_tx env db res))"
  by (simp add: commit_tx_def split: sum.splits)

lemma quiet_commit: "(\<And>db'. res = Inr db' \<Longrightarrow> quiet db db') \<Longrightarrow> quiet db (fst (commit_tx env db res))"
  by (simp add: commit_tx_def split: sum.splits)

lemma op_ok_ClearTx: "ClearForReuseTx env b t op db = Inr (db', ep) \<Longrightarrow> op \<in> set EpochBumpOps \<Longrightarrow> op_ok env db db'"
  by (auto simp: ClearForReuseTx_reset split: option.splits intro!: op_ok_reset)

lemma op_ok_setTx: "setForProductionTx env b man payload u db = Inr (db', ep) \<Longrightarrow> op_ok env db db'"
  by (auto simp: setForProductionTx_reset EpochBumpOps_def split: option.splits intro!: op_ok_reset)

lemma quiet_confirmTx: "confirmTx env b at db = Inr db' \<Longrightarrow> quiet db db'"
  using explained_confirmTx [of env b at db db']
  by (auto simp: quiet_def confirmTx_def ConfirmManifestTx_def AppendBinUOP_effect confirm_op split: option.splits)

lemma confirmTx_uop: "confirmTx env b at db = Inr db' \<Longrightarrow> get_bin db i = Some r \<Longrightarrow> get_bin db' i = Some r' \<Longrightarrow> bn_uop r' = bn_uop r"
  by (auto simp: confirmTx_def ConfirmManifestTx_def AppendBinUOP_effect get_bin_put split: option.splits if_splits)

lemma op_ok_clearAndClaimTx: "db_ok db \<Longrightarrow> clearAndClaimTx env b ord db = Inr db' \<Longrightarrow> op_ok env db db'"
  by (erule (1) clearAndClaimTx_reset) (auto simp: EpochBumpOps_def intro!: op_ok_reset)

lemma quiet_append_write:
  assumes "get_bin db b = Some r" and "\<And>r. bn_id (f r) = bn_id r" and "bn_epoch (f r) = bn_epoch r" and "bn_node (f r) = bn_node r"
    and "bn_uop (f r) = u" and "op \<notin> set EpochBumpOps" and "op \<notin> set side_ops"
  shows "quiet db (AppendBinUOP env b (Some (bn_uop r)) u op ord payload actor (put_bin b f db))"
  using explained_append_write [OF assms, of env ord payload actor] assms(6)
  by (auto simp: quiet_def AppendBinUOP_effect)

lemma quiet_put:
  "(\<And>r. bn_id (f r) = bn_id r \<and> bn_uop (f r) = bn_uop r \<and> bn_epoch (f r) = bn_epoch r \<and> bn_node (f r) = bn_node r) \<Longrightarrow> quiet db (put_bin b f db)"
  by (simp add: quiet_def explained_put)

lemma quiet_reservations: "quiet db (db\<lparr>iv_reservations := h\<rparr>)"
  unfolding quiet_def by (auto simp: boundaries_def intro!: explained_same)

lemma quiet_syncTx:
  assumes "db_ok db" and "syncUOPAndClaimTx env b ord u db = Inr db'"
  shows "quiet db db'"
proof -
  obtain db2 where db2: "claim_update b ord (\<lambda>r. r\<lparr>bn_uop := u\<rparr>) db = Inr db2"
    "db' = AppendBinUOP env b (readBinUOPInTx db b) u OpSyncUOPAndClaim (Some ord) '''' '''' db2"
    using assms(2) by (auto simp: syncUOPAndClaimTx_def split: sum.splits)
  obtain r where r: "get_bin db b = Some r" "db2 = put_bin b (\<lambda>r. r\<lparr>bn_uop := u, bn_claimed := Some ord\<rparr>) db"
    using claim_update_put [OF assms(1) [unfolded db_ok_def] db2(1)] by auto
  show ?thesis unfolding db2(2) r(2) using r(1) quiet_append_write [OF r(1)] confirm_op by (simp add: readBinUOPInTx_def)
qed

lemma op_ok_claim:
  assumes "db_ok db" and "claimUnderReservationTx env b ord rem db = Inr db'"
  shows "op_ok env db db'"
proof -
  have plain: "quiet db db1" if "claim_update b ord (\<lambda>r. r) db = Inr db1" for db1
    by (rule claim_update_put [OF assms(1) [unfolded db_ok_def] that]) (auto intro!: quiet_put)
  show ?thesis
    using assms(2) plain quiet_syncTx [OF assms(1), of env b ord] op_ok_clearAndClaimTx [OF assms(1), of env b ord]
    by (auto simp: claimUnderReservationTx_def claimBin_def split: option.splits if_splits intro: quiet_op_ok)
qed

lemma op_ok_reservations: "op_ok env db db' \<Longrightarrow> op_ok env db (db'\<lparr>iv_reservations := h\<rparr>)"
  by (erule op_ok_quiet [OF _ quiet_reservations]) simp

lemma op_ok_claimAndConfirm: "db_ok db \<Longrightarrow> op_ok env db (fst (claimAndConfirm env db b ord rem))"
  unfolding claimAndConfirm_def
  by (rule op_ok_commit) (auto split: sum.splits intro: op_ok_reservations op_ok_claim)

lemma quiet_reserve: "quiet db (fst (reserve env db b ord tag))"
  unfolding reserve_def by (rule quiet_commit) (auto split: sum.splits intro: quiet_reservations)

lemma db_ok_reserve: "db_ok (fst (reserve env db b ord tag)) = db_ok db"
  using quiet_reserve [of db env b ord tag] by (simp add: quiet_def explained_def db_ok_def)

lemma quiet_before:
  assumes "quiet a b" and "op_ok env b c"
  shows "op_ok env a c"
proof -
  obtain anns where anns: "iv_announced c = iv_announced b @ anns" "list_all is_adjustment anns" "told env b c anns"
    using assms(2) by (auto simp: op_ok_def)
  have "told env a c anns" unfolding told_def
  proof (intro allI impI)
    fix i r r' assume r: "get_bin a i = Some r" "get_bin c i = Some r'" "bn_epoch r' \<noteq> bn_epoch r"
    obtain q where q: "get_bin b i = Some q" using assms(1) r(1) by (auto simp: quiet_def elim: explainedD)
    then show "bn_epoch r' = bn_epoch r + 1 \<and> (en_wired env \<and> bn_node r' \<noteq> '''' \<longrightarrow> anns = [adjustment r'])"
      using quiet_epoch [OF assms(1) r(1) q] r anns(3) unfolding told_def by metis
  qed
  moreover have "explained a c" "bin_dedup_le a c"
    using assms by (auto simp: op_ok_def quiet_def bin_dedup_le_def intro: explained_trans)
  ultimately show ?thesis using anns assms(1) by (auto simp: op_ok_def quiet_def)
qed

lemma op_ok_ClaimForDispatch:
  assumes "db_ok db"
  shows "op_ok env db (fst (ClaimForDispatch env db b ord rem))"
proof (cases "reserve env db b ord ''ClaimForDispatch''")
  case (Pair db1 e)
  have q: "quiet db db1" using quiet_reserve [of db env b ord "''ClaimForDispatch''"] Pair by simp
  have "db_ok db1" using db_ok_reserve [of env db b ord "''ClaimForDispatch''"] Pair assms by simp
  then have "op_ok env db (fst (claimAndConfirm env db1 b ord rem))" by (rule quiet_before [OF q op_ok_claimAndConfirm])
  moreover have "op_ok env db db1" by (rule quiet_op_ok [OF q])
  ultimately show ?thesis using Pair
    by (cases "claimAndConfirm env db1 b ord rem") (auto simp: ClaimForDispatch_def split: option.splits intro: op_ok_reservations)
qed

lemma op_ok_release:
  assumes "db_ok db"
  shows "op_ok env db (fst (syncOrClearForReleased env db b ord rem kind actor fb))"
proof (cases "fst (syncOrClearForReleased env db b ord rem kind actor fb) = db")
  case False
  then obtain u db' where u: "rem = Some u" "syncOrClearForReleased env db b ord rem kind actor fb = (db', None)"
    using release_cases [of env db b ord rem kind actor fb] by (metis prod.collapse)
  show ?thesis
    by (rule release_reset [OF assms u(2) [unfolded u(1)]]) (use u in \<open>auto intro!: op_ok_reset release_op_bump\<close>)
qed simp

lemma quiet_row: "op \<in> set side_ops \<Longrightarrow> quiet db (AppendBinUOPOverride env b x y op ord payload actor meta db)"
  by (simp add: quiet_def explained_override_row) (simp add: AppendBinUOPOverride_def)

lemma quiet_audit_parts: "quiet db (foldl (audit_part env b ord d actor) db ps)"
proof (induction ps arbitrary: db)
  case (Cons p ps)
  have "quiet db (audit_part env b ord d actor db p)"
    by (auto simp: audit_part_def Let_def side_ops_def intro!: quiet_row)
  then show ?case using Cons.IH quiet_trans by fastforce
qed simp

lemma quiet_AuditReleaseOverride: "quiet db (fst (AuditReleaseOverride env db b ord disp actor))"
  by (auto simp: AuditReleaseOverride_def Let_def side_ops_def split: option.splits
      intro!: quiet_commit quiet_row quiet_audit_parts)

lemma quiet_RecordCount:
  assumes "get_bin db (bn_id r) = Some r"
  shows "quiet db (fst (RecordCount env db r actual actor))"
proof -
  let ?f = "\<lambda>r. r\<lparr>bn_uop := actual, bn_counted := Some (en_now env, actor), bn_anomaly := None\<rparr>"
  let ?db2 = "AppendBinUOP env (bn_id r) (Some (bn_uop r)) actual OpCycleCount None (bn_payload r) actor (put_bin (bn_id r) ?f db)"
  have "quiet db ?db2" by (rule quiet_append_write [OF assms]) (simp_all add: confirm_op)
  moreover have "quiet ?db2 (AppendBinUOPOverride env (bn_id r) c actual OpCycleCountOverCapacity None (bn_payload r) actor m ?db2)" for c m
    by (rule quiet_row) (simp add: side_ops_def)
  ultimately show ?thesis
    by (auto simp: RecordCount_def Let_def split: option.splits intro!: quiet_commit intro: quiet_trans)
qed

lemma op_ok_same_bins:
  assumes "iv_bins db' = iv_bins db" and "iv_ledger db' = iv_ledger db" and "iv_exceptions db' = iv_exceptions db"
    and "iv_announced db' = iv_announced db" and "bin_dedup_le db db'"
  shows "op_ok env db db'"
proof -
  have "boundaries db' = boundaries db" by (intro ext) (simp add: boundaries_def assms(3))
  then have "explained db db'" using assms by (intro explained_same) auto
  then show ?thesis using assms(4,5) by (auto simp: op_ok_def told_def same_bins_get [OF assms(1)] intro!: exI [of _ "[]"])
qed

lemma upsert_bucket_fields:
  "upsert_bucket station d db = Inr db' \<Longrightarrow> iv_bins db' = iv_bins db \<and> iv_ledger db' = iv_ledger db \<and>
     iv_exceptions db' = iv_exceptions db \<and> iv_announced db' = iv_announced db \<and> iv_dedup db' = iv_dedup db"
  by (auto simp: upsert_bucket_def split: if_splits)

lemma dedup_last_update: "dedup_last (AList.update k n t) k' = (if k' = k then Some n else dedup_last t k')"
  by (simp add: dedup_last_def update_conv')

lemma op_ok_bucket: "op_ok env db (fst (ApplyLinesideBucketDelta env db station d))"
proof -
  let ?k = "(station, ''bucket'', core_bucketScopeKey (ld_node d) (ld_pair d) (ld_style d) (ld_part d), 0)"
  obtain db1 ok where claim: "claimDeltaSequence ?k (ld_seq d) db = (db1, ok)" by fastforce
  have "bin_dedup_le db db1" using claimDeltaSequence_effect(2) [OF claim] by (auto simp: bin_dedup_le_def dedup_last_update)
  moreover have "iv_bins db1 = iv_bins db" "iv_ledger db1 = iv_ledger db" "iv_exceptions db1 = iv_exceptions db" "iv_announced db1 = iv_announced db"
    using claimDeltaSequence_effect(2) [OF claim] by simp_all
  ultimately have "op_ok env db (db2\<lparr>iv_buckets := ks\<rparr>)" if "upsert_bucket station d db1 = Inr db2" for db2 ks
    using upsert_bucket_fields [OF that] by (intro op_ok_same_bins) (auto simp: bin_dedup_le_def)
  then show ?thesis
    by (auto simp: ApplyLinesideBucketDelta_def claim split: sum.splits bool.splits if_splits intro!: op_ok_commit)
qed

lemma op_ok_delete_bucket: "op_ok env db (fst (DeleteLinesideBucket env db i))"
proof -
  have keep: "dedup_last (filter (\<lambda>((st, kd, sk, ep), sq). kd = ''bucket'' \<longrightarrow> P st sk) t) (st', ''bin'', k', ep') =
      dedup_last t (st', ''bin'', k', ep')" for P t st' k' ep'
    by (induction t) (auto simp: dedup_last_def)
  show ?thesis
    by (auto simp: DeleteLinesideBucket_def Let_def split: option.splits intro!: op_ok_same_bins) (simp add: bin_dedup_le_def keep)
qed

lemma map_sum_Inr: "map_sum id fst x = Inr y \<longleftrightarrow> (\<exists>z. x = Inr (y, z))"
  by (cases x) auto

lemma db_apply_ok:
  assumes "db_ok db"
  shows "op_ok env db (db_apply env db inp)"
proof (cases inp)
  case (InClearForReuse b t)
  then show ?thesis by (auto simp: ClearForReuse_def map_sum_Inr EpochBumpOps_def intro!: op_ok_commit elim!: op_ok_ClearTx)
next
  case (InRecordProduced b man p u at)
  have "op_ok env db (fst (RecordProducedBin env db b man p u at))" unfolding RecordProducedBin_def
    by (rule op_ok_commit) (auto split: sum.splits intro: op_ok_quiet [OF op_ok_setTx quiet_confirmTx] confirmTx_uop)
  then show ?thesis using InRecordProduced by simp
next
  case (InRecordProducedTemplate b p u at)
  have "op_ok env db (fst (RecordProducedBin env db b man p v at))" for man v unfolding RecordProducedBin_def
    by (rule op_ok_commit) (auto split: sum.splits intro: op_ok_quiet [OF op_ok_setTx quiet_confirmTx] confirmTx_uop)
  then show ?thesis using InRecordProducedTemplate by (auto simp: RecordProducedBinFromTemplate_def split: sum.splits)
next
  case (InCount b u actor)
  then show ?thesis using quiet_RecordCount [of db _ env u actor] get_bin_Some [of db b]
    by (auto split: option.splits intro!: quiet_op_ok)
qed (auto simp: ClearForReuse_def SetForProduction_def SetFromTemplate_def ConfirmBin_def Unconfirm_def ClearAndClaim_def
    SyncUOPAndClaim_def ConfirmClaim_def ConfirmHeldReservation_def ReserveForDispatch_def SyncOrClearForReleased_def
    SyncOrClearForReleasedNoOwner_def EpochBumpOps_def map_sum_Inr split: sum.splits intro!: op_ok_commit op_ok_claimAndConfirm
    op_ok_ClaimForDispatch op_ok_release quiet_op_ok [OF quiet_AuditReleaseOverride] quiet_op_ok [OF quiet_reserve]
    op_ok_bucket op_ok_delete_bucket quiet_op_ok [OF quiet_put] quiet_op_ok [OF quiet_reservations]
    intro: op_ok_ClearTx op_ok_setTx quiet_op_ok quiet_confirmTx op_ok_clearAndClaimTx quiet_syncTx assms)

section \<open>What a reported count keeps\<close>

lemma counted_row_fields:
  "bn_id (counted_row env d q) = bn_id q" "bn_node (counted_row env d q) = bn_node q"
  "bn_epoch (counted_row env d q) = bn_epoch q + (if clears env d (bn_uop q) then 1 else 0)"
  by (simp_all add: counted_row_def renew_def)

lemma dedup_update_le:
  assumes "iv_dedup db' = AList.update k n (iv_dedup db)" and "case dedup_last (iv_dedup db) k of None \<Rightarrow> True | Some m \<Rightarrow> m \<le> n"
  shows "bin_dedup_le db db'"
  using assms by (auto simp: bin_dedup_le_def dedup_last_update)

lemma op_ok_applied:
  assumes "get_bin (sv_db s) (bd_bin d) = Some r" and "applied_to env station d r s s'" and "delta_verdict (sv_db s) station d r = VApplied"
  shows "op_ok env (sv_db s) (sv_db s')"
proof -
  obtain t q where q: "q = r\<lparr>bn_payload := bound_payload d r, bn_anomaly := t\<rparr>"
    "\<And>i. get_bin (sv_db s') i = (if i = bd_bin d then Some (counted_row env d q) else get_bin (sv_db s) i)"
    "iv_announced (sv_db s') = iv_announced (sv_db s) @
       (if clears env d (bn_uop r) \<and> bn_node r \<noteq> '''' \<and> en_wired env then [adjustment (counted_row env d q)] else [])"
    using assms(2) unfolding applied_to_def Let_def by blast
  have row: "bn_uop q = bn_uop r" "bn_epoch q = bn_epoch r" "bn_node q = bn_node r" by (simp_all add: q(1))
  have "bin_dedup_le (sv_db s) (sv_db s')"
    using assms(2,3) by (intro dedup_update_le [where k = "delta_key station d" and n = "bd_seq d"])
      (auto simp: applied_to_def delta_verdict_def split: option.splits if_splits)
  moreover have "told env (sv_db s) (sv_db s')
      (if clears env d (bn_uop r) \<and> bn_node r \<noteq> '''' \<and> en_wired env then [adjustment (counted_row env d q)] else [])"
    unfolding told_def q(2) using assms(1) row by (auto simp: counted_row_fields split: if_splits)
  ultimately show ?thesis using assms(2) q(3) unfolding op_ok_def applied_to_def
    by (intro conjI exI) (auto simp: adjustment_def is_adjustment_def)
qed

lemma op_ok_rejected:
  assumes "get_bin (sv_db s) (bd_bin d) = Some r"
  shows "op_ok env (sv_db s) (sv_db (recordRejectedDelta env station d r s))"
  unfolding op_ok_def told_def using recordRejectedDelta_effect [OF assms, of env station] assms
  by (auto simp: bin_dedup_le_same intro!: exI [of _ "[]"] split: if_splits)

lemma stale: "delta_verdict db station d r = VStale \<Longrightarrow> bd_epoch d < bn_epoch r"
  by (simp add: delta_verdict_def split: if_splits)

lemma applied_repaired: "applied_to env station d r s s' \<Longrightarrow> sv_repaired s' = sv_repaired s"
  by (simp add: applied_to_def)

text \<open>Every input either is an operation in the sense of \<^verbatim>\<open>op_ok\<close> or drops a stale count.\<close>

lemma inv_apply_cases:
  assumes "db_ok (sv_db s)"
  shows "(op_ok env (sv_db s) (sv_db (inv_apply env s inp)) \<and> sv_repaired (inv_apply env s inp) = sv_repaired s) \<or>
    (\<exists>station d r. inp = InBinDelta station d \<and> get_bin (sv_db s) (bd_bin d) = Some r \<and> bd_epoch d < bn_epoch r \<and>
       inv_apply env s inp = drop_stale env station d r s)"
proof (cases inp)
  case (InBinDelta station d)
  show ?thesis
  proof (cases "station = '''' \<or> bd_bin d \<le> 0 \<or> \<not> en_db env \<or> get_bin (sv_db s) (bd_bin d) = None")
    case True
    then show ?thesis using ApplyBinUOPDelta_other [of station d env s] InBinDelta by simp
  next
    case False
    then obtain r where r: "station \<noteq> ''''" "0 < bd_bin d" "en_db env" "get_bin (sv_db s) (bd_bin d) = Some r" by auto
    show ?thesis
      using ApplyBinUOPDelta_verdict [OF r] InBinDelta r(4) op_ok_rejected [OF r(4), of env station]
        recordRejectedDelta_effect(5) [OF r(4), of env station] op_ok_applied [OF r(4), of env station]
        stale [of "sv_db s" station d r] applied_repaired [of env station d r s]
      by (cases "delta_verdict (sv_db s) station d r") auto
  qed
qed (use db_apply_ok [OF assms, of env inp] in auto)

lemma inv_apply_keeps:
  assumes "db_ok (sv_db s)"
  shows "explained (sv_db s) (sv_db (inv_apply env s inp))" and "bin_dedup_le (sv_db s) (sv_db (inv_apply env s inp))"
  using inv_apply_cases [OF assms, of env inp] drop_stale_effect(1,3) by (auto simp: op_ok_def bin_dedup_le_same)

lemma inv_run_keeps:
  assumes "db_ok (sv_db s)"
  shows "explained (sv_db s) (sv_db (inv_run s ins)) \<and> bin_dedup_le (sv_db s) (sv_db (inv_run s ins)) \<and> db_ok (sv_db (inv_run s ins))"
  using assms
proof (induction s ins rule: inv_run.induct)
  case (2 s env inp ins)
  note one = inv_apply_keeps [OF 2(2), of env inp]
  show ?case using 2(1) [OF explained_ok [OF one(1) 2(2)]] one by (auto intro: explained_trans bin_dedup_le_trans)
qed simp

section \<open>Replies to stale counts\<close>

definition refreshes :: "announcement list \<Rightarrow> (bin_id \<times> int) list" where
  "refreshes anns = concat (map (\<lambda>a. case a of AnnAdjustment x \<Rightarrow> [] | AnnEpochRefresh b n e \<Rightarrow> [(b, e)]) anns)"

lemma refreshes_append [simp]: "refreshes (xs @ ys) = refreshes xs @ refreshes ys"
  by (simp add: refreshes_def)

lemma refreshes_adjustments: "list_all is_adjustment xs \<Longrightarrow> refreshes xs = []"
  by (induction xs) (auto simp: refreshes_def is_adjustment_def split: announcement.splits)

text \<open>A reply was sent for a generation that has ended, or the debounce map remembers it.\<close>

definition replies_ok :: "inv_svc \<Rightarrow> bool" where
  "replies_ok s \<longleftrightarrow> distinct (refreshes (iv_announced (sv_db s))) \<and>
     (\<forall>(b, e) \<in> set (refreshes (iv_announced (sv_db s))). \<exists>r. get_bin (sv_db s) b = Some r \<and>
        (e < bn_epoch r \<or> e = bn_epoch r \<and> map_of (sv_repaired s) b = Some e))"

lemma replies_ok_op:
  assumes "replies_ok s" and "op_ok env (sv_db s) (sv_db s')" and "sv_repaired s' = sv_repaired s"
  shows "replies_ok s'"
proof -
  have same: "refreshes (iv_announced (sv_db s')) = refreshes (iv_announced (sv_db s))"
    using assms(2) by (auto simp: op_ok_def refreshes_adjustments)
  have "\<exists>r. get_bin (sv_db s') b = Some r \<and> (e < bn_epoch r \<or> e = bn_epoch r \<and> map_of (sv_repaired s') b = Some e)"
    if in_b: "(b, e) \<in> set (refreshes (iv_announced (sv_db s)))" for b e
  proof -
    obtain r where r: "get_bin (sv_db s) b = Some r" "e < bn_epoch r \<or> e = bn_epoch r \<and> map_of (sv_repaired s) b = Some e"
      using assms(1) in_b unfolding replies_ok_def by fast
    obtain r' where "get_bin (sv_db s') b = Some r'" "bn_epoch r \<le> bn_epoch r'"
      using assms(2) r(1) by (auto simp: op_ok_def elim: explainedD)
    then show ?thesis using r(2) assms(3) by auto
  qed
  then show ?thesis using assms(1) same unfolding replies_ok_def by auto
qed

lemma replies_ok_drop:
  assumes "replies_ok s" and r: "get_bin (sv_db s) (bd_bin d) = Some r"
  shows "replies_ok (drop_stale env station d r s)"
proof -
  note eff = drop_stale_effect [OF r, of env station]
  have id: "bn_id r = bd_bin d" using get_bin_Some [OF r] by simp
  have fresh: "(bd_bin d, bn_epoch r) \<notin> set (refreshes (iv_announced (sv_db s)))" if "answers env s r"
  proof
    assume "(bd_bin d, bn_epoch r) \<in> set (refreshes (iv_announced (sv_db s)))"
    then have "map_of (sv_repaired s) (bd_bin d) = Some (bn_epoch r)" using assms(1) r unfolding replies_ok_def by fastforce
    then show False using that by (simp add: answers_def alreadyRepaired_def id)
  qed
  let ?s = "drop_stale env station d r s"
  have anns: "refreshes (iv_announced (sv_db ?s)) =
      refreshes (iv_announced (sv_db s)) @ (if answers env s r then [(bd_bin d, bn_epoch r)] else [])"
    unfolding eff(4) by (simp add: refreshes_def)
  have "\<exists>q. get_bin (sv_db ?s) b = Some q \<and> (e < bn_epoch q \<or> e = bn_epoch q \<and> map_of (sv_repaired ?s) b = Some e)"
    if in_b: "(b, e) \<in> set (refreshes (iv_announced (sv_db ?s)))" for b e
  proof (cases "(b, e) \<in> set (refreshes (iv_announced (sv_db s)))")
    case True
    then obtain q where "get_bin (sv_db s) b = Some q" "e < bn_epoch q \<or> e = bn_epoch q \<and> map_of (sv_repaired s) b = Some e"
      using assms(1) unfolding replies_ok_def by fast
    then show ?thesis using r unfolding eff(2,5) by (cases "b = bd_bin d") (auto simp: update_conv')
  next
    case False
    then show ?thesis using in_b unfolding anns eff(2,5) by (auto simp: update_conv' split: if_splits)
  qed
  moreover have "distinct (refreshes (iv_announced (sv_db ?s)))"
    using assms(1) fresh unfolding anns replies_ok_def by auto
  ultimately show ?thesis unfolding replies_ok_def by auto
qed

lemma replies_ok_run:
  assumes "db_ok (sv_db s)" and "replies_ok s"
  shows "replies_ok (inv_run s ins)"
  using assms
proof (induction s ins rule: inv_run.induct)
  case (2 s env inp ins)
  have "replies_ok (inv_apply env s inp)"
    using inv_apply_cases [OF 2(2), of env inp] replies_ok_op [OF 2(3), of env] replies_ok_drop [OF 2(3)] by auto
  then show ?case using 2(1) explained_ok [OF inv_apply_keeps(1) [OF 2(2)] 2(2)] by simp
qed simp

section \<open>Lineside buckets\<close>

definition bucket_ident :: "lineside_bucket \<Rightarrow> string \<times> string \<times> int \<times> string" where
  "bucket_ident k = (lb_node k, lb_pair k, lb_style k, lb_part k)"

definition delta_ident :: "LinesideBucketDelta \<Rightarrow> string \<times> string \<times> int \<times> string" where
  "delta_ident d = (ld_node d, ld_pair d, ld_style d, ld_part d)"

definition buckets_ok :: "inv_db \<Rightarrow> bool" where
  "buckets_ok db \<longleftrightarrow> distinct (map bucket_ident (iv_buckets db)) \<and> list_all (\<lambda>k. 0 < lb_qty k) (iv_buckets db)"

definition bucket_qty :: "inv_db \<Rightarrow> string \<times> string \<times> int \<times> string \<Rightarrow> int" where
  "bucket_qty db i = sum_list (map lb_qty (filter (\<lambda>k. bucket_ident k = i) (iv_buckets db)))"

lemma same_bucket_ident: "same_bucket d = (\<lambda>k. bucket_ident k = delta_ident d)"
  by (auto simp: same_bucket_def bucket_ident_def delta_ident_def)

lemma ident_update:
  "(\<And>k. bucket_ident (f k) = bucket_ident k) \<Longrightarrow> map bucket_ident (update_rows P f ks) = map bucket_ident ks"
  by (induction ks) (auto simp: update_rows_def)

lemma qty_one:
  assumes "distinct (map bucket_ident ks)" and "k \<in> set ks"
  shows "sum_list (map lb_qty (filter (\<lambda>k'. bucket_ident k' = bucket_ident k) ks)) = lb_qty k"
proof -
  obtain xs ys where ks: "ks = xs @ k # ys" using assms(2) by (auto dest: split_list)
  have "bucket_ident k \<notin> bucket_ident ` set (xs @ ys)" using assms(1) by (auto simp: ks)
  then have "\<forall>k'\<in>set (xs @ ys). bucket_ident k' \<noteq> bucket_ident k" by (metis imageI)
  then have "filter (\<lambda>k'. bucket_ident k' = bucket_ident k) xs = []" and "filter (\<lambda>k'. bucket_ident k' = bucket_ident k) ys = []"
    by simp_all
  then show ?thesis by (simp add: ks)
qed

lemma qty_absent: "\<not> list_ex (\<lambda>k. bucket_ident k = i) (iv_buckets db) \<Longrightarrow> bucket_qty db i = 0"
  by (simp add: bucket_qty_def list_ex_iff filter_empty_conv)

lemma qty_present:
  assumes "buckets_ok db" and "list_ex (\<lambda>k. bucket_ident k = i) (iv_buckets db)"
  obtains k where "k \<in> set (iv_buckets db)" "bucket_ident k = i" "bucket_qty db i = lb_qty k" "0 < lb_qty k"
proof -
  obtain k where k: "k \<in> set (iv_buckets db)" "bucket_ident k = i" using assms(2) by (auto simp: list_ex_iff)
  have "bucket_qty db i = lb_qty k" "0 < lb_qty k"
    using assms(1) k(1) qty_one [of "iv_buckets db" k] by (simp_all add: buckets_ok_def bucket_qty_def list_all_iff flip: k(2))
  then show ?thesis using k that by blast
qed

lemma qty_update:
  assumes "\<And>k. bucket_ident (f k) = bucket_ident k" and "\<And>k. lb_qty (f k) = lb_qty k + n"
  shows "sum_list (map lb_qty (filter (\<lambda>k. bucket_ident k = i) (update_rows (\<lambda>k. bucket_ident k = j) f ks))) =
    sum_list (map lb_qty (filter (\<lambda>k. bucket_ident k = i) ks)) +
    (if i = j then int (length (filter (\<lambda>k. bucket_ident k = i) ks)) * n else 0)"
  using assms by (induction ks) (auto simp: update_rows_def algebra_simps)

lemma qty_gc: "sum_list (map lb_qty (filter P (delete_rows (\<lambda>k. Q k \<and> lb_qty k = 0) ks))) = sum_list (map lb_qty (filter P ks))"
  by (induction ks) (auto simp: delete_rows_def)

lemma one_bucket_row:
  assumes "distinct (map bucket_ident ks)" and "list_ex (\<lambda>k. bucket_ident k = i) ks"
  shows "length (filter (\<lambda>k. bucket_ident k = i) ks) = 1"
  using assms
proof (induction ks)
  case (Cons k ks)
  have "filter (\<lambda>k. bucket_ident k = i) ks = []" if ki: "bucket_ident k = i"
  proof -
    have "i \<notin> bucket_ident ` set ks" using Cons.prems(1) ki by simp
    then have "\<forall>k\<in>set ks. bucket_ident k \<noteq> i" by (metis imageI)
    then show ?thesis by simp
  qed
  then show ?case using Cons by (cases "bucket_ident k = i") simp_all
qed simp

text \<open>The insert-or-update of the bucket table: it fails exactly on an underflow, and otherwise adds the delta.\<close>

lemma upsert_spec:
  assumes "buckets_ok db" and "0 \<le> ld_delta d \<or> list_ex (same_bucket d) (iv_buckets db)"
  shows "if bucket_qty db (delta_ident d) + ld_delta d < 0 then upsert_bucket station d db = Inl BucketUnderflow
    else \<exists>db'. upsert_bucket station d db = Inr db' \<and> distinct (map bucket_ident (iv_buckets db')) \<and>
      list_all (\<lambda>k. 0 < lb_qty k \<or> bucket_ident k = delta_ident d \<and> lb_qty k = 0) (iv_buckets db') \<and> iv_dedup db' = iv_dedup db \<and>
      (\<forall>i. bucket_qty db' i = bucket_qty db i + (if i = delta_ident d then ld_delta d else 0))"
proof (cases "list_ex (\<lambda>k. bucket_ident k = delta_ident d) (iv_buckets db)")
  case True
  let ?f = "\<lambda>k. k\<lparr>lb_qty := lb_qty k + ld_delta d, lb_payload := (if ld_payload d = '''' then lb_payload k else ld_payload d), lb_station := station\<rparr>"
  let ?ks = "update_rows (\<lambda>k. bucket_ident k = delta_ident d) ?f (iv_buckets db)"
  have keeps: "bucket_ident (?f k) = bucket_ident k" "lb_qty (?f k) = lb_qty k + ld_delta d" for k by (simp_all add: bucket_ident_def)
  obtain k where k: "k \<in> set (iv_buckets db)" "bucket_ident k = delta_ident d" "bucket_qty db (delta_ident d) = lb_qty k"
    by (rule qty_present [OF assms(1) True])
  have only: "lb_qty q = lb_qty k" if "q \<in> set (iv_buckets db)" "bucket_ident q = delta_ident d" for q
    using qty_one [of "iv_buckets db" q] that assms(1) k(3) by (simp add: buckets_ok_def bucket_qty_def)
  have under: "list_ex (\<lambda>q. bucket_ident q = delta_ident d \<and> lb_qty q + ld_delta d < 0) (iv_buckets db) \<longleftrightarrow> lb_qty k + ld_delta d < 0"
    unfolding list_ex_iff using k(1,2) only by metis
  have "distinct (map bucket_ident ?ks)" using assms(1) by (subst ident_update) (simp_all add: buckets_ok_def bucket_ident_def)
  moreover have "list_all (\<lambda>k. 0 < lb_qty k \<or> bucket_ident k = delta_ident d \<and> lb_qty k = 0) ?ks" if "0 \<le> lb_qty k + ld_delta d"
    using assms(1) that only by (auto simp: list_all_iff update_rows_def buckets_ok_def bucket_ident_def)
  moreover have "bucket_qty (db\<lparr>iv_buckets := ?ks\<rparr>) i = bucket_qty db i + (if i = delta_ident d then ld_delta d else 0)" for i
    using one_bucket_row [OF _ True] assms(1) qty_update [of ?f "ld_delta d" i "delta_ident d" "iv_buckets db", OF keeps]
    by (auto simp: bucket_qty_def buckets_ok_def)
  ultimately show ?thesis using True under k(3)
    by (simp add: upsert_bucket_def same_bucket_ident not_less del: split_paired_All)
next
  case False
  have fresh: "delta_ident d \<notin> set (map bucket_ident (iv_buckets db))" using False by (auto simp: list_ex_iff)
  let ?k = "\<lparr>lb_id = iv_bucket_next db, lb_station = station, lb_node = ld_node d, lb_pair = ld_pair d, lb_style = ld_style d,
      lb_part = ld_part d, lb_qty = max (ld_delta d) 0, lb_payload = ld_payload d\<rparr>"
  have pos: "0 \<le> ld_delta d" using assms(2) False by (simp add: same_bucket_ident)
  have ident: "bucket_ident \<lparr>lb_id = n, lb_station = station, lb_node = ld_node d, lb_pair = ld_pair d, lb_style = ld_style d,
      lb_part = ld_part d, lb_qty = q, lb_payload = ld_payload d\<rparr> = delta_ident d" for n q by (simp add: bucket_ident_def delta_ident_def)
  have "bucket_qty (db\<lparr>iv_buckets := iv_buckets db @ [?k], iv_bucket_next := n\<rparr>) i =
      bucket_qty db i + (if i = delta_ident d then ld_delta d else 0)" for i n
    using pos by (auto simp: bucket_qty_def ident)
  moreover have "list_all (\<lambda>k. 0 < lb_qty k \<or> bucket_ident k = delta_ident d \<and> lb_qty k = 0) (iv_buckets db @ [?k])"
    using assms(1) pos by (auto simp: buckets_ok_def list_all_iff ident)
  ultimately show ?thesis using False assms(1) fresh pos qty_absent [OF False]
    by (simp add: upsert_bucket_def same_bucket_ident buckets_ok_def ident del: split_paired_All)
qed

definition bucket_fresh :: "inv_db \<Rightarrow> string \<Rightarrow> LinesideBucketDelta \<Rightarrow> bool" where
  "bucket_fresh db station d =
     (case dedup_last (iv_dedup db) (station, ''bucket'', core_bucketScopeKey (ld_node d) (ld_pair d) (ld_style d) (ld_part d), 0) of
        None \<Rightarrow> True | Some n \<Rightarrow> n < ld_seq d)"

definition bucket_wellformed :: "inv_env \<Rightarrow> inv_db \<Rightarrow> string \<Rightarrow> LinesideBucketDelta \<Rightarrow> bool" where
  "bucket_wellformed env db station d \<longleftrightarrow>
     station \<noteq> '''' \<and> ld_node d \<noteq> '''' \<and> ld_part d \<noteq> '''' \<and> ld_node d \<in> set (iv_nodes db) \<and> en_db env \<and> bucket_fresh db station d"

lemma bucket_delta_refused:
  assumes "\<not> bucket_wellformed env db station d"
  shows "fst (ApplyLinesideBucketDelta env db station d) = db \<and> snd (ApplyLinesideBucketDelta env db station d) \<noteq> None"
proof (cases "station = '''' \<or> ld_node d = '''' \<or> ld_part d = '''' \<or> ld_node d \<notin> set (iv_nodes db)")
  case True
  then show ?thesis by (auto simp: ApplyLinesideBucketDelta_def)
next
  case ok: False
  have bad: "fst (commit_tx env db res) = db \<and> snd (commit_tx env db res) \<noteq> None" if "\<not> en_db env" for res
    using that by (simp add: commit_tx_def split: sum.splits)
  have dup: "claimDeltaSequence (station, ''bucket'', core_bucketScopeKey (ld_node d) (ld_pair d) (ld_style d) (ld_part d), 0) (ld_seq d) db =
      (db, False)" if "\<not> bucket_fresh db station d"
    using that by (simp add: claimDeltaSequence_def bucket_fresh_def split: option.splits)
  show ?thesis
  proof (cases "en_db env")
    case True
    then show ?thesis using ok assms dup by (simp add: ApplyLinesideBucketDelta_def commit_tx_def bucket_wellformed_def)
  next
    case False
    show ?thesis using ok bad [OF False] by (simp add: ApplyLinesideBucketDelta_def)
  qed
qed

lemma bucket_gc:
  assumes "distinct (map bucket_ident (iv_buckets db))"
    and "list_all (\<lambda>k. 0 < lb_qty k \<or> bucket_ident k = delta_ident d \<and> lb_qty k = 0) (iv_buckets db)"
  shows "buckets_ok (db\<lparr>iv_buckets := delete_rows (\<lambda>k. same_bucket d k \<and> lb_qty k = 0) (iv_buckets db)\<rparr>)"
    and "bucket_qty (db\<lparr>iv_buckets := delete_rows (\<lambda>k. same_bucket d k \<and> lb_qty k = 0) (iv_buckets db)\<rparr>) = bucket_qty db"
proof -
  show "bucket_qty (db\<lparr>iv_buckets := delete_rows (\<lambda>k. same_bucket d k \<and> lb_qty k = 0) (iv_buckets db)\<rparr>) = bucket_qty db"
    by (intro ext) (simp add: bucket_qty_def qty_gc)
qed (use assms in \<open>auto simp: buckets_ok_def same_bucket_ident list_all_iff delete_rows_def intro: distinct_map_filter\<close>)

lemma bucket_delta_run:
  assumes "bucket_wellformed env db station d"
  obtains db1 where "iv_buckets db1 = iv_buckets db" "iv_nodes db1 = iv_nodes db"
    "dedup_last (iv_dedup db1) (station, ''bucket'', core_bucketScopeKey (ld_node d) (ld_pair d) (ld_style d) (ld_part d), 0) = Some (ld_seq d)"
    "ApplyLinesideBucketDelta env db station d = commit_tx env db
      (if ld_delta d < 0 \<and> \<not> list_ex (same_bucket d) (iv_buckets db1) then Inl NoSuchBucket
       else (case upsert_bucket station d db1 of
           Inl e \<Rightarrow> Inl e
         | Inr db2 \<Rightarrow> Inr (db2\<lparr>iv_buckets := delete_rows (\<lambda>k. same_bucket d k \<and> lb_qty k = 0) (iv_buckets db2)\<rparr>)))"
proof -
  let ?key = "(station, ''bucket'', core_bucketScopeKey (ld_node d) (ld_pair d) (ld_style d) (ld_part d), 0::int)"
  have "claimDeltaSequence ?key (ld_seq d) db = (db\<lparr>iv_dedup := AList.update ?key (ld_seq d) (iv_dedup db)\<rparr>, True)"
    using assms by (simp add: claimDeltaSequence_def bucket_fresh_def bucket_wellformed_def split: option.splits)
  then show ?thesis
    using assms by (intro that [of "db\<lparr>iv_dedup := AList.update ?key (ld_seq d) (iv_dedup db)\<rparr>"])
      (simp_all add: ApplyLinesideBucketDelta_def bucket_wellformed_def dedup_last_update)
qed

lemma bucket_delta_under:
  assumes "buckets_ok db" and "bucket_qty db (delta_ident d) + ld_delta d < 0"
  shows "fst (ApplyLinesideBucketDelta env db station d) = db \<and> snd (ApplyLinesideBucketDelta env db station d) \<noteq> None"
proof (cases "bucket_wellformed env db station d")
  case True
  obtain db1 where db1: "iv_buckets db1 = iv_buckets db" "ApplyLinesideBucketDelta env db station d = commit_tx env db
      (if ld_delta d < 0 \<and> \<not> list_ex (same_bucket d) (iv_buckets db1) then Inl NoSuchBucket
       else (case upsert_bucket station d db1 of
           Inl e \<Rightarrow> Inl e
         | Inr db2 \<Rightarrow> Inr (db2\<lparr>iv_buckets := delete_rows (\<lambda>k. same_bucket d k \<and> lb_qty k = 0) (iv_buckets db2)\<rparr>)))"
    by (rule bucket_delta_run [OF True])
  have "buckets_ok db1" "bucket_qty db1 (delta_ident d) + ld_delta d < 0" using assms db1(1) by (simp_all add: buckets_ok_def bucket_qty_def)
  then have "upsert_bucket station d db1 = Inl BucketUnderflow" if some: "\<not> (ld_delta d < 0 \<and> \<not> list_ex (same_bucket d) (iv_buckets db1))"
    using upsert_spec [of db1 d station] some by (metis (no_types, lifting) not_less)
  then show ?thesis unfolding db1(2) by (cases "ld_delta d < 0 \<and> \<not> list_ex (same_bucket d) (iv_buckets db1)") (simp_all add: commit_tx_def)
qed (rule bucket_delta_refused)

lemma bucket_delta_applied:
  assumes "buckets_ok db" and "0 \<le> bucket_qty db (delta_ident d) + ld_delta d" and "bucket_wellformed env db station d"
  shows "\<exists>db'. ApplyLinesideBucketDelta env db station d = (db', None) \<and> buckets_ok db' \<and>
    (\<forall>i. bucket_qty db' i = bucket_qty db i + (if i = delta_ident d then ld_delta d else 0)) \<and> \<not> bucket_fresh db' station d"
proof -
  obtain db1 where db1: "iv_buckets db1 = iv_buckets db"
    "dedup_last (iv_dedup db1) (station, ''bucket'', core_bucketScopeKey (ld_node d) (ld_pair d) (ld_style d) (ld_part d), 0) = Some (ld_seq d)"
    "ApplyLinesideBucketDelta env db station d = commit_tx env db
      (if ld_delta d < 0 \<and> \<not> list_ex (same_bucket d) (iv_buckets db1) then Inl NoSuchBucket
       else (case upsert_bucket station d db1 of
           Inl e \<Rightarrow> Inl e
         | Inr db2 \<Rightarrow> Inr (db2\<lparr>iv_buckets := delete_rows (\<lambda>k. same_bucket d k \<and> lb_qty k = 0) (iv_buckets db2)\<rparr>)))"
    by (rule bucket_delta_run [OF assms(3)])
  have ok: "buckets_ok db1" and qty: "bucket_qty db1 = bucket_qty db" using assms(1) db1(1) by (auto simp: buckets_ok_def bucket_qty_def)
  have some: "0 \<le> ld_delta d \<or> list_ex (same_bucket d) (iv_buckets db1)"
  proof (rule ccontr)
    assume "\<not> (0 \<le> ld_delta d \<or> list_ex (same_bucket d) (iv_buckets db1))"
    then have "\<not> list_ex (\<lambda>k. bucket_ident k = delta_ident d) (iv_buckets db)" "ld_delta d < 0" by (auto simp: same_bucket_ident db1(1))
    then show False using assms(2) qty_absent by simp
  qed
  obtain db2 where db2: "upsert_bucket station d db1 = Inr db2" "distinct (map bucket_ident (iv_buckets db2))"
    "list_all (\<lambda>k. 0 < lb_qty k \<or> bucket_ident k = delta_ident d \<and> lb_qty k = 0) (iv_buckets db2)" "iv_dedup db2 = iv_dedup db1"
    "\<forall>i. bucket_qty db2 i = bucket_qty db i + (if i = delta_ident d then ld_delta d else 0)"
    using upsert_spec [OF ok some, of station, unfolded qty if_not_P [OF leD [OF assms(2)]]] by (elim exE conjE) (rule that)
  have "\<not> (ld_delta d < 0 \<and> \<not> list_ex (same_bucket d) (iv_buckets db1))" using some by auto
  then have run: "ApplyLinesideBucketDelta env db station d =
      (db2\<lparr>iv_buckets := delete_rows (\<lambda>k. same_bucket d k \<and> lb_qty k = 0) (iv_buckets db2)\<rparr>, None)"
    unfolding db1(3) using db2(1) assms(3) by (simp add: commit_tx_def bucket_wellformed_def)
  have "\<not> bucket_fresh (db2\<lparr>iv_buckets := ks\<rparr>) station d" for ks using db1(2) db2(4) by (simp add: bucket_fresh_def)
  then show ?thesis unfolding run using bucket_gc(1) [OF db2(2,3)]
    by (intro exI conjI) (rule refl, assumption, unfold bucket_gc(2) [OF db2(2,3)], rule db2(5), blast)
qed

text \<open>No other input touches the bucket table.\<close>

lemma bumpEpoch_buckets: "bumpEpoch env b db = Inr (db', ep) \<Longrightarrow> iv_buckets db' = iv_buckets db"
  by (auto simp: bumpEpoch_def bumpEpochRaw_def split: sum.splits option.splits if_splits)

lemma tx_buckets:
  "ClearForReuseTx env b t op db = Inr (db', ep) \<Longrightarrow> iv_buckets db' = iv_buckets db"
  "setForProductionTx env b man p u db = Inr (db', ep) \<Longrightarrow> iv_buckets db' = iv_buckets db"
  "confirmTx env b at db = Inr db' \<Longrightarrow> iv_buckets db' = iv_buckets db"
  "clearAndClaimTx env b ord db = Inr db' \<Longrightarrow> iv_buckets db' = iv_buckets db"
  "syncUOPAndClaimTx env b ord u db = Inr db' \<Longrightarrow> iv_buckets db' = iv_buckets db"
  "claimUnderReservationTx env b ord rem db = Inr db' \<Longrightarrow> iv_buckets db' = iv_buckets db"
  by (fastforce simp: ClearForReuseTx_def setForProductionTx_def confirmTx_def ConfirmManifestTx_def clearAndClaimTx_def syncUOPAndClaimTx_def
      claimUnderReservationTx_def claimBin_def claim_update_def Let_def AppendBinUOP_effect dest: bumpEpoch_buckets
      split: sum.splits option.splits if_splits)+

lemma commit_buckets: "(\<And>db'. res = Inr db' \<Longrightarrow> iv_buckets db' = iv_buckets db) \<Longrightarrow> iv_buckets (fst (commit_tx env db res)) = iv_buckets db"
  by (simp add: commit_tx_def split: sum.splits)

lemma override_buckets: "iv_buckets (AppendBinUOPOverride env b x y op ord payload actor meta db) = iv_buckets db"
  by (simp add: AppendBinUOPOverride_def)

lemma audit_buckets: "iv_buckets (foldl (audit_part env b ord d actor) db ps) = iv_buckets db"
  by (induction ps arbitrary: db) (simp_all add: audit_part_def Let_def override_buckets)

lemma claim_buckets: "iv_buckets (fst (claimAndConfirm env db b ord rem)) = iv_buckets db"
  unfolding claimAndConfirm_def by (rule commit_buckets) (auto split: sum.splits dest: tx_buckets)

lemma reserve_buckets: "iv_buckets (fst (reserve env db b ord tag)) = iv_buckets db"
  unfolding reserve_def by (rule commit_buckets) (auto split: sum.splits)

lemma dispatch_buckets: "iv_buckets (fst (ClaimForDispatch env db b ord rem)) = iv_buckets db"
proof (cases "reserve env db b ord ''ClaimForDispatch''")
  case (Pair db1 e)
  then have "iv_buckets db1 = iv_buckets db" using reserve_buckets [of env db b ord "''ClaimForDispatch''"] by simp
  moreover have "iv_buckets (fst (claimAndConfirm env db1 b ord rem)) = iv_buckets db1" by (rule claim_buckets)
  ultimately show ?thesis using Pair
    by (cases "claimAndConfirm env db1 b ord rem") (auto simp: ClaimForDispatch_def split: option.splits)
qed

lemma release_buckets: "iv_buckets (fst (syncOrClearForReleased env db b ord rem kind actor fb)) = iv_buckets db"
  by (auto simp: syncOrClearForReleased_def Let_def AppendBinUOP_effect split: option.splits sum.splits if_splits
      intro!: commit_buckets dest: bumpEpoch_buckets)

lemma produced_buckets: "iv_buckets (fst (RecordProducedBin env db b man p u at)) = iv_buckets db"
proof -
  have "iv_buckets db' = iv_buckets db"
    if "setForProductionTx env b man p u db = Inr (db1, ep)" "confirmTx env b at db1 = Inr db'" for db1 ep db'
    using tx_buckets(2) [OF that(1)] tx_buckets(3) [OF that(2)] by simp
  then show ?thesis unfolding RecordProducedBin_def by (intro commit_buckets) (auto split: sum.splits)
qed

lemma apply_buckets:
  assumes "\<And>st d. inp \<noteq> InBucketDelta st d" and "\<And>i. inp \<noteq> InDeleteBucket i"
  shows "iv_buckets (db_apply env db inp) = iv_buckets db"
proof (cases inp)
  case (InCount b u actor)
  have "iv_buckets (fst (RecordCount env db r u actor)) = iv_buckets db" for r
    by (auto simp: RecordCount_def Let_def AppendBinUOP_effect override_buckets split: option.splits intro!: commit_buckets)
  then show ?thesis using InCount by (simp split: option.splits)
next
  case (InOverride b ord disp actor)
  then show ?thesis
    by (auto simp: AuditReleaseOverride_def Let_def override_buckets audit_buckets split: option.splits intro!: commit_buckets)
qed (use assms in \<open>auto simp: ClearForReuse_def SetForProduction_def SetFromTemplate_def ConfirmBin_def Unconfirm_def ClearAndClaim_def
    SyncUOPAndClaim_def ConfirmClaim_def ConfirmHeldReservation_def ReserveForDispatch_def SyncOrClearForReleased_def produced_buckets
    RecordProducedBinFromTemplate_def SyncOrClearForReleasedNoOwner_def map_sum_Inr claim_buckets dispatch_buckets reserve_buckets release_buckets
    split: sum.splits intro!: commit_buckets dest: tx_buckets\<close>)

lemma delta_buckets: "iv_buckets (sv_db (fst (ApplyBinUOPDelta env s station d))) = iv_buckets (sv_db s)"
proof (cases "station = '''' \<or> bd_bin d \<le> 0 \<or> \<not> en_db env \<or> get_bin (sv_db s) (bd_bin d) = None")
  case True
  then show ?thesis using ApplyBinUOPDelta_other [of station d env s] by simp
next
  case False
  then obtain r where r: "station \<noteq> ''''" "0 < bd_bin d" "en_db env" "get_bin (sv_db s) (bd_bin d) = Some r" by auto
  show ?thesis
    using ApplyBinUOPDelta_verdict [OF r] drop_stale_effect(6) [OF r(4), of env station] recordRejectedDelta_effect(6) [OF r(4), of env station]
    by (cases "delta_verdict (sv_db s) station d r") (auto simp: applied_to_def)
qed

lemma delete_buckets: "buckets_ok db \<Longrightarrow> buckets_ok (fst (DeleteLinesideBucket env db i))"
  by (auto simp: DeleteLinesideBucket_def Let_def buckets_ok_def delete_rows_def list_all_iff split: option.splits intro: distinct_map_filter)

lemma buckets_ok_apply:
  assumes "buckets_ok (sv_db s)"
  shows "buckets_ok (sv_db (inv_apply env s inp))"
proof (cases "(\<exists>st d. inp = InBucketDelta st d) \<or> (\<exists>i. inp = InDeleteBucket i)")
  case True
  have "buckets_ok (fst (ApplyLinesideBucketDelta env (sv_db s) st d))" for st d
    using bucket_delta_refused [of env "sv_db s" st d] bucket_delta_under [OF assms, of d env st] bucket_delta_applied [OF assms, of d env st] assms
    by (metis fst_conv not_less)
  then show ?thesis using True assms delete_buckets by auto
next
  case False
  have "iv_buckets (sv_db (inv_apply env s inp)) = iv_buckets (sv_db s)"
    using False apply_buckets [of inp env "sv_db s"] delta_buckets [of env s] by (cases inp) auto
  then show ?thesis using assms by (simp add: buckets_ok_def)
qed

lemma buckets_ok_run: "buckets_ok (sv_db s) \<Longrightarrow> buckets_ok (sv_db (inv_run s ins))"
  by (induction s ins rule: inv_run.induct) (simp_all add: buckets_ok_apply)

section \<open>Properties\<close>

definition plant_env :: inv_env where
  "plant_env = \<lparr>en_now = 50, en_wired = True, en_clearer = True, en_db = True, en_obs_row = True, en_obs_exc = True,
     en_obs_flag = True, en_layouts = [], en_template = (\<lambda>_. None)\<rparr>"

definition press_bin :: bin_row where
  "press_bin = \<lparr>bn_id = 7, bn_payload = ''P1'', bn_manifest = None, bn_uop = 10, bn_confirmed = True, bn_loaded = None,
     bn_epoch = 2, bn_anomaly = None, bn_node = ''A1'', bn_locked = False, bn_claimed = None, bn_type = None, bn_counted = None\<rparr>"

definition plant :: inv_svc where
  "plant = \<lparr>sv_db = \<lparr>iv_bins = [press_bin], iv_ledger = [], iv_exceptions = [], iv_dedup = [], iv_buckets = [], iv_bucket_next = 1,
     iv_announced = [], iv_reservations = [], iv_nodes = [''A1'']\<rparr>, sv_repaired = [], sv_stale = 0, sv_mismatch = 0\<rparr>"

definition consume :: "int \<Rightarrow> int \<Rightarrow> int \<Rightarrow> BinUOPDelta" where
  "consume n sq ep = \<lparr>bd_station = ''edge1'', bd_bin = 7, bd_payload = ''P1'', bd_delta = n, bd_reason = ReasonConsumeTick,
     bd_seq = sq, bd_epoch = ep, bd_start = None, bd_end = None\<rparr>"

lemma plant_ok: "db_ok (sv_db plant)"
  by (simp add: plant_def db_ok_def)



lemma applied_seen:
  assumes "snd (ApplyBinUOPDelta env s station d) = None"
  shows "station \<noteq> ''''" and "0 < bd_bin d" and "\<exists>r. get_bin (sv_db s) (bd_bin d) = Some r"
    and "dedup_last (iv_dedup (sv_db (fst (ApplyBinUOPDelta env s station d)))) (delta_key station d) = Some (bd_seq d)"
proof -
  have ok: "\<not> (station = '''' \<or> bd_bin d \<le> 0 \<or> \<not> en_db env \<or> get_bin (sv_db s) (bd_bin d) = None)"
    using ApplyBinUOPDelta_other [of station d env s] assms by blast
  then show "station \<noteq> ''''" "0 < bd_bin d" "\<exists>r. get_bin (sv_db s) (bd_bin d) = Some r" by auto
  obtain r where r: "station \<noteq> ''''" "0 < bd_bin d" "en_db env" "get_bin (sv_db s) (bd_bin d) = Some r" using ok by auto
  show "dedup_last (iv_dedup (sv_db (fst (ApplyBinUOPDelta env s station d)))) (delta_key station d) = Some (bd_seq d)"
    using ApplyBinUOPDelta_verdict [OF r] assms
    by (cases "delta_verdict (sv_db s) station d r") (auto simp: applied_to_def dedup_last_update)
qed

lemma replay_skipped:
  assumes r: "station \<noteq> ''''" "0 < bd_bin d" "en_db env" "get_bin (sv_db s) (bd_bin d) = Some r"
    and "dedup_last (iv_dedup (sv_db s)) (delta_key station d) = Some n" and "bd_seq d \<le> n"
  shows "snd (ApplyBinUOPDelta env s station d) = Some DeltaSkipped \<and>
    map_option bn_uop (get_bin (sv_db (fst (ApplyBinUOPDelta env s station d))) i) = map_option bn_uop (get_bin (sv_db s) i)"
proof -
  have "delta_verdict (sv_db s) station d r \<in> {VStale, VReplay}" using assms(5,6) by (simp add: delta_verdict_def)
  then show ?thesis
    using ApplyBinUOPDelta_verdict [OF r] drop_stale_effect(2) [OF r(4), of env station i] r(4) by auto
qed

text \<open>C3. A reported count is booked at most once.  After a station's delta has been applied, and after
  any further run of the services, a delta of the same station, bin and epoch whose number is not
  greater is skipped and changes no bin's count, so the redeliveries of an at-least-once transport
  are harmless.\<close>
theorem delta_applied_once:
  assumes "distinct (map bn_id (iv_bins (sv_db s)))" and "snd (ApplyBinUOPDelta env s station d) = None" and "en_db env'"
    and "bd_bin d' = bd_bin d" and "bd_epoch d' = bd_epoch d" and "bd_seq d' \<le> bd_seq d"
  shows "snd (ApplyBinUOPDelta env' (inv_run (fst (ApplyBinUOPDelta env s station d)) ins) station d') = Some DeltaSkipped \<and>
    map_option bn_uop (get_bin (sv_db (fst (ApplyBinUOPDelta env' (inv_run (fst (ApplyBinUOPDelta env s station d)) ins) station d'))) i) =
      map_option bn_uop (get_bin (sv_db (inv_run (fst (ApplyBinUOPDelta env s station d)) ins)) i)"
proof -
  let ?s1 = "fst (ApplyBinUOPDelta env s station d)" and ?k = "format_int (bd_bin d)"
  note seen = applied_seen [OF assms(2)]
  have one: "explained (sv_db s) (sv_db ?s1)" using inv_apply_keeps(1) [of s env "InBinDelta station d"] assms(1) by (simp add: db_ok_def)
  then have ok: "db_ok (sv_db ?s1)" using assms(1) explained_ok by (simp add: db_ok_def)
  note run = inv_run_keeps [OF ok, of ins]
  obtain r where "get_bin (sv_db s) (bd_bin d) = Some r" using seen(3) by blast
  then obtain q where q: "get_bin (sv_db (inv_run ?s1 ins)) (bd_bin d) = Some q"
    using explained_trans [OF one] run by (blast elim: explainedD)
  obtain n where n: "dedup_last (iv_dedup (sv_db (inv_run ?s1 ins))) (delta_key station d) = Some n" "bd_seq d \<le> n"
    using run seen(4) unfolding bin_dedup_le_def delta_key_def by blast
  have key: "delta_key station d' = delta_key station d" by (simp add: delta_key_def assms(4,5))
  show ?thesis
    by (rule replay_skipped [where r = q and n = n]) (use seen q n assms(3,4,6) key in auto)
qed

lemma consume_applied: "snd (ApplyBinUOPDelta plant_env plant ''edge1'' (consume (-3) 1 2)) = None"
  by code_simp

theorem delta_applied_once_witness:
  "snd (ApplyBinUOPDelta plant_env (inv_run (fst (ApplyBinUOPDelta plant_env plant ''edge1'' (consume (-3) 1 2))) [(plant_env, InClearForReuse 7 None)])
     ''edge1'' (consume (-3) 1 2)) = Some DeltaSkipped"
  using delta_applied_once [OF plant_ok [unfolded db_ok_def] consume_applied, where d' = "consume (-3) 1 2" and env' = plant_env
      and ins = "[(plant_env, InClearForReuse 7 None)]"]
  by (simp add: plant_env_def)



text \<open>C28. No reset is silent.  Whatever input arrives, a bin's epoch stays or rises by exactly one, and
  when it rises for a bin at a node of a wired plant, the one announcement of that input is the
  adjustment that carries the count and the epoch the row now has.\<close>
theorem resets_announced:
  assumes "distinct (map bn_id (iv_bins (sv_db s)))" and "get_bin (sv_db s) b = Some r"
  shows "\<exists>r' anns. get_bin (sv_db (inv_apply env s inp)) b = Some r' \<and>
    iv_announced (sv_db (inv_apply env s inp)) = iv_announced (sv_db s) @ anns \<and>
    (bn_epoch r' = bn_epoch r \<or>
     bn_epoch r' = bn_epoch r + 1 \<and>
       (\<not> en_wired env \<or> bn_node r = '''' \<or>
        anns = [AnnAdjustment \<lparr>ua_bin = b, ua_node = bn_node r, ua_remaining = bn_uop r', ua_actor = ActorCoreLifecycle,
                  ua_released = False, ua_bound = False, ua_epoch = bn_epoch r + 1\<rparr>]))"
proof -
  have ok: "db_ok (sv_db s)" using assms(1) by (simp add: db_ok_def)
  consider (op) "op_ok env (sv_db s) (sv_db (inv_apply env s inp))"
    | (stale) station d q where "inv_apply env s inp = drop_stale env station d q s" "get_bin (sv_db s) (bd_bin d) = Some q"
    using inv_apply_cases [OF ok, of env inp] by blast
  then show ?thesis
  proof cases
    case op
    then obtain r' where r': "get_bin (sv_db (inv_apply env s inp)) b = Some r'" "bn_node r' = bn_node r"
      using assms(2) by (auto simp: op_ok_def elim: explainedD)
    then show ?thesis using op assms(2) get_bin_Some [OF r'(1)] unfolding op_ok_def told_def adjustment_def by metis
  next
    case stale
    then show ?thesis using assms(2) drop_stale_effect(2,4) [OF stale(2), of env station] by (cases "b = bd_bin d") auto
  qed
qed

theorem resets_announced_witness:
  "iv_announced (sv_db (inv_apply plant_env plant (InClearForReuse 7 None))) =
     [AnnAdjustment \<lparr>ua_bin = 7, ua_node = ''A1'', ua_remaining = 0, ua_actor = ActorCoreLifecycle,
        ua_released = False, ua_bound = False, ua_epoch = 3\<rparr>]"
proof -
  have "get_bin (sv_db plant) 7 = Some press_bin" by (simp add: plant_def press_bin_def get_bin_def select_row_def)
  from resets_announced [OF plant_ok [unfolded db_ok_def] this, of plant_env "InClearForReuse 7 None"]
  obtain r' anns where r': "get_bin (sv_db (inv_apply plant_env plant (InClearForReuse 7 None))) 7 = Some r'"
    "iv_announced (sv_db (inv_apply plant_env plant (InClearForReuse 7 None))) = iv_announced (sv_db plant) @ anns"
    "bn_epoch r' = 2 \<or> anns = [AnnAdjustment \<lparr>ua_bin = 7, ua_node = ''A1'', ua_remaining = bn_uop r', ua_actor = ActorCoreLifecycle,
        ua_released = False, ua_bound = False, ua_epoch = 3\<rparr>]"
    by (auto simp: press_bin_def plant_env_def)
  have "map_option (\<lambda>r. (bn_uop r, bn_epoch r)) (get_bin (sv_db (inv_apply plant_env plant (InClearForReuse 7 None))) 7) = Some (0, 3)"
    by code_simp
  then show ?thesis using r' by (simp add: plant_def)
qed

text \<open>C29. A station that is behind is told once per generation.  In a run from the start of the
  process the replies to discarded counts never repeat for the same bin and epoch, however many
  counts of ended generations arrive.\<close>
theorem refresh_once_per_generation:
  assumes "distinct (map bn_id (iv_bins (sv_db s)))" and "iv_announced (sv_db s) = []"
  shows "distinct (refreshes (iv_announced (sv_db (inv_run s ins))))"
  using replies_ok_run [of s ins] assms by (simp add: replies_ok_def db_ok_def refreshes_def)

theorem refresh_once_per_generation_witness:
  "refreshes (iv_announced (sv_db (inv_run plant [(plant_env, InBinDelta ''edge1'' (consume (-3) 1 1)), (plant_env, InBinDelta ''edge1'' (consume (-2) 2 1))]))) = [(7, 2)] \<and>
   distinct (refreshes (iv_announced (sv_db (inv_run plant [(plant_env, InBinDelta ''edge1'' (consume (-3) 1 1)), (plant_env, InBinDelta ''edge1'' (consume (-2) 2 1))]))))"
proof
  show "refreshes (iv_announced (sv_db (inv_run plant [(plant_env, InBinDelta ''edge1'' (consume (-3) 1 1)), (plant_env, InBinDelta ''edge1'' (consume (-2) 2 1))]))) = [(7, 2)]"
    by code_simp
qed (rule refresh_once_per_generation [OF plant_ok [unfolded db_ok_def]], simp add: plant_def)

text \<open>C30. Lineside buckets.  Through any run the bucket table has one row for each node, pair, style and
  part and every row's quantity is positive; and a delta is accepted exactly when it is well formed,
  its number is new and it does not take the bucket below zero.  Accepted, it adds its amount to
  that bucket and to no other and its number is spent; refused, it changes nothing.\<close>
theorem bucket_table:
  assumes "buckets_ok (sv_db s)" and "sv_db (inv_run s ins) = db"
  shows "buckets_ok db \<and>
    (if station \<noteq> '''' \<and> ld_node d \<noteq> '''' \<and> ld_part d \<noteq> '''' \<and> ld_node d \<in> set (iv_nodes db) \<and> en_db env \<and>
        bucket_fresh db station d \<and> 0 \<le> bucket_qty db (delta_ident d) + ld_delta d
     then \<exists>db'. ApplyLinesideBucketDelta env db station d = (db', None) \<and> \<not> bucket_fresh db' station d \<and>
       (\<forall>i. bucket_qty db' i = bucket_qty db i + (if i = delta_ident d then ld_delta d else 0))
     else fst (ApplyLinesideBucketDelta env db station d) = db \<and> snd (ApplyLinesideBucketDelta env db station d) \<noteq> None)"
proof -
  have ok: "buckets_ok db" using buckets_ok_run [OF assms(1)] assms(2) by blast
  show ?thesis
  proof (cases "bucket_wellformed env db station d \<and> 0 \<le> bucket_qty db (delta_ident d) + ld_delta d")
    case True
    then have yes: "station \<noteq> '''' \<and> ld_node d \<noteq> '''' \<and> ld_part d \<noteq> '''' \<and> ld_node d \<in> set (iv_nodes db) \<and> en_db env \<and>
        bucket_fresh db station d \<and> 0 \<le> bucket_qty db (delta_ident d) + ld_delta d" by (simp add: bucket_wellformed_def)
    show ?thesis unfolding if_P [OF yes] using bucket_delta_applied [OF ok, of d env station] True ok by blast
  next
    case False
    then have no: "\<not> (station \<noteq> '''' \<and> ld_node d \<noteq> '''' \<and> ld_part d \<noteq> '''' \<and> ld_node d \<in> set (iv_nodes db) \<and> en_db env \<and>
        bucket_fresh db station d \<and> 0 \<le> bucket_qty db (delta_ident d) + ld_delta d)" by (auto simp: bucket_wellformed_def)
    show ?thesis unfolding if_not_P [OF no]
      using bucket_delta_refused [of env db station d] bucket_delta_under [OF ok, of d env station] False ok by (meson not_less)
  qed
qed

definition lineside :: "int \<Rightarrow> int \<Rightarrow> LinesideBucketDelta" where
  "lineside n sq = \<lparr>ld_node = ''A1'', ld_pair = ''A'', ld_style = 9, ld_part = ''X'', ld_payload = ''P1'', ld_delta = n,
     ld_reason = ''capture_fill'', ld_seq = sq, ld_start = None, ld_end = None\<rparr>"

theorem bucket_table_witness:
  "buckets_ok (sv_db (inv_run plant [(plant_env, InBucketDelta ''edge1'' (lineside 12 1))])) \<and>
   bucket_qty (sv_db (inv_run plant [(plant_env, InBucketDelta ''edge1'' (lineside 12 1))])) (delta_ident (lineside 12 1)) = 12 \<and>
   fst (ApplyLinesideBucketDelta plant_env (sv_db (inv_run plant [(plant_env, InBucketDelta ''edge1'' (lineside 12 1))])) ''edge1'' (lineside (-13) 2)) =
     sv_db (inv_run plant [(plant_env, InBucketDelta ''edge1'' (lineside 12 1))])"
proof -
  have start: "buckets_ok (sv_db plant)" by (simp add: plant_def buckets_ok_def)
  have qty: "bucket_qty (sv_db (inv_run plant [(plant_env, InBucketDelta ''edge1'' (lineside 12 1))])) (delta_ident (lineside 12 1)) = 12"
    by code_simp
  have same: "delta_ident (lineside (-13) 2) = delta_ident (lineside 12 1)" by (simp add: delta_ident_def lineside_def)
  show ?thesis
    using bucket_table [OF start refl, where station = "''edge1''" and d = "lineside (-13) 2" and env = plant_env
        and ins = "[(plant_env, InBucketDelta ''edge1'' (lineside 12 1))]"] qty
    unfolding same by (simp add: lineside_def [of "-13"] del: inv_run.simps)
qed

section \<open>Divergences between the code and its comments\<close>

text \<open>\<^verbatim>\<open>bumpEpoch\<close> says every path that resets a count calls it; \<^verbatim>\<open>SyncUOPAndClaim\<close> writes the operator's
  count without it, so a count reported before the sync is still booked on top of it.\<close>
lemma sync_keeps_generation:
  "let s = inv_run plant [(plant_env, InReserve 7 3), (plant_env, InSyncUOPAndClaim 7 3 4)];
       s' = inv_apply plant_env s (InBinDelta ''edge1'' (consume (-6) 1 2))
   in map_option (\<lambda>r. (bn_uop r, bn_epoch r)) (get_bin (sv_db s) 7) = Some (4, 2) \<and>
      map_option bn_uop (get_bin (sv_db s') 7) = Some (-2)"
  by code_simp

text \<open>The recovery says a bin has at most one open crossing.  A reset of a negative count does not
  recover it, and the next life of the bin opens a second one.\<close>
lemma two_open_crossings:
  "let s = inv_run plant [(plant_env, InBinDelta ''edge1'' (consume (-12) 1 2)), (plant_env, InClearForReuse 7 None),
         (plant_env, InBinDelta ''edge1'' (consume (-1) 1 3))]
   in length (filter (open_crossing 7) (iv_exceptions (sv_db s))) = 2"
  by code_simp

text \<open>\<^verbatim>\<open>SyncOrClearForReleased\<close> calls itself idempotent; a second call raises the epoch again.\<close>
lemma release_twice_bumps_twice:
  "let s = inv_run plant [(plant_env, InReleaseNoOwner 7 3 (Some 4) ''op''), (plant_env, InReleaseNoOwner 7 3 (Some 4) ''op'')]
   in map_option (\<lambda>r. (bn_uop r, bn_epoch r)) (get_bin (sv_db s) 7) = Some (4, 4)"
  by code_simp

text \<open>The cycle count records as the count before it the one on the caller's copy of the bin: a delta
  booked in between leaves a gap in the ledger.\<close>
lemma stale_count_breaks_chain:
  "let env = plant_env\<lparr>en_template := (\<lambda>_. Some (50, []))\<rparr>;
       s = inv_apply env plant (InBinDelta ''edge1'' (consume (-3) 1 2));
       db = fst (RecordCount env (sv_db s) press_bin 9 ''op'')
   in map (\<lambda>l. (lg_before l, lg_after l)) (iv_ledger db) = [(Some 10, 7), (Some 10, 9)]"
  by code_simp

text \<open>Clearing a bucket deletes its sequence row, so a redelivery of an old delta is booked again.\<close>
lemma cleared_bucket_replays:
  "let s = inv_run plant [(plant_env, InBucketDelta ''edge1'' (lineside 12 1)), (plant_env, InDeleteBucket 1),
         (plant_env, InBucketDelta ''edge1'' (lineside 12 1))]
   in bucket_qty (sv_db s) (delta_ident (lineside 12 1)) = 12"
  by code_simp

end
