(* ===== verification/Accumulator.thy ===== *)
theory Accumulator
  imports InventoryWire "HOL-Library.AList"
begin

text \<open>
  The count accumulator of the Edge (\<^verbatim>\<open>shingo-edge/uop/accumulator.go\<close>): PLC ticks and
  operator captures add signed deltas to one entry per bin and per lineside bucket,
  and a flush ships each entry's running delta to the outbox.

  The two \<^verbatim>\<open>sync.Map\<close>s hold pointers to entries, and a caller may still hold the
  pointer of an entry that has left the map.  So a map is a heap of entries that
  only grows and a table from keys to addresses.  Every operation is given twice:
  as the code's function, run without interruption, and as the atomic pieces of it
  between which the entry's mutex is free.  \<^verbatim>\<open>acc_step\<close> interleaves those pieces for any
  number of recording threads and the one flusher (\<^verbatim>\<open>flushMu\<close> admits one at a time).
  The clock is an argument of each piece; a zero time is None.
\<close>

section \<open>Entries\<close>

record delta_entry =
  de_delta :: int
  de_payload :: string
  de_reason :: string
  de_start :: "instant option"
  de_end :: "instant option"
  de_touched :: "instant option"
  de_evicted :: bool

record binDeltaEntry = delta_entry +
  be_bin :: bin_id
  be_epoch :: int

record bucketDeltaEntry = delta_entry +
  ke_node :: int
  ke_core_node :: string
  ke_pair :: string
  ke_style :: int
  ke_part :: string

definition bucketScopeKey :: "int \<Rightarrow> string \<Rightarrow> int \<Rightarrow> string \<Rightarrow> string" where
  "bucketScopeKey nodeID pairKey styleID partNumber =
     format_int nodeID @ ''|'' @ pairKey @ ''|'' @ format_int styleID @ ''|'' @ partNumber"

definition bin_key :: "binDeltaEntry \<Rightarrow> string" where
  "bin_key e = format_int (be_bin e)"

definition bucket_key :: "bucketDeltaEntry \<Rightarrow> string" where
  "bucket_key e = bucketScopeKey (ke_node e) (ke_pair e) (ke_style e) (ke_part e)"


section \<open>A sync.Map of entry pointers\<close>

record 'e sync_map =
  sm_heap :: "'e list"
  sm_map :: "(string \<times> nat) list"

definition empty_map :: "'e sync_map" where
  "empty_map = \<lparr>sm_heap = [], sm_map = []\<rparr>"

definition deref :: "'e sync_map \<Rightarrow> nat \<Rightarrow> 'e" where
  "deref m a = sm_heap m ! a"

definition write_entry :: "nat \<Rightarrow> ('e \<Rightarrow> 'e) \<Rightarrow> 'e sync_map \<Rightarrow> 'e sync_map" where
  "write_entry a f m = m\<lparr>sm_heap := (sm_heap m)[a := f (sm_heap m ! a)]\<rparr>"

definition LoadOrStore :: "string \<Rightarrow> 'e \<Rightarrow> 'e sync_map \<Rightarrow> 'e sync_map \<times> nat" where
  "LoadOrStore k e m = (case map_of (sm_map m) k of
       Some a \<Rightarrow> (m, a)
     | None \<Rightarrow> (\<lparr>sm_heap = sm_heap m @ [e], sm_map = (k, length (sm_heap m)) # sm_map m\<rparr>, length (sm_heap m)))"

definition CompareAndDelete :: "string \<Rightarrow> nat \<Rightarrow> 'e sync_map \<Rightarrow> 'e sync_map" where
  "CompareAndDelete k a m = m\<lparr>sm_map := filter (\<lambda>p. p \<noteq> (k, a)) (sm_map m)\<rparr>"


section \<open>Recording\<close>

record bin_call =
  bc_bin :: bin_id
  bc_payload :: string
  bc_delta :: int
  bc_reason :: string
  bc_epoch :: int

definition bin_call_ok :: "bin_call \<Rightarrow> bool" where
  "bin_call_ok c = (if bc_delta c = 0 then False else if bc_bin c \<le> 0 then False else True)"

definition bin_call_key :: "bin_call \<Rightarrow> string" where
  "bin_call_key c = format_int (bc_bin c)"

definition fresh_bin :: "instant \<Rightarrow> bin_call \<Rightarrow> binDeltaEntry" where
  "fresh_bin now c =
     \<lparr>de_delta = 0, de_payload = bc_payload c, de_reason = '''', de_start = Some now, de_end = None,
      de_touched = None, de_evicted = False, be_bin = bc_bin c, be_epoch = bc_epoch c\<rparr>"

definition touch_bin :: "instant \<Rightarrow> bin_call \<Rightarrow> binDeltaEntry \<Rightarrow> binDeltaEntry" where
  "touch_bin now c e =
     (let e1 = (if de_delta e = 0 then e\<lparr>de_start := Some now, de_payload := bc_payload c, be_epoch := bc_epoch c\<rparr>
                else if bc_epoch c > be_epoch e then e\<lparr>be_epoch := bc_epoch c\<rparr>
                else e)
      in e1\<lparr>de_delta := de_delta e1 + bc_delta c, de_reason := bc_reason c, de_end := Some now, de_touched := Some now\<rparr>)"

partial_function (option) recordBin_loop ::
  "instant \<Rightarrow> bin_call \<Rightarrow> binDeltaEntry sync_map \<Rightarrow> binDeltaEntry sync_map option" where
  "recordBin_loop now c m =
     (let ma = LoadOrStore (bin_call_key c) (fresh_bin now c) m
      in if de_evicted (deref (fst ma) (snd ma))
         then recordBin_loop now c (CompareAndDelete (bin_call_key c) (snd ma) (fst ma))
         else Some (write_entry (snd ma) (touch_bin now c) (fst ma)))"

record bucket_call =
  kc_node :: int
  kc_core_node :: string
  kc_pair :: string
  kc_style :: int
  kc_part :: string
  kc_payload :: string
  kc_delta :: int
  kc_reason :: string

definition bucket_call_ok :: "bucket_call \<Rightarrow> bool" where
  "bucket_call_ok c = (if kc_delta c = 0 then False else if kc_node c \<le> 0 \<or> kc_part c = '''' then False else True)"

definition bucket_call_key :: "bucket_call \<Rightarrow> string" where
  "bucket_call_key c = bucketScopeKey (kc_node c) (kc_pair c) (kc_style c) (kc_part c)"

definition fresh_bucket :: "instant \<Rightarrow> bucket_call \<Rightarrow> bucketDeltaEntry" where
  "fresh_bucket now c =
     \<lparr>de_delta = 0, de_payload = kc_payload c, de_reason = '''', de_start = Some now, de_end = None,
      de_touched = None, de_evicted = False, ke_node = kc_node c, ke_core_node = kc_core_node c,
      ke_pair = kc_pair c, ke_style = kc_style c, ke_part = kc_part c\<rparr>"

definition touch_bucket :: "instant \<Rightarrow> bucket_call \<Rightarrow> bucketDeltaEntry \<Rightarrow> bucketDeltaEntry" where
  "touch_bucket now c e =
     (let e1 = (if de_delta e = 0 then e\<lparr>de_start := Some now\<rparr> else e);
          e2 = (if kc_payload c \<noteq> '''' then e1\<lparr>de_payload := kc_payload c\<rparr> else e1)
      in e2\<lparr>de_delta := de_delta e2 + kc_delta c, de_reason := kc_reason c, de_end := Some now, de_touched := Some now\<rparr>)"

partial_function (option) recordBucket_loop ::
  "instant \<Rightarrow> bucket_call \<Rightarrow> bucketDeltaEntry sync_map \<Rightarrow> bucketDeltaEntry sync_map option" where
  "recordBucket_loop now c m =
     (let ma = LoadOrStore (bucket_call_key c) (fresh_bucket now c) m
      in if de_evicted (deref (fst ma) (snd ma))
         then recordBucket_loop now c (CompareAndDelete (bucket_call_key c) (snd ma) (fst ma))
         else Some (write_entry (snd ma) (touch_bucket now c) (fst ma)))"


section \<open>Sequence numbers and the outbox\<close>

text \<open>
  \<^verbatim>\<open>inventory_delta_seq\<close> has one counter per (kind, key, epoch); the first allocation gives
  1.  What can go wrong while an entry is shipped is an argument of the send.
\<close>

type_synonym scope = "string \<times> string \<times> int"

datatype send_outcome = SendOk | AllocFailed | EncodeFailed | EnqueueFailed

datatype delta_msg = BinMsg BinUOPDelta | BucketMsg LinesideBucketDelta

record accumulator =
  ac_station :: string
  ac_bins :: "binDeltaEntry sync_map"
  ac_buckets :: "bucketDeltaEntry sync_map"
  ac_seq :: "(scope \<times> int) list"
  ac_outbox :: "delta_msg list"
  ac_flush_failures :: nat

definition newAccumulator :: "string \<Rightarrow> accumulator" where
  "newAccumulator stationID =
     \<lparr>ac_station = stationID, ac_bins = empty_map, ac_buckets = empty_map, ac_seq = [], ac_outbox = [],
      ac_flush_failures = 0\<rparr>"

definition invDeltaScopeBin :: string where "invDeltaScopeBin = ''bin''"
definition invDeltaScopeBucket :: string where "invDeltaScopeBucket = ''bucket''"

definition last_seq :: "(scope \<times> int) list \<Rightarrow> scope \<Rightarrow> int" where
  "last_seq t s = (case map_of t s of None \<Rightarrow> 0 | Some n \<Rightarrow> n)"

definition AllocateInventoryDeltaSeq :: "scope \<Rightarrow> accumulator \<Rightarrow> accumulator \<times> int" where
  "AllocateInventoryDeltaSeq s st =
     (let n = (case map_of (ac_seq st) s of None \<Rightarrow> 1 | Some k \<Rightarrow> k + 1)
      in (st\<lparr>ac_seq := AList.update s n (ac_seq st)\<rparr>, n))"

section \<open>Flushing\<close>

definition snapshot_entry :: "('x delta_entry_scheme) sync_map \<Rightarrow> nat \<Rightarrow> 'x delta_entry_scheme option" where
  "snapshot_entry m a = (if de_delta (deref m a) = 0 then None else Some (deref m a))"

definition settle :: "'x delta_entry_scheme \<Rightarrow> 'x delta_entry_scheme \<Rightarrow> 'x delta_entry_scheme" where
  "settle s e =
     (let e1 = e\<lparr>de_delta := de_delta e - de_delta s\<rparr>
      in if de_delta e1 = 0 then e1\<lparr>de_reason := '''', de_start := None, de_end := None\<rparr>
         else e1\<lparr>de_start := de_end s\<rparr>)"

definition commit_entry :: "instant \<Rightarrow> 'x delta_entry_scheme \<Rightarrow> 'x delta_entry_scheme \<Rightarrow> 'x delta_entry_scheme" where
  "commit_entry now s e = settle s (e\<lparr>de_touched := Some now\<rparr>)"

definition bin_message :: "string \<Rightarrow> int \<Rightarrow> binDeltaEntry \<Rightarrow> BinUOPDelta" where
  "bin_message station seq s =
     \<lparr>bd_station = station, bd_bin = be_bin s, bd_payload = de_payload s, bd_delta = de_delta s,
      bd_reason = de_reason s, bd_seq = seq, bd_epoch = be_epoch s, bd_start = de_start s, bd_end = de_end s\<rparr>"

definition bucket_message :: "string \<Rightarrow> int \<Rightarrow> bucketDeltaEntry \<Rightarrow> LinesideBucketDelta" where
  "bucket_message coreNode seq s =
     \<lparr>ld_node = coreNode, ld_pair = ke_pair s, ld_style = ke_style s, ld_part = ke_part s,
      ld_payload = de_payload s, ld_delta = de_delta s, ld_reason = de_reason s, ld_seq = seq,
      ld_start = de_start s, ld_end = de_end s\<rparr>"

definition send :: "send_outcome \<Rightarrow> scope \<Rightarrow> (int \<Rightarrow> delta_msg) \<Rightarrow> accumulator \<Rightarrow> accumulator \<times> bool" where
  "send oc s msg st =
     (if oc = AllocFailed then (st, False)
      else let r = AllocateInventoryDeltaSeq s st in
        case oc of
          EncodeFailed \<Rightarrow> (fst r, False)
        | EnqueueFailed \<Rightarrow> ((fst r)\<lparr>ac_flush_failures := ac_flush_failures (fst r) + 1\<rparr>, False)
        | _ \<Rightarrow> ((fst r)\<lparr>ac_outbox := ac_outbox (fst r) @ [msg (snd r)]\<rparr>, True))"

definition send_bin :: "send_outcome \<Rightarrow> string \<Rightarrow> binDeltaEntry \<Rightarrow> accumulator \<Rightarrow> accumulator \<times> bool" where
  "send_bin oc k s st =
     send oc (invDeltaScopeBin, k, be_epoch s) (\<lambda>seq. BinMsg (bin_message (ac_station st) seq s)) st"

definition send_bucket :: "send_outcome \<Rightarrow> string \<Rightarrow> string \<Rightarrow> bucketDeltaEntry \<Rightarrow> accumulator \<Rightarrow> accumulator \<times> bool" where
  "send_bucket oc k coreNode s st =
     send oc (invDeltaScopeBucket, k, 0) (\<lambda>seq. BucketMsg (bucket_message coreNode seq s)) st"

definition write_bin :: "nat \<Rightarrow> (binDeltaEntry \<Rightarrow> binDeltaEntry) \<Rightarrow> accumulator \<Rightarrow> accumulator" where
  "write_bin a f st = st\<lparr>ac_bins := write_entry a f (ac_bins st)\<rparr>"

definition write_bucket :: "nat \<Rightarrow> (bucketDeltaEntry \<Rightarrow> bucketDeltaEntry) \<Rightarrow> accumulator \<Rightarrow> accumulator" where
  "write_bucket a f st = st\<lparr>ac_buckets := write_entry a f (ac_buckets st)\<rparr>"

definition flush_bin :: "instant \<Rightarrow> (string \<Rightarrow> send_outcome) \<Rightarrow> accumulator \<Rightarrow> string \<times> nat \<Rightarrow> accumulator" where
  "flush_bin now oc st ka = (case snapshot_entry (ac_bins st) (snd ka) of
       None \<Rightarrow> st
     | Some s \<Rightarrow> let r = send_bin (oc (fst ka)) (fst ka) s st in
         if snd r then write_bin (snd ka) (commit_entry now s) (fst r) else fst r)"

definition flushBins :: "instant \<Rightarrow> (string \<Rightarrow> send_outcome) \<Rightarrow> accumulator \<Rightarrow> accumulator" where
  "flushBins now oc st = foldl (flush_bin now oc) st (sm_map (ac_bins st))"

definition core_node_of :: "(int \<Rightarrow> string option) \<Rightarrow> bucketDeltaEntry \<Rightarrow> string" where
  "core_node_of procNode s =
     (if ke_core_node s \<noteq> '''' then ke_core_node s
      else case procNode (ke_node s) of Some n \<Rightarrow> n | None \<Rightarrow> '''')"

definition count_failure :: "accumulator \<Rightarrow> accumulator" where
  "count_failure st = st\<lparr>ac_flush_failures := ac_flush_failures st + 1\<rparr>"

definition flush_bucket ::
  "instant \<Rightarrow> (int \<Rightarrow> string option) \<Rightarrow> (string \<Rightarrow> send_outcome) \<Rightarrow> accumulator \<Rightarrow> string \<times> nat \<Rightarrow> accumulator" where
  "flush_bucket now procNode oc st ka = (case snapshot_entry (ac_buckets st) (snd ka) of
       None \<Rightarrow> st
     | Some s \<Rightarrow>
         if core_node_of procNode s = '''' then write_bucket (snd ka) (settle s) (count_failure st)
         else let r = send_bucket (oc (fst ka)) (fst ka) (core_node_of procNode s) s st in
           if snd r then write_bucket (snd ka) (commit_entry now s) (fst r) else fst r)"

definition flushBuckets ::
  "instant \<Rightarrow> (int \<Rightarrow> string option) \<Rightarrow> (string \<Rightarrow> send_outcome) \<Rightarrow> accumulator \<Rightarrow> accumulator" where
  "flushBuckets now procNode oc st = foldl (flush_bucket now procNode oc) st (sm_map (ac_buckets st))"

definition idle :: "instant \<Rightarrow> 'x delta_entry_scheme \<Rightarrow> bool" where
  "idle cutoff e = (de_delta e = 0 \<and> (case de_touched e of None \<Rightarrow> False | Some t \<Rightarrow> t < cutoff))"

definition mark_evicted :: "'x delta_entry_scheme \<Rightarrow> 'x delta_entry_scheme" where
  "mark_evicted e = e\<lparr>de_evicted := True\<rparr>"

definition evict_entry ::
  "instant \<Rightarrow> ('x delta_entry_scheme) sync_map \<Rightarrow> string \<times> nat \<Rightarrow> ('x delta_entry_scheme) sync_map" where
  "evict_entry cutoff m ka =
     (if idle cutoff (deref m (snd ka))
      then CompareAndDelete (fst ka) (snd ka) (write_entry (snd ka) mark_evicted m)
      else m)"

definition evictIdle :: "instant \<Rightarrow> int \<Rightarrow> accumulator \<Rightarrow> accumulator" where
  "evictIdle now maxIdle st =
     st\<lparr>ac_bins := foldl (evict_entry (now - maxIdle)) (ac_bins st) (sm_map (ac_bins st)),
        ac_buckets := foldl (evict_entry (now - maxIdle)) (ac_buckets st) (sm_map (ac_buckets st))\<rparr>"

text \<open>Times are nanoseconds, as Go's durations are.\<close>

definition hour :: int where "hour = 3600000000000"

definition flush ::
  "instant \<Rightarrow> (int \<Rightarrow> string option) \<Rightarrow> (string \<Rightarrow> send_outcome) \<Rightarrow> (string \<Rightarrow> send_outcome) \<Rightarrow> accumulator \<Rightarrow> accumulator" where
  "flush now procNode binOc bucketOc st =
     evictIdle now hour (flushBuckets now procNode bucketOc (flushBins now binOc st))"

definition recordBin :: "instant \<Rightarrow> bin_call \<Rightarrow> accumulator \<Rightarrow> accumulator option" where
  "recordBin now c st =
     (if \<not> bin_call_ok c then Some st
      else map_option (\<lambda>m. st\<lparr>ac_bins := m\<rparr>) (recordBin_loop now c (ac_bins st)))"

definition recordBucket :: "instant \<Rightarrow> bucket_call \<Rightarrow> accumulator \<Rightarrow> accumulator option" where
  "recordBucket now c st =
     (if \<not> bucket_call_ok c then Some st
      else map_option (\<lambda>m. st\<lparr>ac_buckets := m\<rparr>) (recordBucket_loop now c (ac_buckets st)))"


section \<open>The interleaved system\<close>

text \<open>
  A recording thread has loaded no pointer yet, holds the pointer it loaded, or has
  seen the eviction mark and is about to clear the stale pointer.  The flusher is
  between entries, has a snapshot it has not sent, has sent one it has not
  committed, is about to discard an unsendable one, or has marked an entry it has
  not removed.  The last three fields record what the calls asked for and what left.
\<close>

datatype 'c rec_thread = RecCalled 'c | RecLoaded 'c nat | RecStale 'c nat

datatype flusher =
    FlushIdle
  | BinSnap string nat binDeltaEntry | BinSent string nat binDeltaEntry
  | BucketSnap string nat bucketDeltaEntry | BucketSent string nat bucketDeltaEntry
  | BucketDrop string nat bucketDeltaEntry
  | BinMarked string nat | BucketMarked string nat

record conc =
  cc_acc :: accumulator
  cc_bin_threads :: "bin_call rec_thread list"
  cc_bucket_threads :: "bucket_call rec_thread list"
  cc_flusher :: flusher
  cc_bin_calls :: "bin_call list"
  cc_bucket_calls :: "bucket_call list"
  cc_bucket_ships :: "(string \<times> int) list"
  cc_bucket_drops :: "(string \<times> int) list"

definition conc_start :: "string \<Rightarrow> conc" where
  "conc_start station =
     \<lparr>cc_acc = newAccumulator station, cc_bin_threads = [], cc_bucket_threads = [], cc_flusher = FlushIdle,
      cc_bin_calls = [], cc_bucket_calls = [], cc_bucket_ships = [], cc_bucket_drops = []\<rparr>"

definition upd_bins :: "(binDeltaEntry sync_map \<Rightarrow> binDeltaEntry sync_map) \<Rightarrow> conc \<Rightarrow> conc" where
  "upd_bins f s = s\<lparr>cc_acc := (cc_acc s)\<lparr>ac_bins := f (ac_bins (cc_acc s))\<rparr>\<rparr>"

definition upd_buckets :: "(bucketDeltaEntry sync_map \<Rightarrow> bucketDeltaEntry sync_map) \<Rightarrow> conc \<Rightarrow> conc" where
  "upd_buckets f s = s\<lparr>cc_acc := (cc_acc s)\<lparr>ac_buckets := f (ac_buckets (cc_acc s))\<rparr>\<rparr>"

abbreviation binm :: "conc \<Rightarrow> binDeltaEntry sync_map" where "binm s \<equiv> ac_bins (cc_acc s)"
abbreviation bucketm :: "conc \<Rightarrow> bucketDeltaEntry sync_map" where "bucketm s \<equiv> ac_buckets (cc_acc s)"

inductive acc_step :: "conc \<Rightarrow> conc \<Rightarrow> bool" where
  bin_called: "bin_call_ok c \<Longrightarrow> acc_step s (s\<lparr>cc_bin_threads := cc_bin_threads s @ [RecCalled c]\<rparr>)"
| bin_loaded: "cc_bin_threads s = xs @ RecCalled c # ys \<Longrightarrow> LoadOrStore (bin_call_key c) (fresh_bin now c) (binm s) = (m, a) \<Longrightarrow>
    acc_step s ((upd_bins (\<lambda>_. m) s)\<lparr>cc_bin_threads := xs @ RecLoaded c a # ys\<rparr>)"
| bin_recorded: "cc_bin_threads s = xs @ RecLoaded c a # ys \<Longrightarrow> \<not> de_evicted (deref (binm s) a) \<Longrightarrow>
    acc_step s ((upd_bins (write_entry a (touch_bin now c)) s)\<lparr>cc_bin_threads := xs @ ys, cc_bin_calls := cc_bin_calls s @ [c]\<rparr>)"
| bin_stale: "cc_bin_threads s = xs @ RecLoaded c a # ys \<Longrightarrow> de_evicted (deref (binm s) a) \<Longrightarrow>
    acc_step s (s\<lparr>cc_bin_threads := xs @ RecStale c a # ys\<rparr>)"
| bin_retry: "cc_bin_threads s = xs @ RecStale c a # ys \<Longrightarrow>
    acc_step s ((upd_bins (CompareAndDelete (bin_call_key c) a) s)\<lparr>cc_bin_threads := xs @ RecCalled c # ys\<rparr>)"
| bucket_called: "bucket_call_ok d \<Longrightarrow> acc_step s (s\<lparr>cc_bucket_threads := cc_bucket_threads s @ [RecCalled d]\<rparr>)"
| bucket_loaded: "cc_bucket_threads s = xs' @ RecCalled d # ys' \<Longrightarrow>
    LoadOrStore (bucket_call_key d) (fresh_bucket now d) (bucketm s) = (m', a) \<Longrightarrow>
    acc_step s ((upd_buckets (\<lambda>_. m') s)\<lparr>cc_bucket_threads := xs' @ RecLoaded d a # ys'\<rparr>)"
| bucket_recorded: "cc_bucket_threads s = xs' @ RecLoaded d a # ys' \<Longrightarrow> \<not> de_evicted (deref (bucketm s) a) \<Longrightarrow>
    acc_step s ((upd_buckets (write_entry a (touch_bucket now d)) s)
      \<lparr>cc_bucket_threads := xs' @ ys', cc_bucket_calls := cc_bucket_calls s @ [d]\<rparr>)"
| bucket_stale: "cc_bucket_threads s = xs' @ RecLoaded d a # ys' \<Longrightarrow> de_evicted (deref (bucketm s) a) \<Longrightarrow>
    acc_step s (s\<lparr>cc_bucket_threads := xs' @ RecStale d a # ys'\<rparr>)"
| bucket_retry: "cc_bucket_threads s = xs' @ RecStale d a # ys' \<Longrightarrow>
    acc_step s ((upd_buckets (CompareAndDelete (bucket_call_key d) a) s)\<lparr>cc_bucket_threads := xs' @ RecCalled d # ys'\<rparr>)"
| bin_snapshot: "cc_flusher s = FlushIdle \<Longrightarrow> (k, a) \<in> set (sm_map (binm s)) \<Longrightarrow> snapshot_entry (binm s) a = Some e \<Longrightarrow>
    acc_step s (s\<lparr>cc_flusher := BinSnap k a e\<rparr>)"
| bin_send: "cc_flusher s = BinSnap k a e \<Longrightarrow> send_bin oc k e (cc_acc s) = (acc, ok) \<Longrightarrow>
    acc_step s (s\<lparr>cc_acc := acc, cc_flusher := (if ok then BinSent k a e else FlushIdle)\<rparr>)"
| bin_commit: "cc_flusher s = BinSent k a e \<Longrightarrow>
    acc_step s ((upd_bins (write_entry a (commit_entry now e)) s)\<lparr>cc_flusher := FlushIdle\<rparr>)"
| bucket_snapshot: "cc_flusher s = FlushIdle \<Longrightarrow> (k, a) \<in> set (sm_map (bucketm s)) \<Longrightarrow> snapshot_entry (bucketm s) a = Some f \<Longrightarrow>
    acc_step s (s\<lparr>cc_flusher := BucketSnap k a f\<rparr>)"
| bucket_unsendable: "cc_flusher s = BucketSnap k a f \<Longrightarrow> core_node_of procNode f = '''' \<Longrightarrow>
    acc_step s (s\<lparr>cc_acc := count_failure (cc_acc s), cc_flusher := BucketDrop k a f\<rparr>)"
| bucket_drop: "cc_flusher s = BucketDrop k a f \<Longrightarrow>
    acc_step s ((upd_buckets (write_entry a (settle f)) s)
      \<lparr>cc_flusher := FlushIdle, cc_bucket_drops := cc_bucket_drops s @ [(k, de_delta f)]\<rparr>)"
| bucket_send: "cc_flusher s = BucketSnap k a f \<Longrightarrow> core_node_of procNode f \<noteq> '''' \<Longrightarrow>
    send_bucket oc k (core_node_of procNode f) f (cc_acc s) = (acc, ok) \<Longrightarrow>
    acc_step s (s\<lparr>cc_acc := acc, cc_flusher := (if ok then BucketSent k a f else FlushIdle),
      cc_bucket_ships := (if ok then cc_bucket_ships s @ [(k, de_delta f)] else cc_bucket_ships s)\<rparr>)"
| bucket_commit: "cc_flusher s = BucketSent k a f \<Longrightarrow>
    acc_step s ((upd_buckets (write_entry a (commit_entry now f)) s)\<lparr>cc_flusher := FlushIdle\<rparr>)"
| bin_mark: "cc_flusher s = FlushIdle \<Longrightarrow> (k, a) \<in> set (sm_map (binm s)) \<Longrightarrow> idle cutoff (deref (binm s) a) \<Longrightarrow>
    acc_step s ((upd_bins (write_entry a mark_evicted) s)\<lparr>cc_flusher := BinMarked k a\<rparr>)"
| bin_remove: "cc_flusher s = BinMarked k a \<Longrightarrow>
    acc_step s ((upd_bins (CompareAndDelete k a) s)\<lparr>cc_flusher := FlushIdle\<rparr>)"
| bucket_mark: "cc_flusher s = FlushIdle \<Longrightarrow> (k, a) \<in> set (sm_map (bucketm s)) \<Longrightarrow> idle cutoff (deref (bucketm s) a) \<Longrightarrow>
    acc_step s ((upd_buckets (write_entry a mark_evicted) s)\<lparr>cc_flusher := BucketMarked k a\<rparr>)"
| bucket_remove: "cc_flusher s = BucketMarked k a \<Longrightarrow>
    acc_step s ((upd_buckets (CompareAndDelete k a) s)\<lparr>cc_flusher := FlushIdle\<rparr>)"

inductive acc_reach :: "string \<Rightarrow> conc \<Rightarrow> bool" for station where
  acc_start: "acc_reach station (conc_start station)"
| acc_next: "acc_reach station s \<Longrightarrow> acc_step s s' \<Longrightarrow> acc_reach station s'"


section \<open>What one map keeps\<close>

text \<open>
  \<^verbatim>\<open>map_ok\<close>: the table is a function into the heap, an entry sits under its own key,
  every live entry is in the table, and an evicted entry carries nothing.
\<close>

definition map_ok :: "('x delta_entry_scheme \<Rightarrow> string) \<Rightarrow> ('x delta_entry_scheme) sync_map \<Rightarrow> bool" where
  "map_ok K m \<longleftrightarrow> distinct (map fst (sm_map m)) \<and>
     (\<forall>(k, a)\<in>set (sm_map m). a < length (sm_heap m) \<and> K (sm_heap m ! a) = k) \<and>
     (\<forall>a<length (sm_heap m). \<not> de_evicted (sm_heap m ! a) \<longrightarrow> (K (sm_heap m ! a), a) \<in> set (sm_map m)) \<and>
     (\<forall>a<length (sm_heap m). de_evicted (sm_heap m ! a) \<longrightarrow> de_delta (sm_heap m ! a) = 0)"

definition heap_sum :: "('x delta_entry_scheme \<Rightarrow> string) \<Rightarrow> ('x delta_entry_scheme) sync_map \<Rightarrow> string \<Rightarrow> int" where
  "heap_sum K m k = sum_list (map de_delta (filter (\<lambda>e. K e = k) (sm_heap m)))"

definition heap_le :: "('x delta_entry_scheme \<Rightarrow> string) \<Rightarrow> ('x delta_entry_scheme) sync_map \<Rightarrow> ('x delta_entry_scheme) sync_map \<Rightarrow> bool" where
  "heap_le K m m' \<longleftrightarrow> length (sm_heap m) \<le> length (sm_heap m') \<and>
     (\<forall>a<length (sm_heap m). K (sm_heap m' ! a) = K (sm_heap m ! a) \<and> (de_evicted (sm_heap m ! a) \<longrightarrow> de_evicted (sm_heap m' ! a)))"

lemma heap_le_refl [simp]: "heap_le K m m"
  by (simp add: heap_le_def)

lemma sum_list_update_filter:
  fixes xs :: "'x delta_entry_scheme list"
  assumes "a < length xs" and "K x = K (xs ! a)"
  shows "sum_list (map de_delta (filter (\<lambda>e. K e = k) (xs[a := x]))) =
    sum_list (map de_delta (filter (\<lambda>e. K e = k) xs)) + (if K x = k then de_delta x - de_delta (xs ! a) else 0)"
  using assms
proof (induction xs arbitrary: a)
  case (Cons y ys)
  show ?case using Cons.prems Cons.IH [of "a - 1"] by (cases a) auto
qed simp

lemma write_entry_sum:
  "a < length (sm_heap m) \<Longrightarrow> K (f (sm_heap m ! a)) = K (sm_heap m ! a) \<Longrightarrow>
   heap_sum K (write_entry a f m) k =
     heap_sum K m k + (if K (sm_heap m ! a) = k then de_delta (f (sm_heap m ! a)) - de_delta (sm_heap m ! a) else 0)"
  by (simp add: heap_sum_def write_entry_def sum_list_update_filter)

lemma write_entry_ok:
  assumes "map_ok K m" and "a < length (sm_heap m)" and "K (f (sm_heap m ! a)) = K (sm_heap m ! a)"
    and "de_evicted (sm_heap m ! a) \<longrightarrow> de_evicted (f (sm_heap m ! a))"
    and "de_evicted (f (sm_heap m ! a)) \<longrightarrow> de_delta (f (sm_heap m ! a)) = 0"
  shows "map_ok K (write_entry a f m) \<and> heap_le K m (write_entry a f m)"
proof -
  let ?h = "sm_heap m"
  have nth: "?h[a := f (?h ! a)] ! b = (if b = a then f (?h ! a) else ?h ! b)" if "b < length ?h" for b
    using that by (simp add: nth_list_update)
  have "map_ok K (write_entry a f m)"
    using assms by (auto simp: map_ok_def write_entry_def nth)
  moreover have "heap_le K m (write_entry a f m)"
    using assms by (auto simp: heap_le_def write_entry_def nth)
  ultimately show ?thesis by simp
qed

lemma CompareAndDelete_ok:
  assumes "map_ok K m" and "a < length (sm_heap m)" and "de_evicted (sm_heap m ! a)"
  shows "map_ok K (CompareAndDelete k a m) \<and> heap_le K m (CompareAndDelete k a m)"
proof -
  have "distinct (map fst (filter P ps))" if "distinct (map fst ps)" for P :: "string \<times> nat \<Rightarrow> bool" and ps
    using that by (simp add: distinct_map_filter)
  then show ?thesis using assms by (auto simp: map_ok_def CompareAndDelete_def heap_le_def)
qed

lemma CompareAndDelete_sum [simp]: "heap_sum K (CompareAndDelete k a m) = heap_sum K m"
  by (rule ext) (simp add: heap_sum_def CompareAndDelete_def)

lemma LoadOrStore_ok:
  assumes "map_ok K m" and "LoadOrStore k e m = (m', a)" and "K e = k" and "de_delta e = 0" and "\<not> de_evicted e"
  shows "map_ok K m' \<and> heap_le K m m' \<and> heap_sum K m' = heap_sum K m \<and> a < length (sm_heap m') \<and> K (sm_heap m' ! a) = k"
proof (cases "map_of (sm_map m) k")
  case None
  then have new: "k \<notin> fst ` set (sm_map m)" by (simp add: map_of_eq_None_iff)
  have m': "m' = \<lparr>sm_heap = sm_heap m @ [e], sm_map = (k, length (sm_heap m)) # sm_map m\<rparr>" "a = length (sm_heap m)"
    using assms(2) None by (auto simp: LoadOrStore_def)
  have "map_ok K m'"
    using assms(1,3,4,5) new unfolding map_ok_def m' by (fastforce simp: nth_append less_Suc_eq)
  moreover have "heap_le K m m'" by (simp add: heap_le_def m' nth_append)
  moreover have "heap_sum K m' = heap_sum K m" using assms(4) by (intro ext) (simp add: heap_sum_def m')
  ultimately show ?thesis using assms(3) by (simp add: m')
next
  case (Some b)
  then have "(k, b) \<in> set (sm_map m)" by (rule map_of_SomeD)
  then show ?thesis using assms(1,2) Some by (auto simp: LoadOrStore_def map_ok_def)
qed

section \<open>The invariant of the interleaved system\<close>

fun thread_ok :: "('x delta_entry_scheme \<Rightarrow> string) \<Rightarrow> ('c \<Rightarrow> string) \<Rightarrow> ('x delta_entry_scheme) sync_map \<Rightarrow> 'c rec_thread \<Rightarrow> bool" where
  "thread_ok K key m (RecCalled c) = True"
| "thread_ok K key m (RecLoaded c a) = (a < length (sm_heap m) \<and> K (sm_heap m ! a) = key c)"
| "thread_ok K key m (RecStale c a) = (a < length (sm_heap m) \<and> de_evicted (sm_heap m ! a))"

definition held :: "('x delta_entry_scheme \<Rightarrow> string) \<Rightarrow> ('x delta_entry_scheme) sync_map \<Rightarrow> string \<Rightarrow> nat \<Rightarrow> bool" where
  "held K m k a \<longleftrightarrow> a < length (sm_heap m) \<and> K (sm_heap m ! a) = k \<and> \<not> de_evicted (sm_heap m ! a)"

fun flusher_ok :: "binDeltaEntry sync_map \<Rightarrow> bucketDeltaEntry sync_map \<Rightarrow> flusher \<Rightarrow> bool" where
  "flusher_ok m m' FlushIdle = True"
| "flusher_ok m m' (BinSnap k a e) = (held bin_key m k a \<and> bin_key e = k)"
| "flusher_ok m m' (BinSent k a e) = (held bin_key m k a \<and> bin_key e = k)"
| "flusher_ok m m' (BucketSnap k a f) = held bucket_key m' k a"
| "flusher_ok m m' (BucketSent k a f) = held bucket_key m' k a"
| "flusher_ok m m' (BucketDrop k a f) = held bucket_key m' k a"
| "flusher_ok m m' (BinMarked k a) = (a < length (sm_heap m) \<and> de_evicted (sm_heap m ! a))"
| "flusher_ok m m' (BucketMarked k a) = (a < length (sm_heap m') \<and> de_evicted (sm_heap m' ! a))"

definition conc_ok :: "conc \<Rightarrow> bool" where
  "conc_ok s \<longleftrightarrow> map_ok bin_key (binm s) \<and> map_ok bucket_key (bucketm s) \<and>
     (\<forall>t\<in>set (cc_bin_threads s). thread_ok bin_key bin_call_key (binm s) t) \<and>
     (\<forall>t\<in>set (cc_bucket_threads s). thread_ok bucket_key bucket_call_key (bucketm s) t) \<and>
     flusher_ok (binm s) (bucketm s) (cc_flusher s)"

lemma thread_ok_mono: "heap_le K m m' \<Longrightarrow> thread_ok K key m t \<Longrightarrow> thread_ok K key m' t"
  by (cases t) (auto simp: heap_le_def)

lemma held_write:
  "held K m k a \<Longrightarrow> b < length (sm_heap m) \<Longrightarrow> K (f (sm_heap m ! b)) = K (sm_heap m ! b) \<Longrightarrow>
   de_evicted (f (sm_heap m ! b)) = de_evicted (sm_heap m ! b) \<Longrightarrow> held K (write_entry b f m) k a"
  by (auto simp: held_def write_entry_def nth_list_update)

lemma held_load: "held K m k a \<Longrightarrow> LoadOrStore k' e m = (m', b) \<Longrightarrow> held K m' k a"
  by (auto simp: held_def LoadOrStore_def nth_append split: option.splits)

lemma held_delete [simp]: "held K (CompareAndDelete k' b m) k a = held K m k a"
  by (simp add: held_def CompareAndDelete_def)

lemma flusher_ok_write_bin:
  assumes "flusher_ok m m' fl" and "b < length (sm_heap m)" and "bin_key (f (sm_heap m ! b)) = bin_key (sm_heap m ! b)"
    and "de_evicted (f (sm_heap m ! b)) = de_evicted (sm_heap m ! b)"
  shows "flusher_ok (write_entry b f m) m' fl"
  using assms held_write [of bin_key m _ _ b f] by (cases fl) (auto simp: write_entry_def nth_list_update)

lemma flusher_ok_write_bucket:
  assumes "flusher_ok m m' fl" and "b < length (sm_heap m')" and "bucket_key (f (sm_heap m' ! b)) = bucket_key (sm_heap m' ! b)"
    and "de_evicted (f (sm_heap m' ! b)) = de_evicted (sm_heap m' ! b)"
  shows "flusher_ok m (write_entry b f m') fl"
  using assms held_write [of bucket_key m' _ _ b f] by (cases fl) (auto simp: write_entry_def nth_list_update)

lemma flusher_ok_load_bin: "flusher_ok m m' fl \<Longrightarrow> LoadOrStore k e m = (n, b) \<Longrightarrow> flusher_ok n m' fl"
  using held_load [of bin_key m _ _ k e n b]
  by (cases fl) (auto simp: LoadOrStore_def nth_append split: option.splits)

lemma flusher_ok_load_bucket: "flusher_ok m m' fl \<Longrightarrow> LoadOrStore k e m' = (n, b) \<Longrightarrow> flusher_ok m n fl"
  using held_load [of bucket_key m' _ _ k e n b]
  by (cases fl) (auto simp: LoadOrStore_def nth_append split: option.splits)

lemma flusher_ok_delete [simp]:
  "flusher_ok (CompareAndDelete k a m) m' fl = flusher_ok m m' fl"
  "flusher_ok m (CompareAndDelete k a m') fl = flusher_ok m m' fl"
  by (cases fl; simp add: CompareAndDelete_def held_def)+

lemma fresh_simps [simp]:
  "de_delta (fresh_bin now c) = 0" "\<not> de_evicted (fresh_bin now c)" "bin_key (fresh_bin now c) = bin_call_key c"
  "de_delta (fresh_bucket now d) = 0" "\<not> de_evicted (fresh_bucket now d)" "bucket_key (fresh_bucket now d) = bucket_call_key d"
  by (simp_all add: fresh_bin_def fresh_bucket_def bin_key_def bin_call_key_def bucket_key_def bucket_call_key_def)

lemma touch_simps [simp]:
  "de_delta (touch_bin now c e) = de_delta e + bc_delta c" "de_evicted (touch_bin now c e) = de_evicted e"
  "bin_key (touch_bin now c e) = bin_key e"
  "de_delta (touch_bucket now d f) = de_delta f + kc_delta d" "de_evicted (touch_bucket now d f) = de_evicted f"
  "bucket_key (touch_bucket now d f) = bucket_key f"
  by (simp_all add: touch_bin_def touch_bucket_def bin_key_def bucket_key_def Let_def)

lemma settle_simps [simp]:
  "de_delta (settle s e) = de_delta e - de_delta s" "de_evicted (settle s e) = de_evicted e"
  "de_delta (commit_entry now s e) = de_delta e - de_delta s" "de_evicted (commit_entry now s e) = de_evicted e"
  by (simp_all add: settle_def commit_entry_def Let_def)

lemma settle_keys [simp]:
  "bin_key (settle s b) = bin_key b" "bucket_key (settle t f) = bucket_key f"
  "bin_key (commit_entry now s b) = bin_key b" "bucket_key (commit_entry now t f) = bucket_key f"
  by (simp_all add: settle_def commit_entry_def Let_def bin_key_def bucket_key_def)

lemma mark_simps [simp]:
  "de_delta (mark_evicted e) = de_delta e" "de_evicted (mark_evicted e)"
  "bin_key (mark_evicted b) = bin_key b" "bucket_key (mark_evicted f) = bucket_key f"
  by (simp_all add: mark_evicted_def bin_key_def bucket_key_def)

lemma send_maps:
  "send oc sc msg st = (st', ok) \<Longrightarrow> ac_bins st' = ac_bins st \<and> ac_buckets st' = ac_buckets st \<and> ac_station st' = ac_station st"
  by (auto simp: send_def AllocateInventoryDeltaSeq_def Let_def split: if_splits send_outcome.splits)

lemma send_bin_maps:
  "send_bin oc k e st = (st', ok) \<Longrightarrow> ac_bins st' = ac_bins st \<and> ac_buckets st' = ac_buckets st \<and> ac_station st' = ac_station st"
  unfolding send_bin_def by (rule send_maps)

lemma send_bucket_maps:
  "send_bucket oc k n e st = (st', ok) \<Longrightarrow> ac_bins st' = ac_bins st \<and> ac_buckets st' = ac_buckets st \<and> ac_station st' = ac_station st"
  unfolding send_bucket_def by (rule send_maps)

lemma upd_simps [simp]:
  "binm (upd_bins f s) = f (binm s)" "bucketm (upd_bins f s) = bucketm s" "binm (upd_buckets g s) = binm s"
  "bucketm (upd_buckets g s) = g (bucketm s)" "cc_flusher (upd_bins f s) = cc_flusher s" "cc_flusher (upd_buckets g s) = cc_flusher s"
  "cc_bin_threads (upd_buckets g s) = cc_bin_threads s" "cc_bucket_threads (upd_bins f s) = cc_bucket_threads s"
  "cc_bin_calls (upd_buckets g s) = cc_bin_calls s" "cc_bucket_calls (upd_bins f s) = cc_bucket_calls s"
  "cc_bin_calls (upd_bins f s) = cc_bin_calls s" "cc_bucket_calls (upd_buckets g s) = cc_bucket_calls s"
  "cc_bucket_ships (upd_bins f s) = cc_bucket_ships s" "cc_bucket_ships (upd_buckets g s) = cc_bucket_ships s"
  "cc_bucket_drops (upd_bins f s) = cc_bucket_drops s" "cc_bucket_drops (upd_buckets g s) = cc_bucket_drops s"
  "ac_outbox (cc_acc (upd_bins f s)) = ac_outbox (cc_acc s)" "ac_outbox (cc_acc (upd_buckets g s)) = ac_outbox (cc_acc s)"
  "ac_seq (cc_acc (upd_bins f s)) = ac_seq (cc_acc s)" "ac_seq (cc_acc (upd_buckets g s)) = ac_seq (cc_acc s)"
  "cc_bin_threads (upd_bins f s) = cc_bin_threads s" "cc_bucket_threads (upd_buckets g s) = cc_bucket_threads s"
  by (simp_all add: upd_bins_def upd_buckets_def)

lemma conc_ok_bin:
  assumes "conc_ok s" and "bucketm s' = bucketm s" and "cc_bucket_threads s' = cc_bucket_threads s"
    and "map_ok bin_key (binm s') \<and> heap_le bin_key (binm s) (binm s')"
    and "\<And>t. t \<in> set (cc_bin_threads s') \<Longrightarrow> t \<in> set (cc_bin_threads s) \<or> thread_ok bin_key bin_call_key (binm s') t"
    and "flusher_ok (binm s') (bucketm s) (cc_flusher s')"
  shows "conc_ok s'"
  using assms thread_ok_mono [of bin_key "binm s" "binm s'"] unfolding conc_ok_def by metis

lemma conc_ok_bucket:
  assumes "conc_ok s" and "binm s' = binm s" and "cc_bin_threads s' = cc_bin_threads s"
    and "map_ok bucket_key (bucketm s') \<and> heap_le bucket_key (bucketm s) (bucketm s')"
    and "\<And>t. t \<in> set (cc_bucket_threads s') \<Longrightarrow> t \<in> set (cc_bucket_threads s) \<or> thread_ok bucket_key bucket_call_key (bucketm s') t"
    and "flusher_ok (binm s) (bucketm s') (cc_flusher s')"
  shows "conc_ok s'"
  using assms thread_ok_mono [of bucket_key "bucketm s" "bucketm s'"] unfolding conc_ok_def by metis

lemma bin_snapshot_held:
  assumes "map_ok K m" and "(k, a) \<in> set (sm_map m)" and "snapshot_entry m a = Some e"
  shows "held K m k a \<and> K e = k \<and> e = sm_heap m ! a"
  using assms by (auto simp: map_ok_def held_def snapshot_entry_def deref_def split: if_splits)

lemma held_ok:
  assumes "map_ok K m" and "held K m k a" and "K (f (sm_heap m ! a)) = K (sm_heap m ! a)"
    and "de_evicted (f (sm_heap m ! a)) = de_evicted (sm_heap m ! a)"
  shows "map_ok K (write_entry a f m) \<and> heap_le K m (write_entry a f m)"
  using assms write_entry_ok [of K m a f] by (simp add: held_def)

lemma mark_ok:
  assumes "map_ok K m" and "(k, a) \<in> set (sm_map m)" and "idle cutoff (deref m a)" and "\<And>e. K (mark_evicted e) = K e"
  shows "map_ok K (write_entry a mark_evicted m) \<and> heap_le K m (write_entry a mark_evicted m) \<and>
    a < length (sm_heap m) \<and> heap_sum K (write_entry a mark_evicted m) = heap_sum K m"
proof -
  have a: "a < length (sm_heap m)" "de_delta (sm_heap m ! a) = 0"
    using assms(1,2,3) by (auto simp: map_ok_def idle_def deref_def)
  then show ?thesis using assms(1,4) write_entry_ok [of K m a mark_evicted] write_entry_sum [of a m K mark_evicted]
    by auto
qed

lemma conc_ok_bin_step:
  assumes "conc_ok s"
  shows "cc_bin_threads s = xs @ RecCalled c # ys \<Longrightarrow> LoadOrStore (bin_call_key c) (fresh_bin now c) (binm s) = (m, a) \<Longrightarrow>
      conc_ok ((upd_bins (\<lambda>_. m) s)\<lparr>cc_bin_threads := xs @ RecLoaded c a # ys\<rparr>)"
    and "cc_bin_threads s = xs @ RecLoaded c a # ys \<Longrightarrow> \<not> de_evicted (deref (binm s) a) \<Longrightarrow>
      conc_ok ((upd_bins (write_entry a (touch_bin now c)) s)\<lparr>cc_bin_threads := xs @ ys, cc_bin_calls := cs\<rparr>)"
    and "cc_bin_threads s = xs @ RecStale c a # ys \<Longrightarrow>
      conc_ok ((upd_bins (CompareAndDelete (bin_call_key c) a) s)\<lparr>cc_bin_threads := xs @ RecCalled c # ys\<rparr>)"
proof -
  note ok = assms [unfolded conc_ok_def]
  show "conc_ok ((upd_bins (\<lambda>_. m) s)\<lparr>cc_bin_threads := xs @ RecLoaded c a # ys\<rparr>)"
    if "cc_bin_threads s = xs @ RecCalled c # ys" and load: "LoadOrStore (bin_call_key c) (fresh_bin now c) (binm s) = (m, a)"
  proof (rule conc_ok_bin [OF assms])
    show "map_ok bin_key (binm ((upd_bins (\<lambda>_. m) s)\<lparr>cc_bin_threads := xs @ RecLoaded c a # ys\<rparr>)) \<and>
      heap_le bin_key (binm s) (binm ((upd_bins (\<lambda>_. m) s)\<lparr>cc_bin_threads := xs @ RecLoaded c a # ys\<rparr>))"
      using LoadOrStore_ok [OF _ load] ok by simp
  qed (use that LoadOrStore_ok [OF _ load] flusher_ok_load_bin [OF _ load] ok in auto)
  show "conc_ok ((upd_bins (write_entry a (touch_bin now c)) s)\<lparr>cc_bin_threads := xs @ ys, cc_bin_calls := cs\<rparr>)"
    if "cc_bin_threads s = xs @ RecLoaded c a # ys" and "\<not> de_evicted (deref (binm s) a)"
  proof -
    have "held bin_key (binm s) (bin_call_key c) a" using that ok by (simp add: held_def deref_def)
    then show ?thesis
      using that ok held_ok [of bin_key "binm s" _ a "touch_bin now c"]
      by (intro conc_ok_bin [OF assms]) (auto intro!: flusher_ok_write_bin simp: held_def)
  qed
  show "conc_ok ((upd_bins (CompareAndDelete (bin_call_key c) a) s)\<lparr>cc_bin_threads := xs @ RecCalled c # ys\<rparr>)"
    if "cc_bin_threads s = xs @ RecStale c a # ys"
    using that ok CompareAndDelete_ok [of bin_key "binm s" a "bin_call_key c"]
    by (intro conc_ok_bin [OF assms]) auto
qed

lemma conc_ok_bucket_step:
  assumes "conc_ok s"
  shows "cc_bucket_threads s = xs @ RecCalled c # ys \<Longrightarrow> LoadOrStore (bucket_call_key c) (fresh_bucket now c) (bucketm s) = (m, a) \<Longrightarrow>
      conc_ok ((upd_buckets (\<lambda>_. m) s)\<lparr>cc_bucket_threads := xs @ RecLoaded c a # ys\<rparr>)"
    and "cc_bucket_threads s = xs @ RecLoaded c a # ys \<Longrightarrow> \<not> de_evicted (deref (bucketm s) a) \<Longrightarrow>
      conc_ok ((upd_buckets (write_entry a (touch_bucket now c)) s)\<lparr>cc_bucket_threads := xs @ ys, cc_bucket_calls := cs\<rparr>)"
    and "cc_bucket_threads s = xs @ RecStale c a # ys \<Longrightarrow>
      conc_ok ((upd_buckets (CompareAndDelete (bucket_call_key c) a) s)\<lparr>cc_bucket_threads := xs @ RecCalled c # ys\<rparr>)"
proof -
  note ok = assms [unfolded conc_ok_def]
  show "conc_ok ((upd_buckets (\<lambda>_. m) s)\<lparr>cc_bucket_threads := xs @ RecLoaded c a # ys\<rparr>)"
    if "cc_bucket_threads s = xs @ RecCalled c # ys" and load: "LoadOrStore (bucket_call_key c) (fresh_bucket now c) (bucketm s) = (m, a)"
  proof (rule conc_ok_bucket [OF assms])
    show "map_ok bucket_key (bucketm ((upd_buckets (\<lambda>_. m) s)\<lparr>cc_bucket_threads := xs @ RecLoaded c a # ys\<rparr>)) \<and>
      heap_le bucket_key (bucketm s) (bucketm ((upd_buckets (\<lambda>_. m) s)\<lparr>cc_bucket_threads := xs @ RecLoaded c a # ys\<rparr>))"
      using LoadOrStore_ok [OF _ load] ok by simp
  qed (use that LoadOrStore_ok [OF _ load] flusher_ok_load_bucket [OF _ load] ok in auto)
  show "conc_ok ((upd_buckets (write_entry a (touch_bucket now c)) s)\<lparr>cc_bucket_threads := xs @ ys, cc_bucket_calls := cs\<rparr>)"
    if "cc_bucket_threads s = xs @ RecLoaded c a # ys" and "\<not> de_evicted (deref (bucketm s) a)"
  proof -
    have "held bucket_key (bucketm s) (bucket_call_key c) a" using that ok by (simp add: held_def deref_def)
    then show ?thesis
      using that ok held_ok [of bucket_key "bucketm s" _ a "touch_bucket now c"]
      by (intro conc_ok_bucket [OF assms]) (auto intro!: flusher_ok_write_bucket simp: held_def)
  qed
  show "conc_ok ((upd_buckets (CompareAndDelete (bucket_call_key c) a) s)\<lparr>cc_bucket_threads := xs @ RecCalled c # ys\<rparr>)"
    if "cc_bucket_threads s = xs @ RecStale c a # ys"
    using that ok CompareAndDelete_ok [of bucket_key "bucketm s" a "bucket_call_key c"]
    by (intro conc_ok_bucket [OF assms]) auto
qed

lemma conc_ok_commit:
  assumes "conc_ok s"
  shows "cc_flusher s = BinSent k a e \<Longrightarrow>
      conc_ok ((upd_bins (write_entry a (commit_entry now e)) s)\<lparr>cc_flusher := FlushIdle\<rparr>)"
    and "cc_flusher s = BucketSent k a g \<Longrightarrow>
      conc_ok ((upd_buckets (write_entry a (commit_entry now g)) s)\<lparr>cc_flusher := FlushIdle\<rparr>)"
    and "cc_flusher s = BucketDrop k a g \<Longrightarrow>
      conc_ok ((upd_buckets (write_entry a (settle g)) s)\<lparr>cc_flusher := FlushIdle, cc_bucket_drops := ds\<rparr>)"
  using assms held_ok [of bin_key "binm s" k a "commit_entry now e"] held_ok [of bucket_key "bucketm s" k a "commit_entry now g"]
    held_ok [of bucket_key "bucketm s" k a "settle g"]
  by (auto simp: conc_ok_def intro: thread_ok_mono)

lemma conc_ok_evict:
  assumes "conc_ok s"
  shows "(k, a) \<in> set (sm_map (binm s)) \<Longrightarrow> idle cutoff (deref (binm s) a) \<Longrightarrow>
      conc_ok ((upd_bins (write_entry a mark_evicted) s)\<lparr>cc_flusher := BinMarked k a\<rparr>)"
    and "(k, a) \<in> set (sm_map (bucketm s)) \<Longrightarrow> idle cutoff (deref (bucketm s) a) \<Longrightarrow>
      conc_ok ((upd_buckets (write_entry a mark_evicted) s)\<lparr>cc_flusher := BucketMarked k a\<rparr>)"
    and "cc_flusher s = BinMarked k a \<Longrightarrow> conc_ok ((upd_bins (CompareAndDelete k a) s)\<lparr>cc_flusher := FlushIdle\<rparr>)"
    and "cc_flusher s = BucketMarked k a \<Longrightarrow> conc_ok ((upd_buckets (CompareAndDelete k a) s)\<lparr>cc_flusher := FlushIdle\<rparr>)"
proof -
  note ok = assms [unfolded conc_ok_def]
  show "conc_ok ((upd_bins (write_entry a mark_evicted) s)\<lparr>cc_flusher := BinMarked k a\<rparr>)"
    if "(k, a) \<in> set (sm_map (binm s))" and "idle cutoff (deref (binm s) a)"
    using mark_ok [OF _ that, of bin_key] ok by (intro conc_ok_bin [OF assms]) (auto simp: write_entry_def)
  show "conc_ok ((upd_buckets (write_entry a mark_evicted) s)\<lparr>cc_flusher := BucketMarked k a\<rparr>)"
    if "(k, a) \<in> set (sm_map (bucketm s))" and "idle cutoff (deref (bucketm s) a)"
    using mark_ok [OF _ that, of bucket_key] ok by (intro conc_ok_bucket [OF assms]) (auto simp: write_entry_def)
  show "conc_ok ((upd_bins (CompareAndDelete k a) s)\<lparr>cc_flusher := FlushIdle\<rparr>)" if "cc_flusher s = BinMarked k a"
    using that ok CompareAndDelete_ok [of bin_key "binm s" a k] by (intro conc_ok_bin [OF assms]) auto
  show "conc_ok ((upd_buckets (CompareAndDelete k a) s)\<lparr>cc_flusher := FlushIdle\<rparr>)" if "cc_flusher s = BucketMarked k a"
    using that ok CompareAndDelete_ok [of bucket_key "bucketm s" a k] by (intro conc_ok_bucket [OF assms]) auto
qed

lemma conc_ok_step: "acc_step s s' \<Longrightarrow> conc_ok s \<Longrightarrow> conc_ok s'"
proof (induction rule: acc_step.induct)
  case (bin_send s k a e oc acc ok)
  then show ?case using send_bin_maps [OF bin_send.hyps(2)] by (auto simp: conc_ok_def)
next
  case (bucket_send s k a f procNode oc acc ok)
  then show ?case using send_bucket_maps [OF bucket_send.hyps(3)] by (auto simp: conc_ok_def)
next
  case (bin_snapshot s k a e)
  then show ?case using bin_snapshot_held [of bin_key "binm s" k a e] by (auto simp: conc_ok_def)
next
  case (bucket_snapshot s k a f)
  then show ?case using bin_snapshot_held [of bucket_key "bucketm s" k a f] by (auto simp: conc_ok_def)
qed (blast intro: conc_ok_bin_step conc_ok_bucket_step conc_ok_commit conc_ok_evict
    | force simp: conc_ok_def deref_def count_failure_def)+

lemma conc_ok_reach: "acc_reach station s \<Longrightarrow> conc_ok s"
proof (induction rule: acc_reach.induct)
  case acc_start
  show ?case by (simp add: conc_ok_def conc_start_def newAccumulator_def empty_map_def map_ok_def)
qed (blast intro: conc_ok_step)

section \<open>Conservation\<close>

fun bin_part :: "string \<Rightarrow> delta_msg \<Rightarrow> int" where
  "bin_part k (BinMsg d) = (if format_int (bd_bin d) = k then bd_delta d else 0)"
| "bin_part k (BucketMsg d) = 0"

fun bin_in_flight :: "string \<Rightarrow> flusher \<Rightarrow> int" where
  "bin_in_flight k (BinSent k' a e) = (if k' = k then de_delta e else 0)"
| "bin_in_flight k _ = 0"

fun bucket_in_flight :: "string \<Rightarrow> flusher \<Rightarrow> int" where
  "bucket_in_flight k (BucketSent k' a f) = (if k' = k then de_delta f else 0)"
| "bucket_in_flight k _ = 0"

definition part :: "('c \<Rightarrow> string) \<Rightarrow> ('c \<Rightarrow> int) \<Rightarrow> string \<Rightarrow> 'c list \<Rightarrow> int" where
  "part key amount k xs = sum_list (map (\<lambda>x. if key x = k then amount x else 0) xs)"

lemma part_append [simp]: "part key amount k (xs @ [x]) = part key amount k xs + (if key x = k then amount x else 0)"
  by (simp add: part_def)

lemma part_filter: "part key amount k xs = sum_list (map amount (filter (\<lambda>x. key x = k) xs))"
  by (induction xs) (simp_all add: part_def)

definition bin_balance :: "conc \<Rightarrow> bool" where
  "bin_balance s \<longleftrightarrow> (\<forall>k. part bin_call_key bc_delta k (cc_bin_calls s) =
     sum_list (map (bin_part k) (ac_outbox (cc_acc s))) + heap_sum bin_key (binm s) k - bin_in_flight k (cc_flusher s))"

definition bucket_balance :: "conc \<Rightarrow> bool" where
  "bucket_balance s \<longleftrightarrow> (\<forall>k. part bucket_call_key kc_delta k (cc_bucket_calls s) =
     part fst snd k (cc_bucket_ships s) + part fst snd k (cc_bucket_drops s) +
     heap_sum bucket_key (bucketm s) k - bucket_in_flight k (cc_flusher s))"

lemma bin_balance_same:
  "bin_balance s \<Longrightarrow> cc_bin_calls s' = cc_bin_calls s \<Longrightarrow> ac_outbox (cc_acc s') = ac_outbox (cc_acc s) \<Longrightarrow>
   heap_sum bin_key (binm s') = heap_sum bin_key (binm s) \<Longrightarrow>
   (\<And>k. bin_in_flight k (cc_flusher s') = bin_in_flight k (cc_flusher s)) \<Longrightarrow> bin_balance s'"
  by (simp add: bin_balance_def)

lemma bucket_balance_same:
  "bucket_balance s \<Longrightarrow> cc_bucket_calls s' = cc_bucket_calls s \<Longrightarrow> cc_bucket_ships s' = cc_bucket_ships s \<Longrightarrow>
   cc_bucket_drops s' = cc_bucket_drops s \<Longrightarrow> heap_sum bucket_key (bucketm s') = heap_sum bucket_key (bucketm s) \<Longrightarrow>
   (\<And>k. bucket_in_flight k (cc_flusher s') = bucket_in_flight k (cc_flusher s)) \<Longrightarrow> bucket_balance s'"
  by (simp add: bucket_balance_def)

lemma send_outbox:
  assumes "send oc sc msg st = (st', ok)"
  shows "ac_outbox st' = ac_outbox st @ (if ok then [msg (last_seq (ac_seq st) sc + 1)] else [])"
    and "ac_seq st' = ac_seq st \<or> ac_seq st' = AList.update sc (last_seq (ac_seq st) sc + 1) (ac_seq st)"
    and "ok \<Longrightarrow> ac_seq st' = AList.update sc (last_seq (ac_seq st) sc + 1) (ac_seq st)"
  using assms by (auto simp: send_def AllocateInventoryDeltaSeq_def last_seq_def Let_def add.commute
      split: if_splits send_outcome.splits option.splits)

lemma bin_balance_step: "acc_step s s' \<Longrightarrow> conc_ok s \<Longrightarrow> bin_balance s \<Longrightarrow> bin_balance s'"
proof (induction rule: acc_step.induct)
  case (bin_loaded s xs c ys now m a)
  then have "heap_sum bin_key m = heap_sum bin_key (binm s)"
    using LoadOrStore_ok [of bin_key "binm s" _ _ m a] by (simp add: conc_ok_def)
  then show ?case by (intro bin_balance_same [OF bin_loaded(4)]) simp_all
next
  case (bin_recorded s xs c a ys now)
  then have "a < length (sm_heap (binm s))" "bin_key (sm_heap (binm s) ! a) = bin_call_key c" by (simp_all add: conc_ok_def)
  then show ?case using bin_recorded(4) by (simp add: bin_balance_def write_entry_sum)
next
  case (bin_send s k a e oc acc ok)
  note eff = send_outbox [OF bin_send.hyps(2) [unfolded send_bin_def]] and maps = send_bin_maps [OF bin_send.hyps(2)]
  have "bin_key e = k" using bin_send by (simp add: conc_ok_def)
  then show ?case using bin_send maps by (auto simp: bin_balance_def eff(1) bin_message_def bin_key_def)
next
  case (bucket_send s k a f procNode oc acc ok)
  note eff = send_outbox [OF bucket_send.hyps(3) [unfolded send_bucket_def]] and maps = send_bucket_maps [OF bucket_send.hyps(3)]
  then show ?case using bucket_send by (auto simp: bin_balance_def eff(1))
next
  case (bin_commit s k a e now)
  then have "held bin_key (binm s) k a" by (simp add: conc_ok_def)
  then show ?case using bin_commit by (simp add: bin_balance_def held_def write_entry_sum)
next
  case (bin_mark s k a cutoff)
  then have "heap_sum bin_key (write_entry a mark_evicted (binm s)) = heap_sum bin_key (binm s)"
    using mark_ok [of bin_key "binm s" k a cutoff] by (simp add: conc_ok_def)
  then show ?case by (intro bin_balance_same [OF bin_mark(5)]) (simp_all add: bin_mark(1))
qed (simp_all add: bin_balance_def count_failure_def)

lemma bucket_balance_step: "acc_step s s' \<Longrightarrow> conc_ok s \<Longrightarrow> bucket_balance s \<Longrightarrow> bucket_balance s'"
proof (induction rule: acc_step.induct)
  case (bucket_loaded s xs d ys now m a)
  then have "heap_sum bucket_key m = heap_sum bucket_key (bucketm s)"
    using LoadOrStore_ok [of bucket_key "bucketm s" _ _ m a] by (simp add: conc_ok_def)
  then show ?case by (intro bucket_balance_same [OF bucket_loaded(4)]) simp_all
next
  case (bucket_recorded s xs d a ys now)
  then have "a < length (sm_heap (bucketm s))" "bucket_key (sm_heap (bucketm s) ! a) = bucket_call_key d"
    by (simp_all add: conc_ok_def)
  then show ?case using bucket_recorded(4) by (simp add: bucket_balance_def write_entry_sum)
next
  case (bin_send s k a e oc acc ok)
  then show ?case using send_bin_maps [OF bin_send.hyps(2)] by (auto simp: bucket_balance_def)
next
  case (bucket_send s k a f procNode oc acc ok)
  then show ?case using send_bucket_maps [OF bucket_send.hyps(3)] by (auto simp: bucket_balance_def)
next
  case (bucket_commit s k a f now)
  then have "held bucket_key (bucketm s) k a" by (simp add: conc_ok_def)
  then show ?case using bucket_commit by (simp add: bucket_balance_def held_def write_entry_sum)
next
  case (bucket_drop s k a f)
  then have "held bucket_key (bucketm s) k a" by (simp add: conc_ok_def)
  then show ?case using bucket_drop by (simp add: bucket_balance_def held_def write_entry_sum)
next
  case (bucket_mark s k a cutoff)
  then have "heap_sum bucket_key (write_entry a mark_evicted (bucketm s)) = heap_sum bucket_key (bucketm s)"
    using mark_ok [of bucket_key "bucketm s" k a cutoff] by (simp add: conc_ok_def)
  then show ?case by (intro bucket_balance_same [OF bucket_mark(5)]) (simp_all add: bucket_mark(1))
qed (simp_all add: bucket_balance_def count_failure_def)

lemma balance_reach: "acc_reach station s \<Longrightarrow> bin_balance s \<and> bucket_balance s"
proof (induction rule: acc_reach.induct)
  case acc_start
  show ?case by (simp add: bin_balance_def bucket_balance_def conc_start_def newAccumulator_def empty_map_def heap_sum_def part_def)
next
  case (acc_next s s')
  then show ?case using bin_balance_step bucket_balance_step conc_ok_reach by blast
qed

definition pending :: "('x delta_entry_scheme) sync_map \<Rightarrow> string \<Rightarrow> int" where
  "pending m k = (case map_of (sm_map m) k of None \<Rightarrow> 0 | Some a \<Rightarrow> de_delta (deref m a))"

lemma sum_list_filter_nth:
  "sum_list (map f (filter P xs)) = (\<Sum>i<length xs. if P (xs ! i) then (f (xs ! i) :: int) else 0)"
proof (induction xs)
  case (Cons x xs)
  have "(\<Sum>i<length (x # xs). if P ((x # xs) ! i) then f ((x # xs) ! i) else 0) =
    (if P x then f x else 0) + (\<Sum>i<length xs. if P (xs ! i) then f (xs ! i) else 0)"
    unfolding length_Cons sum.lessThan_Suc_shift by (simp del: sum.lessThan_Suc cong: if_cong)
  then show ?case using Cons by simp
qed simp

lemma heap_sum_pending:
  assumes "map_ok K m"
  shows "heap_sum K m k = pending m k"
proof -
  let ?h = "sm_heap m"
  have live: "(k, i) \<in> set (sm_map m)" if "i < length ?h" "K (?h ! i) = k" "de_delta (?h ! i) \<noteq> 0" for i
    using assms that by (auto simp: map_ok_def)
  have dist: "distinct (map fst (sm_map m))" using assms by (simp add: map_ok_def)
  have zero: "(if K (?h ! i) = k then de_delta (?h ! i) else 0) = (if map_of (sm_map m) k = Some i then de_delta (?h ! i) else 0)"
    if "i < length ?h" for i
  proof (cases "map_of (sm_map m) k = Some i")
    case True
    then have "K (?h ! i) = k" using assms by (auto simp: map_ok_def dest: map_of_SomeD)
    then show ?thesis using True by simp
  next
    case False
    then show ?thesis using live [OF that] map_of_is_SomeI [OF dist] by auto
  qed
  have "heap_sum K m k = (\<Sum>i<length ?h. if map_of (sm_map m) k = Some i then de_delta (?h ! i) else 0)"
    unfolding heap_sum_def sum_list_filter_nth by (rule sum.cong) (use zero in auto)
  also have "\<dots> = pending m k"
  proof (cases "map_of (sm_map m) k")
    case (Some a)
    then have "a < length ?h" using assms by (auto simp: map_ok_def dest: map_of_SomeD)
    then show ?thesis using Some by (simp add: pending_def deref_def sum.delta eq_commute [of a])
  qed (simp add: pending_def)
  finally show ?thesis .
qed

fun bin_deltas :: "delta_msg list \<Rightarrow> BinUOPDelta list" where
  "bin_deltas [] = []"
| "bin_deltas (BinMsg d # ms) = d # bin_deltas ms"
| "bin_deltas (BucketMsg d # ms) = bin_deltas ms"

lemma bin_deltas_append [simp]: "bin_deltas (xs @ ys) = bin_deltas xs @ bin_deltas ys"
  by (induction xs rule: bin_deltas.induct) auto

lemma bin_part_sum: "sum_list (map (bin_part (format_int b)) ms) = sum_list (map bd_delta (filter (\<lambda>d. bd_bin d = b) (bin_deltas ms)))"
  by (induction ms rule: bin_deltas.induct) (auto simp: format_int_inj)


section \<open>Sequence numbers\<close>

definition numbered :: "bin_id \<Rightarrow> int \<Rightarrow> delta_msg list \<Rightarrow> int list" where
  "numbered b ep ms = map bd_seq (filter (\<lambda>d. bd_bin d = b \<and> bd_epoch d = ep) (bin_deltas ms))"

definition seq_ok :: "conc \<Rightarrow> bool" where
  "seq_ok s \<longleftrightarrow> (\<forall>b ep. sorted_wrt (<) (numbered b ep (ac_outbox (cc_acc s))) \<and>
     (\<forall>n\<in>set (numbered b ep (ac_outbox (cc_acc s))). 1 \<le> n \<and> n \<le> last_seq (ac_seq (cc_acc s)) (invDeltaScopeBin, format_int b, ep))) \<and>
   (\<forall>sc. 0 \<le> last_seq (ac_seq (cc_acc s)) sc)"

lemma last_seq_update: "last_seq (AList.update sc n t) sc' = (if sc' = sc then n else last_seq t sc')"
  by (simp add: last_seq_def update_conv')

lemma seq_ok_same: "seq_ok s \<Longrightarrow> ac_outbox (cc_acc s') = ac_outbox (cc_acc s) \<Longrightarrow> ac_seq (cc_acc s') = ac_seq (cc_acc s) \<Longrightarrow> seq_ok s'"
  by (simp add: seq_ok_def)

lemma numbered_Nil [simp]: "numbered b ep [] = []"
  by (simp add: numbered_def)

lemma numbered_append: "numbered b ep (ms @ ms') = numbered b ep ms @ numbered b ep ms'"
  by (simp add: numbered_def)

lemma seq_ok_send:
  assumes "seq_ok s" and "send oc sc msg (cc_acc s) = (acc, ok)" and acc: "cc_acc s' = acc"
    and new: "\<And>b ep n. numbered b ep [msg n] = (if sc = (invDeltaScopeBin, format_int b, ep) then [n] else [])"
  shows "seq_ok s'"
proof -
  let ?t = "ac_seq (cc_acc s)" and ?t' = "ac_seq acc"
  note eff = send_outbox [OF assms(2)]
  have up: "last_seq ?t sc' \<le> last_seq ?t' sc'" "0 \<le> last_seq ?t' sc'" for sc'
    using eff(2) assms(1) [unfolded seq_ok_def, THEN conjunct2] by (auto simp: last_seq_update simp del: split_paired_All)
  have "sorted_wrt (<) (numbered b ep (ac_outbox acc)) \<and>
     (\<forall>n\<in>set (numbered b ep (ac_outbox acc)). 1 \<le> n \<and> n \<le> last_seq ?t' (invDeltaScopeBin, format_int b, ep))" for b ep
  proof (cases "ok \<and> sc = (invDeltaScopeBin, format_int b, ep)")
    case True
    then have "numbered b ep (ac_outbox acc) = numbered b ep (ac_outbox (cc_acc s)) @ [last_seq ?t sc + 1]"
      by (simp add: eff(1) numbered_append new)
    then show ?thesis using True eff(3) assms(1) by (fastforce simp: sorted_wrt_append last_seq_update seq_ok_def)
  next
    case False
    then have "numbered b ep (ac_outbox acc) = numbered b ep (ac_outbox (cc_acc s))"
      by (auto simp: eff(1) numbered_append new)
    then show ?thesis using up(1) assms(1) unfolding seq_ok_def by (fastforce intro: order.trans)
  qed
  then show ?thesis using up(2) by (simp add: seq_ok_def acc)
qed

lemma seq_ok_step: "acc_step s s' \<Longrightarrow> conc_ok s \<Longrightarrow> seq_ok s \<Longrightarrow> seq_ok s'"
proof (induction rule: acc_step.induct)
  case (bin_send s k a e oc acc ok)
  then have k: "k = format_int (be_bin e)" by (simp add: conc_ok_def bin_key_def)
  show ?case
    by (rule seq_ok_send [OF bin_send(4) bin_send(2) [unfolded send_bin_def]])
      (auto simp: numbered_def bin_message_def k format_int_inj)
next
  case (bucket_send s k a f procNode oc acc ok)
  show ?case
    by (rule seq_ok_send [OF bucket_send(5) bucket_send(3) [unfolded send_bucket_def]])
      (auto simp: numbered_def invDeltaScopeBin_def invDeltaScopeBucket_def)
qed (erule seq_ok_same; simp add: count_failure_def)+

lemma seq_ok_reach: "acc_reach station s \<Longrightarrow> seq_ok s"
proof (induction rule: acc_reach.induct)
  case acc_start
  show ?case by (simp add: seq_ok_def conc_start_def newAccumulator_def numbered_def last_seq_def)
next
  case (acc_next s s')
  then show ?case using seq_ok_step conc_ok_reach by blast
qed

section \<open>One flush, uninterrupted\<close>

lemma send_ok:
  "send SendOk sc msg st = (st\<lparr>ac_seq := AList.update sc (last_seq (ac_seq st) sc + 1) (ac_seq st),
     ac_outbox := ac_outbox st @ [msg (last_seq (ac_seq st) sc + 1)]\<rparr>, True)"
  by (simp add: send_def AllocateInventoryDeltaSeq_def last_seq_def Let_def split: option.splits)

definition flush_msg :: "accumulator \<Rightarrow> string \<times> nat \<Rightarrow> delta_msg" where
  "flush_msg st ka = (let e = deref (ac_bins st) (snd ka) in
     BinMsg (bin_message (ac_station st) (last_seq (ac_seq st) (invDeltaScopeBin, fst ka, be_epoch e) + 1) e))"

lemma flush_bin_ok:
  assumes "a < length (sm_heap (ac_bins st))"
  shows "ac_outbox (flush_bin now (\<lambda>_. SendOk) st (k, a)) =
      ac_outbox st @ (if de_delta (deref (ac_bins st) a) = 0 then [] else [flush_msg st (k, a)])"
    and "sm_map (ac_bins (flush_bin now (\<lambda>_. SendOk) st (k, a))) = sm_map (ac_bins st)"
    and "length (sm_heap (ac_bins (flush_bin now (\<lambda>_. SendOk) st (k, a)))) = length (sm_heap (ac_bins st))"
    and "b \<noteq> a \<Longrightarrow> deref (ac_bins (flush_bin now (\<lambda>_. SendOk) st (k, a))) b = deref (ac_bins st) b"
    and "de_delta (deref (ac_bins (flush_bin now (\<lambda>_. SendOk) st (k, a))) a) = 0"
    and "k' \<noteq> k \<Longrightarrow> last_seq (ac_seq (flush_bin now (\<lambda>_. SendOk) st (k, a))) (invDeltaScopeBin, k', ep) =
      last_seq (ac_seq st) (invDeltaScopeBin, k', ep)"
    and "ac_station (flush_bin now (\<lambda>_. SendOk) st (k, a)) = ac_station st"
    and "ac_buckets (flush_bin now (\<lambda>_. SendOk) st (k, a)) = ac_buckets st"
  using assms by (simp_all add: flush_bin_def snapshot_entry_def send_bin_def send_ok write_bin_def write_entry_def
      deref_def flush_msg_def last_seq_update Let_def)

lemma flush_bins_fold:
  fixes now :: instant
  assumes "distinct (map fst ps)" and "distinct (map snd ps)" and "\<forall>(k, a)\<in>set ps. a < length (sm_heap (ac_bins st))"
  defines "st' \<equiv> foldl (flush_bin now (\<lambda>_. SendOk)) st ps"
  shows "ac_outbox st' = ac_outbox st @ map (flush_msg st) (filter (\<lambda>p. de_delta (deref (ac_bins st) (snd p)) \<noteq> 0) ps) \<and>
    sm_map (ac_bins st') = sm_map (ac_bins st) \<and> ac_buckets st' = ac_buckets st \<and>
    (\<forall>b. b \<notin> snd ` set ps \<longrightarrow> deref (ac_bins st') b = deref (ac_bins st) b) \<and>
    (\<forall>p\<in>set ps. de_delta (deref (ac_bins st') (snd p)) = 0)"
  using assms(1-3) unfolding st'_def
proof (induction ps arbitrary: st)
  case (Cons p ps)
  obtain k a where p: "p = (k, a)" by (cases p)
  let ?st = "flush_bin now (\<lambda>_. SendOk) st p"
  have a: "a < length (sm_heap (ac_bins st))" using Cons.prems p by simp
  note eff = flush_bin_ok [OF a, where k = k and now = now, folded p]
  have IH: "ac_outbox (foldl (flush_bin now (\<lambda>_. SendOk)) ?st ps) =
      ac_outbox ?st @ map (flush_msg ?st) (filter (\<lambda>p. de_delta (deref (ac_bins ?st) (snd p)) \<noteq> 0) ps) \<and>
    sm_map (ac_bins (foldl (flush_bin now (\<lambda>_. SendOk)) ?st ps)) = sm_map (ac_bins ?st) \<and>
    ac_buckets (foldl (flush_bin now (\<lambda>_. SendOk)) ?st ps) = ac_buckets ?st \<and>
    (\<forall>b. b \<notin> snd ` set ps \<longrightarrow> deref (ac_bins (foldl (flush_bin now (\<lambda>_. SendOk)) ?st ps)) b = deref (ac_bins ?st) b) \<and>
    (\<forall>q\<in>set ps. de_delta (deref (ac_bins (foldl (flush_bin now (\<lambda>_. SendOk)) ?st ps)) (snd q)) = 0)"
    by (rule Cons.IH) (use Cons.prems in \<open>auto simp: eff(3)\<close>)
  have same: "deref (ac_bins ?st) (snd q) = deref (ac_bins st) (snd q) \<and> flush_msg ?st q = flush_msg st q" if "q \<in> set ps" for q
  proof -
    have "snd q \<noteq> a" "fst q \<noteq> k" using Cons.prems(1,2) that p by force+
    then show ?thesis by (simp add: flush_msg_def eff Let_def)
  qed
  have msgs: "map (flush_msg ?st) (filter (\<lambda>p. de_delta (deref (ac_bins ?st) (snd p)) \<noteq> 0) ps) =
      map (flush_msg st) (filter (\<lambda>p. de_delta (deref (ac_bins st) (snd p)) \<noteq> 0) ps)"
    using same by (auto cong: filter_cong)
  have "a \<notin> snd ` set ps" using Cons.prems(2) p by simp
  then show ?case using IH msgs eff(1,2,4,5,8) p by auto
qed simp

lemma map_ok_addresses:
  assumes "map_ok K m"
  shows "distinct (map snd (sm_map m))" and "\<forall>(k, a)\<in>set (sm_map m). a < length (sm_heap m)"
proof -
  have ok: "distinct (map fst (sm_map m))" "\<forall>(k, a)\<in>set (sm_map m). a < length (sm_heap m) \<and> K (sm_heap m ! a) = k"
    using assms by (auto simp: map_ok_def)
  have "inj_on snd (set (sm_map m))"
  proof (rule inj_onI)
    show "p = q" if "p \<in> set (sm_map m)" "q \<in> set (sm_map m)" "snd p = snd q" for p q
      using bspec [OF ok(2) that(1)] bspec [OF ok(2) that(2)] that(3) by (cases p; cases q) simp
  qed
  then show "distinct (map snd (sm_map m))" using ok(1) by (auto simp: distinct_map)
  show "\<forall>(k, a)\<in>set (sm_map m). a < length (sm_heap m)" using ok(2) by auto
qed

lemma flush_bucket_zero:
  assumes "a < length (sm_heap (ac_buckets st))"
  shows "sm_map (ac_buckets (flush_bucket now pn (\<lambda>_. SendOk) st (k, a))) = sm_map (ac_buckets st) \<and>
    length (sm_heap (ac_buckets (flush_bucket now pn (\<lambda>_. SendOk) st (k, a)))) = length (sm_heap (ac_buckets st)) \<and>
    de_delta (deref (ac_buckets (flush_bucket now pn (\<lambda>_. SendOk) st (k, a))) a) = 0 \<and>
    (b \<noteq> a \<longrightarrow> deref (ac_buckets (flush_bucket now pn (\<lambda>_. SendOk) st (k, a))) b = deref (ac_buckets st) b) \<and>
    ac_bins (flush_bucket now pn (\<lambda>_. SendOk) st (k, a)) = ac_bins st"
  using assms by (simp add: flush_bucket_def snapshot_entry_def send_bucket_def send_ok write_bucket_def write_entry_def
      deref_def count_failure_def Let_def)

lemma flush_buckets_fold:
  fixes now :: instant
  assumes "distinct (map snd ps)" and "\<forall>(k, a)\<in>set ps. a < length (sm_heap (ac_buckets st))"
  shows "sm_map (ac_buckets (foldl (flush_bucket now pn (\<lambda>_. SendOk)) st ps)) = sm_map (ac_buckets st) \<and>
    ac_bins (foldl (flush_bucket now pn (\<lambda>_. SendOk)) st ps) = ac_bins st \<and>
    (\<forall>b. b \<notin> snd ` set ps \<longrightarrow> deref (ac_buckets (foldl (flush_bucket now pn (\<lambda>_. SendOk)) st ps)) b = deref (ac_buckets st) b) \<and>
    (\<forall>p\<in>set ps. de_delta (deref (ac_buckets (foldl (flush_bucket now pn (\<lambda>_. SendOk)) st ps)) (snd p)) = 0)"
  using assms
proof (induction ps arbitrary: st)
  case (Cons p ps)
  obtain k a where p: "p = (k, a)" by (cases p)
  let ?st = "flush_bucket now pn (\<lambda>_. SendOk) st p"
  have a: "a < length (sm_heap (ac_buckets st))" using Cons.prems p by simp
  note eff = flush_bucket_zero [OF a, where k = k and now = now and pn = pn, folded p]
  have IH: "sm_map (ac_buckets (foldl (flush_bucket now pn (\<lambda>_. SendOk)) ?st ps)) = sm_map (ac_buckets ?st) \<and>
    ac_bins (foldl (flush_bucket now pn (\<lambda>_. SendOk)) ?st ps) = ac_bins ?st \<and>
    (\<forall>b. b \<notin> snd ` set ps \<longrightarrow> deref (ac_buckets (foldl (flush_bucket now pn (\<lambda>_. SendOk)) ?st ps)) b = deref (ac_buckets ?st) b) \<and>
    (\<forall>p\<in>set ps. de_delta (deref (ac_buckets (foldl (flush_bucket now pn (\<lambda>_. SendOk)) ?st ps)) (snd p)) = 0)"
    by (rule Cons.IH) (use Cons.prems eff in auto)
  have "a \<notin> snd ` set ps" using Cons.prems(1) p by simp
  then show ?case using IH eff p by auto
qed simp

definition drained :: "('x delta_entry_scheme) sync_map \<Rightarrow> bool" where
  "drained m \<longleftrightarrow> (\<forall>(k, a)\<in>set (sm_map m). de_delta (deref m a) = 0)"

lemma drained_pending: "drained m \<Longrightarrow> pending m k = 0"
  by (auto simp: drained_def pending_def dest: map_of_SomeD split: option.splits)

lemma evict_entry_delta: "de_delta (deref (evict_entry cutoff m ka) a) = de_delta (deref m a)"
  by (cases "snd ka < length (sm_heap m)"; cases "a = snd ka")
    (simp_all add: evict_entry_def CompareAndDelete_def write_entry_def deref_def list_update_beyond)

lemma evict_fold_drained:
  "drained m \<Longrightarrow> drained (foldl (evict_entry cutoff) m ps)"
proof (induction ps arbitrary: m)
  case (Cons p ps)
  have "set (sm_map (evict_entry cutoff m p)) \<subseteq> set (sm_map m)"
    by (auto simp: evict_entry_def CompareAndDelete_def write_entry_def)
  then have "drained (evict_entry cutoff m p)" using Cons.prems by (fastforce simp: drained_def evict_entry_delta)
  then show ?case using Cons.IH by simp
qed simp

lemma evictIdle_outbox [simp]: "ac_outbox (evictIdle now i st) = ac_outbox st"
  by (simp add: evictIdle_def)

lemma send_bucket_bin_outbox: "bin_deltas (ac_outbox (fst (send_bucket oc k n s st))) = bin_deltas (ac_outbox st)"
  by (cases oc) (simp_all add: send_bucket_def send_def AllocateInventoryDeltaSeq_def Let_def)

lemma flush_bucket_bin_outbox: "bin_deltas (ac_outbox (flush_bucket now pn oc st ka)) = bin_deltas (ac_outbox st)"
  by (cases "snapshot_entry (ac_buckets st) (snd ka)")
    (simp_all add: flush_bucket_def send_bucket_bin_outbox write_bucket_def count_failure_def Let_def)

lemma flush_buckets_bin_outbox: "bin_deltas (ac_outbox (foldl (flush_bucket now pn oc) st ps)) = bin_deltas (ac_outbox st)"
  by (induction ps arbitrary: st) (simp_all add: flush_bucket_bin_outbox)

lemma evict_entry_keeps: "p \<noteq> q \<Longrightarrow> q \<in> set (sm_map m) \<Longrightarrow> q \<in> set (sm_map (evict_entry cutoff m p))"
  by (cases p) (auto simp: evict_entry_def CompareAndDelete_def write_entry_def)

text \<open>Each uninterrupted piece is a run of the interleaved system.\<close>

abbreviation acc_run :: "conc \<Rightarrow> conc \<Rightarrow> bool" where "acc_run \<equiv> acc_step\<^sup>*\<^sup>*"

definition same_calls :: "conc \<Rightarrow> conc \<Rightarrow> bool" where
  "same_calls s s' \<longleftrightarrow> cc_bin_calls s' = cc_bin_calls s \<and> cc_bucket_calls s' = cc_bucket_calls s \<and>
     cc_bin_threads s' = cc_bin_threads s \<and> cc_bucket_threads s' = cc_bucket_threads s \<and> cc_flusher s' = cc_flusher s"

lemma same_calls_refl [simp]: "same_calls s s"
  by (simp add: same_calls_def)

lemma same_calls_trans: "same_calls a b \<Longrightarrow> same_calls b c \<Longrightarrow> same_calls a c"
  by (simp add: same_calls_def)

lemma flush_bin_run:
  assumes "cc_flusher s = FlushIdle" and "ka \<in> set (sm_map (binm s))"
  shows "\<exists>s'. acc_run s s' \<and> same_calls s s' \<and> cc_acc s' = flush_bin now oc (cc_acc s) ka"
proof (cases "snapshot_entry (binm s) (snd ka)")
  case None
  then show ?thesis by (intro exI [of _ s]) (simp add: flush_bin_def)
next
  case (Some e)
  obtain k a where ka: "ka = (k, a)" by (cases ka)
  obtain acc ok where send: "send_bin (oc k) k e (cc_acc s) = (acc, ok)" by fastforce
  let ?s1 = "s\<lparr>cc_flusher := BinSnap k a e\<rparr>"
  let ?s2 = "?s1\<lparr>cc_acc := acc, cc_flusher := (if ok then BinSent k a e else FlushIdle)\<rparr>"
  have s1: "acc_step s ?s1" using assms Some ka by (auto intro: bin_snapshot)
  have s2: "acc_step ?s1 ?s2" by (rule bin_send) (use send in auto)
  show ?thesis
  proof (cases ok)
    case False
    then have "same_calls s ?s2 \<and> cc_acc ?s2 = flush_bin now oc (cc_acc s) ka"
      using Some send assms ka by (simp add: flush_bin_def same_calls_def)
    then show ?thesis using s1 s2 by (meson converse_rtranclp_into_rtranclp r_into_rtranclp)
  next
    case True
    let ?s3 = "(upd_bins (write_entry a (commit_entry now e)) ?s2)\<lparr>cc_flusher := FlushIdle\<rparr>"
    have s3: "acc_step ?s2 ?s3" by (rule bin_commit [where k = k]) (simp add: True)
    have "same_calls s ?s3 \<and> cc_acc ?s3 = flush_bin now oc (cc_acc s) ka"
      using Some send assms ka True by (simp add: flush_bin_def same_calls_def upd_bins_def write_bin_def)
    then show ?thesis using s1 s2 s3 by (meson converse_rtranclp_into_rtranclp r_into_rtranclp)
  qed
qed

lemma flush_bucket_run:
  assumes "cc_flusher s = FlushIdle" and "ka \<in> set (sm_map (bucketm s))"
  shows "\<exists>s'. acc_run s s' \<and> same_calls s s' \<and> cc_acc s' = flush_bucket now pn oc (cc_acc s) ka"
proof (cases "snapshot_entry (bucketm s) (snd ka)")
  case None
  then show ?thesis by (intro exI [of _ s]) (simp add: flush_bucket_def)
next
  case (Some f)
  obtain k a where ka: "ka = (k, a)" by (cases ka)
  let ?s1 = "s\<lparr>cc_flusher := BucketSnap k a f\<rparr>"
  have s1: "acc_step s ?s1" using assms Some ka by (auto intro: bucket_snapshot)
  show ?thesis
  proof (cases "core_node_of pn f = ''''")
    case True
    let ?s2 = "?s1\<lparr>cc_acc := count_failure (cc_acc ?s1), cc_flusher := BucketDrop k a f\<rparr>"
    let ?s3 = "(upd_buckets (write_entry a (settle f)) ?s2)\<lparr>cc_flusher := FlushIdle, cc_bucket_drops := cc_bucket_drops ?s2 @ [(k, de_delta f)]\<rparr>"
    have s2: "acc_step ?s1 ?s2" by (rule bucket_unsendable [where procNode = pn]) (use True in auto)
    have s3: "acc_step ?s2 ?s3" by (rule bucket_drop) simp
    have "same_calls s ?s3 \<and> cc_acc ?s3 = flush_bucket now pn oc (cc_acc s) ka"
      using Some assms ka True by (simp add: flush_bucket_def same_calls_def upd_buckets_def write_bucket_def)
    then show ?thesis using s1 s2 s3 by (meson converse_rtranclp_into_rtranclp r_into_rtranclp)
  next
    case named: False
    obtain acc ok where send: "send_bucket (oc k) k (core_node_of pn f) f (cc_acc s) = (acc, ok)" by fastforce
    let ?s2 = "?s1\<lparr>cc_acc := acc, cc_flusher := (if ok then BucketSent k a f else FlushIdle),
      cc_bucket_ships := (if ok then cc_bucket_ships ?s1 @ [(k, de_delta f)] else cc_bucket_ships ?s1)\<rparr>"
    have s2: "acc_step ?s1 ?s2" by (rule bucket_send [where procNode = pn]) (use send named in auto)
    show ?thesis
    proof (cases ok)
      case False
      then have "same_calls s ?s2 \<and> cc_acc ?s2 = flush_bucket now pn oc (cc_acc s) ka"
        using Some send assms ka named by (simp add: flush_bucket_def same_calls_def)
      then show ?thesis using s1 s2 by (meson converse_rtranclp_into_rtranclp r_into_rtranclp)
    next
      case True
      let ?s3 = "(upd_buckets (write_entry a (commit_entry now f)) ?s2)\<lparr>cc_flusher := FlushIdle\<rparr>"
      have s3: "acc_step ?s2 ?s3" by (rule bucket_commit [where k = k]) (simp add: True)
      have "same_calls s ?s3 \<and> cc_acc ?s3 = flush_bucket now pn oc (cc_acc s) ka"
        using Some send assms ka named True by (simp add: flush_bucket_def same_calls_def upd_buckets_def write_bucket_def)
      then show ?thesis using s1 s2 s3 by (meson converse_rtranclp_into_rtranclp r_into_rtranclp)
    qed
  qed
qed

lemma fold_run:
  assumes step: "\<And>s ka. cc_flusher s = FlushIdle \<Longrightarrow> ka \<in> set (mp (cc_acc s)) \<Longrightarrow>
      \<exists>s'. acc_run s s' \<and> same_calls s s' \<and> cc_acc s' = F (cc_acc s) ka"
    and keep: "\<And>st p q. p \<noteq> q \<Longrightarrow> q \<in> set (mp st) \<Longrightarrow> q \<in> set (mp (F st p))"
  shows "cc_flusher s = FlushIdle \<Longrightarrow> distinct ps \<Longrightarrow> set ps \<subseteq> set (mp (cc_acc s)) \<Longrightarrow>
    \<exists>s'. acc_run s s' \<and> same_calls s s' \<and> cc_acc s' = foldl F (cc_acc s) ps"
proof (induction ps arbitrary: s)
  case Nil
  then show ?case by (intro exI [of _ s]) simp
next
  case (Cons p ps)
  then obtain s1 where s1: "acc_run s s1" "same_calls s s1" "cc_acc s1 = F (cc_acc s) p" using step [of s p] by auto
  have "set ps \<subseteq> set (mp (cc_acc s1))"
  proof
    show "q \<in> set (mp (cc_acc s1))" if "q \<in> set ps" for q
      using that Cons.prems(2,3) keep [of p q "cc_acc s"] s1(3) by auto
  qed
  moreover have "cc_flusher s1 = FlushIdle" using s1(2) Cons.prems(1) by (simp add: same_calls_def)
  ultimately obtain s2 where "acc_run s1 s2" "same_calls s1 s2" "cc_acc s2 = foldl F (cc_acc s1) ps"
    using Cons.IH [of s1] Cons.prems(2) by auto
  then show ?case using s1 same_calls_trans by (intro exI [of _ s2]) (auto intro: rtranclp_trans)
qed

lemma evict_bin_run:
  assumes "cc_flusher s = FlushIdle" and "ka \<in> set (sm_map (binm s))"
  shows "\<exists>s'. acc_run s s' \<and> same_calls s s' \<and> cc_acc s' = (cc_acc s)\<lparr>ac_bins := evict_entry cutoff (binm s) ka\<rparr>"
proof (cases "idle cutoff (deref (binm s) (snd ka))")
  case False
  then show ?thesis by (intro exI [of _ s]) (simp add: evict_entry_def)
next
  case True
  obtain k a where ka: "ka = (k, a)" by (cases ka)
  let ?s1 = "(upd_bins (write_entry a mark_evicted) s)\<lparr>cc_flusher := BinMarked k a\<rparr>"
  let ?s2 = "(upd_bins (CompareAndDelete k a) ?s1)\<lparr>cc_flusher := FlushIdle\<rparr>"
  have "acc_step s ?s1" using assms True ka by (auto intro: bin_mark)
  moreover have "acc_step ?s1 ?s2" by (rule bin_remove) simp
  moreover have "same_calls s ?s2 \<and> cc_acc ?s2 = (cc_acc s)\<lparr>ac_bins := evict_entry cutoff (binm s) ka\<rparr>"
    using True assms ka by (simp add: same_calls_def upd_bins_def evict_entry_def)
  ultimately show ?thesis by (meson converse_rtranclp_into_rtranclp r_into_rtranclp)
qed

lemma evict_bucket_run:
  assumes "cc_flusher s = FlushIdle" and "ka \<in> set (sm_map (bucketm s))"
  shows "\<exists>s'. acc_run s s' \<and> same_calls s s' \<and> cc_acc s' = (cc_acc s)\<lparr>ac_buckets := evict_entry cutoff (bucketm s) ka\<rparr>"
proof (cases "idle cutoff (deref (bucketm s) (snd ka))")
  case False
  then show ?thesis by (intro exI [of _ s]) (simp add: evict_entry_def)
next
  case True
  obtain k a where ka: "ka = (k, a)" by (cases ka)
  let ?s1 = "(upd_buckets (write_entry a mark_evicted) s)\<lparr>cc_flusher := BucketMarked k a\<rparr>"
  let ?s2 = "(upd_buckets (CompareAndDelete k a) ?s1)\<lparr>cc_flusher := FlushIdle\<rparr>"
  have "acc_step s ?s1" using assms True ka by (auto intro: bucket_mark)
  moreover have "acc_step ?s1 ?s2" by (rule bucket_remove) simp
  moreover have "same_calls s ?s2 \<and> cc_acc ?s2 = (cc_acc s)\<lparr>ac_buckets := evict_entry cutoff (bucketm s) ka\<rparr>"
    using True assms ka by (simp add: same_calls_def upd_buckets_def evict_entry_def)
  ultimately show ?thesis by (meson converse_rtranclp_into_rtranclp r_into_rtranclp)
qed

lemma flush_bin_map: "sm_map (ac_bins (flush_bin now oc st ka)) = sm_map (ac_bins st)"
  using send_bin_maps [of "oc (fst ka)" "fst ka" _ st]
  by (cases "snapshot_entry (ac_bins st) (snd ka)") (auto simp: flush_bin_def write_bin_def write_entry_def Let_def prod_eq_iff)

lemma flush_bucket_map: "sm_map (ac_buckets (flush_bucket now pn oc st ka)) = sm_map (ac_buckets st)"
  using send_bucket_maps [of "oc (fst ka)" "fst ka" _ _ st]
  by (cases "snapshot_entry (ac_buckets st) (snd ka)")
    (auto simp: flush_bucket_def write_bucket_def write_entry_def count_failure_def Let_def prod_eq_iff)

lemma evict_fold:
  "foldl (\<lambda>acc ka. acc\<lparr>ac_bins := evict_entry cutoff (ac_bins acc) ka\<rparr>) st ps = st\<lparr>ac_bins := foldl (evict_entry cutoff) (ac_bins st) ps\<rparr>"
  "foldl (\<lambda>acc ka. acc\<lparr>ac_buckets := evict_entry cutoff (ac_buckets acc) ka\<rparr>) st ps =
     st\<lparr>ac_buckets := foldl (evict_entry cutoff) (ac_buckets st) ps\<rparr>"
  by (induction ps arbitrary: st) simp_all

lemma run_ok: "acc_run s s' \<Longrightarrow> conc_ok s \<Longrightarrow> conc_ok s'"
  by (induction rule: rtranclp_induct) (auto intro: conc_ok_step)

lemma map_ok_distinct: "map_ok K m \<Longrightarrow> distinct (sm_map m)"
  by (auto simp: map_ok_def distinct_map)

lemma flush_run:
  assumes "conc_ok s" and "cc_flusher s = FlushIdle"
  shows "\<exists>s'. acc_run s s' \<and> same_calls s s' \<and> cc_acc s' = flush now pn oc oc' (cc_acc s)"
proof -
  obtain s1 where s1: "acc_run s s1" "same_calls s s1" "cc_acc s1 = flushBins now oc (cc_acc s)"
    using fold_run [of "\<lambda>acc. sm_map (ac_bins acc)" "flush_bin now oc", OF flush_bin_run, of s "sm_map (binm s)"] assms
    by (auto simp: flush_bin_map flushBins_def conc_ok_def map_ok_distinct)
  have ok1: "conc_ok s1" "cc_flusher s1 = FlushIdle" using run_ok [OF s1(1)] s1(2) assms by (auto simp: same_calls_def)
  obtain s2 where s2: "acc_run s1 s2" "same_calls s1 s2" "cc_acc s2 = flushBuckets now pn oc' (cc_acc s1)"
    using fold_run [of "\<lambda>acc. sm_map (ac_buckets acc)" "flush_bucket now pn oc'", OF flush_bucket_run, of s1 "sm_map (bucketm s1)"] ok1
    by (auto simp: flush_bucket_map flushBuckets_def conc_ok_def map_ok_distinct)
  have ok2: "conc_ok s2" "cc_flusher s2 = FlushIdle" using run_ok [OF s2(1)] s2(2) ok1 by (auto simp: same_calls_def)
  let ?cut = "now - hour"
  obtain s3 where s3: "acc_run s2 s3" "same_calls s2 s3" "cc_acc s3 = (cc_acc s2)\<lparr>ac_bins := foldl (evict_entry ?cut) (binm s2) (sm_map (binm s2))\<rparr>"
    using fold_run [of "\<lambda>acc. sm_map (ac_bins acc)" "\<lambda>acc ka. acc\<lparr>ac_bins := evict_entry ?cut (ac_bins acc) ka\<rparr>", OF evict_bin_run, of s2 "sm_map (binm s2)"] ok2
    by (auto simp: evict_fold evict_entry_keeps conc_ok_def map_ok_distinct)
  have ok3: "conc_ok s3" "cc_flusher s3 = FlushIdle" using run_ok [OF s3(1)] s3(2) ok2 by (auto simp: same_calls_def)
  obtain s4 where s4: "acc_run s3 s4" "same_calls s3 s4"
      "cc_acc s4 = (cc_acc s3)\<lparr>ac_buckets := foldl (evict_entry ?cut) (bucketm s3) (sm_map (bucketm s3))\<rparr>"
    using fold_run [of "\<lambda>acc. sm_map (ac_buckets acc)" "\<lambda>acc ka. acc\<lparr>ac_buckets := evict_entry ?cut (ac_buckets acc) ka\<rparr>", OF evict_bucket_run, of s3 "sm_map (bucketm s3)"] ok3
    by (auto simp: evict_fold evict_entry_keeps conc_ok_def map_ok_distinct)
  have "cc_acc s4 = flush now pn oc oc' (cc_acc s)" by (simp add: s4(3) s3(3) s2(3) s1(3) flush_def evictIdle_def)
  moreover have "acc_run s s4" using s1(1) s2(1) s3(1) s4(1) by (meson rtranclp_trans)
  moreover have "same_calls s s4" using s1(2) s2(2) s3(2) s4(2) by (meson same_calls_trans)
  ultimately show ?thesis by blast
qed

lemma LoadOrStore_evicted:
  "LoadOrStore k e m = (m', a) \<Longrightarrow> de_evicted (deref m' a) \<Longrightarrow> \<not> de_evicted e \<Longrightarrow> m' = m \<and> (k, a) \<in> set (sm_map m)"
  by (cases "map_of (sm_map m) k") (auto simp: LoadOrStore_def deref_def dest: map_of_SomeD)

lemma CompareAndDelete_shorter: "(k, a) \<in> set (sm_map m) \<Longrightarrow> length (sm_map (CompareAndDelete k a m)) < length (sm_map m)"
  by (auto simp: CompareAndDelete_def intro: length_filter_less)

definition recorded_bin :: "conc \<Rightarrow> bin_call \<Rightarrow> bin_call rec_thread list \<Rightarrow> binDeltaEntry sync_map \<Rightarrow> conc \<Rightarrow> bool" where
  "recorded_bin s c ts m s' \<longleftrightarrow> acc_run s s' \<and> cc_acc s' = (cc_acc s)\<lparr>ac_bins := m\<rparr> \<and> cc_bin_threads s' = ts \<and>
     cc_bin_calls s' = cc_bin_calls s @ [c] \<and> cc_bucket_calls s' = cc_bucket_calls s \<and>
     cc_bucket_threads s' = cc_bucket_threads s \<and> cc_flusher s' = cc_flusher s"

lemma recordBin_loop_run:
  "cc_bin_threads s = xs @ [RecCalled c] \<Longrightarrow>
   \<exists>m s'. recordBin_loop now c (binm s) = Some m \<and> recorded_bin s c xs m s'"
proof (induction "length (sm_map (binm s))" arbitrary: s rule: less_induct)
  case less
  let ?k = "bin_call_key c"
  obtain m a where load: "LoadOrStore ?k (fresh_bin now c) (binm s) = (m, a)" by fastforce
  let ?s1 = "(upd_bins (\<lambda>_. m) s)\<lparr>cc_bin_threads := xs @ RecLoaded c a # []\<rparr>"
  have s1: "acc_step s ?s1" by (rule bin_loaded [OF less.prems load])
  have simps: "recordBin_loop now c (binm s) = (if de_evicted (deref m a) then recordBin_loop now c (CompareAndDelete ?k a m)
      else Some (write_entry a (touch_bin now c) m))"
    by (subst recordBin_loop.simps) (simp add: load Let_def)
  show ?case
  proof (cases "de_evicted (deref m a)")
    case False
    let ?s2 = "(upd_bins (write_entry a (touch_bin now c)) ?s1)\<lparr>cc_bin_threads := xs @ [], cc_bin_calls := cc_bin_calls ?s1 @ [c]\<rparr>"
    have s2: "acc_step ?s1 ?s2" by (rule bin_recorded) (use False in auto)
    have "acc_run s ?s2" using s1 s2 by (meson converse_rtranclp_into_rtranclp r_into_rtranclp)
    then have "recorded_bin s c xs (write_entry a (touch_bin now c) m) ?s2" by (simp add: recorded_bin_def upd_bins_def)
    then show ?thesis using simps False by auto
  next
    case True
    then have old: "m = binm s" "(?k, a) \<in> set (sm_map (binm s))"
      using LoadOrStore_evicted [OF load] by simp_all
    let ?s2 = "?s1\<lparr>cc_bin_threads := xs @ RecStale c a # []\<rparr>"
    let ?s3 = "(upd_bins (CompareAndDelete ?k a) ?s2)\<lparr>cc_bin_threads := xs @ RecCalled c # []\<rparr>"
    have s2: "acc_step ?s1 ?s2" by (rule bin_stale) (use True in auto)
    have s3: "acc_step ?s2 ?s3" by (rule bin_retry) simp
    have "length (sm_map (binm ?s3)) < length (sm_map (binm s))" using CompareAndDelete_shorter [OF old(2)] old(1) by simp
    then obtain m' s' where m': "recordBin_loop now c (binm ?s3) = Some m'" "recorded_bin ?s3 c xs m' s'"
      using less.hyps [of ?s3] by auto
    have "acc_run s ?s3" using s1 s2 s3 by (meson converse_rtranclp_into_rtranclp r_into_rtranclp)
    then have "recorded_bin s c xs m' s'" using m'(2) by (auto simp: recorded_bin_def upd_bins_def intro: rtranclp_trans)
    then show ?thesis using simps True m'(1) by auto
  qed
qed

lemma record_run:
  assumes "bin_call_ok c"
  shows "\<exists>st s'. recordBin now c (cc_acc s) = Some st \<and> acc_run s s' \<and> cc_acc s' = st \<and>
    cc_bin_calls s' = cc_bin_calls s @ [c] \<and> cc_bucket_calls s' = cc_bucket_calls s \<and> cc_flusher s' = cc_flusher s"
proof -
  let ?s1 = "s\<lparr>cc_bin_threads := cc_bin_threads s @ [RecCalled c]\<rparr>"
  have "acc_step s ?s1" by (rule bin_called [OF assms])
  moreover obtain m s' where "recordBin_loop now c (binm s) = Some m" "recorded_bin ?s1 c (cc_bin_threads s) m s'"
    using recordBin_loop_run [of ?s1 "cc_bin_threads s" c now] by auto
  ultimately show ?thesis using assms
    by (auto simp: recordBin_def recorded_bin_def intro: converse_rtranclp_into_rtranclp)
qed

definition recorded_bucket :: "conc \<Rightarrow> bucket_call \<Rightarrow> bucket_call rec_thread list \<Rightarrow> bucketDeltaEntry sync_map \<Rightarrow> conc \<Rightarrow> bool" where
  "recorded_bucket s c ts m s' \<longleftrightarrow> acc_run s s' \<and> cc_acc s' = (cc_acc s)\<lparr>ac_buckets := m\<rparr> \<and> cc_bucket_threads s' = ts \<and>
     cc_bucket_calls s' = cc_bucket_calls s @ [c] \<and> cc_bin_calls s' = cc_bin_calls s \<and>
     cc_bin_threads s' = cc_bin_threads s \<and> cc_flusher s' = cc_flusher s"

lemma recordBucket_loop_run:
  "cc_bucket_threads s = xs @ [RecCalled c] \<Longrightarrow>
   \<exists>m s'. recordBucket_loop now c (bucketm s) = Some m \<and> recorded_bucket s c xs m s'"
proof (induction "length (sm_map (bucketm s))" arbitrary: s rule: less_induct)
  case less
  let ?k = "bucket_call_key c"
  obtain m a where load: "LoadOrStore ?k (fresh_bucket now c) (bucketm s) = (m, a)" by fastforce
  let ?s1 = "(upd_buckets (\<lambda>_. m) s)\<lparr>cc_bucket_threads := xs @ RecLoaded c a # []\<rparr>"
  have s1: "acc_step s ?s1" by (rule bucket_loaded [OF less.prems load])
  have simps: "recordBucket_loop now c (bucketm s) = (if de_evicted (deref m a) then recordBucket_loop now c (CompareAndDelete ?k a m)
      else Some (write_entry a (touch_bucket now c) m))"
    by (subst recordBucket_loop.simps) (simp add: load Let_def)
  show ?case
  proof (cases "de_evicted (deref m a)")
    case False
    let ?s2 = "(upd_buckets (write_entry a (touch_bucket now c)) ?s1)\<lparr>cc_bucket_threads := xs @ [], cc_bucket_calls := cc_bucket_calls ?s1 @ [c]\<rparr>"
    have s2: "acc_step ?s1 ?s2" by (rule bucket_recorded) (use False in auto)
    have "acc_run s ?s2" using s1 s2 by (meson converse_rtranclp_into_rtranclp r_into_rtranclp)
    then have "recorded_bucket s c xs (write_entry a (touch_bucket now c) m) ?s2" by (simp add: recorded_bucket_def upd_buckets_def)
    then show ?thesis using simps False by auto
  next
    case True
    then have old: "m = bucketm s" "(?k, a) \<in> set (sm_map (bucketm s))"
      using LoadOrStore_evicted [OF load] by simp_all
    let ?s2 = "?s1\<lparr>cc_bucket_threads := xs @ RecStale c a # []\<rparr>"
    let ?s3 = "(upd_buckets (CompareAndDelete ?k a) ?s2)\<lparr>cc_bucket_threads := xs @ RecCalled c # []\<rparr>"
    have s2: "acc_step ?s1 ?s2" by (rule bucket_stale) (use True in auto)
    have s3: "acc_step ?s2 ?s3" by (rule bucket_retry) simp
    have "length (sm_map (bucketm ?s3)) < length (sm_map (bucketm s))" using CompareAndDelete_shorter [OF old(2)] old(1) by simp
    then obtain m' s' where m': "recordBucket_loop now c (bucketm ?s3) = Some m'" "recorded_bucket ?s3 c xs m' s'"
      using less.hyps [of ?s3] by auto
    have "acc_run s ?s3" using s1 s2 s3 by (meson converse_rtranclp_into_rtranclp r_into_rtranclp)
    then have "recorded_bucket s c xs m' s'" using m'(2) by (auto simp: recorded_bucket_def upd_buckets_def intro: rtranclp_trans)
    then show ?thesis using simps True m'(1) by auto
  qed
qed

lemma record_bucket_run:
  assumes "bucket_call_ok c"
  shows "\<exists>st s'. recordBucket now c (cc_acc s) = Some st \<and> acc_run s s' \<and> cc_acc s' = st \<and>
    cc_bucket_calls s' = cc_bucket_calls s @ [c] \<and> cc_bin_calls s' = cc_bin_calls s \<and> cc_flusher s' = cc_flusher s"
proof -
  let ?s1 = "s\<lparr>cc_bucket_threads := cc_bucket_threads s @ [RecCalled c]\<rparr>"
  have "acc_step s ?s1" by (rule bucket_called [OF assms])
  moreover obtain m s' where "recordBucket_loop now c (bucketm s) = Some m" "recorded_bucket ?s1 c (cc_bucket_threads s) m s'"
    using recordBucket_loop_run [of ?s1 "cc_bucket_threads s" c now] by auto
  ultimately show ?thesis using assms
    by (auto simp: recordBucket_def recorded_bucket_def intro: converse_rtranclp_into_rtranclp)
qed

section \<open>Properties\<close>

lemma reach_run: "acc_run s s' \<Longrightarrow> acc_reach station s \<Longrightarrow> acc_reach station s'"
  by (induction rule: rtranclp_induct) (auto intro: acc_next)

lemma call_part: "part bin_call_key bc_delta (format_int b) cs = sum_list (map bc_delta (filter (\<lambda>c. bc_bin c = b) cs))"
  by (simp add: part_filter bin_call_key_def format_int_inj)


definition tick :: bin_call where
  "tick = \<lparr>bc_bin = 7, bc_payload = ''P1'', bc_delta = -3, bc_reason = ReasonConsumeTick, bc_epoch = 2\<rparr>"

definition capture :: bucket_call where
  "capture = \<lparr>kc_node = 4, kc_core_node = ''A1'', kc_pair = ''A'', kc_style = 9, kc_part = ''X'', kc_payload = ''P1'',
     kc_delta = 12, kc_reason = ''capture_fill''\<rparr>"

lemma tick_reached:
  "\<exists>s. acc_reach ''edge1'' s \<and> cc_flusher s = FlushIdle \<and> cc_bin_calls s = [tick] \<and>
     Some (cc_acc s) = recordBin 100 tick (newAccumulator ''edge1'')"
proof -
  have "bin_call_ok tick" by (simp add: bin_call_ok_def tick_def)
  from record_run [OF this, of 100 "conc_start ''edge1''"] obtain s where
    "acc_run (conc_start ''edge1'') s" "recordBin 100 tick (newAccumulator ''edge1'') = Some (cc_acc s)"
    "cc_bin_calls s = [tick]" "cc_flusher s = FlushIdle" by (auto simp: conc_start_def)
  then show ?thesis using reach_run [OF _ acc_start] by (intro exI [of _ s]) simp
qed

lemma tick_recorded:
  "recordBin 100 tick (newAccumulator ''edge1'') = Some ((newAccumulator ''edge1'')\<lparr>ac_bins :=
     \<lparr>sm_heap = [touch_bin 100 tick (fresh_bin 100 tick)], sm_map = [(format_int 7, 0)]\<rparr>\<rparr>)"
  by (subst recordBin_def, subst recordBin_loop.simps)
    (simp add: bin_call_ok_def tick_def newAccumulator_def empty_map_def LoadOrStore_def deref_def write_entry_def bin_call_key_def Let_def)


text \<open>C27. Sequence numbers identify shipments.  In every reachable state the numbers of the messages in
  the outbox for one bin and one epoch are positive and strictly increasing in the order they were
  enqueued, so a later message never carries a number Core has already seen.\<close>
theorem sequence_numbers_increase:
  assumes "acc_reach station s"
  shows "sorted_wrt (<) (map bd_seq (filter (\<lambda>d. bd_bin d = b \<and> bd_epoch d = ep) (bin_deltas (ac_outbox (cc_acc s))))) \<and>
    list_all (\<lambda>d. 1 \<le> bd_seq d) (filter (\<lambda>d. bd_bin d = b \<and> bd_epoch d = ep) (bin_deltas (ac_outbox (cc_acc s))))"
  using seq_ok_reach [OF assms] by (auto simp: seq_ok_def numbered_def list_all_iff)

theorem sequence_numbers_increase_witness:
  "\<exists>s. acc_reach ''edge1'' s \<and> cc_bin_calls s = [tick] \<and>
     sorted_wrt (<) (map bd_seq (filter (\<lambda>d. bd_bin d = 7 \<and> bd_epoch d = 2) (bin_deltas (ac_outbox (cc_acc s)))))"
  using tick_reached sequence_numbers_increase [where b = 7 and ep = 2] by blast

text \<open>C26. A flush that meets no failure ships everything.  Each bin entry that holds a count becomes one
  message with that count, the next number of its bin and epoch, its reason and its window, in the
  order of the map, and afterwards neither map holds an unshipped count.\<close>
theorem flush_ships_everything:
  assumes "acc_reach station s" and "cc_acc s = st"
  shows "bin_deltas (ac_outbox (flush now procNode (\<lambda>_. SendOk) (\<lambda>_. SendOk) st)) = bin_deltas (ac_outbox st) @
      map (\<lambda>(k, a). let e = deref (ac_bins st) a in
          bin_message (ac_station st) (last_seq (ac_seq st) (invDeltaScopeBin, k, be_epoch e) + 1) e)
        (filter (\<lambda>(k, a). de_delta (deref (ac_bins st) a) \<noteq> 0) (sm_map (ac_bins st))) \<and>
    pending (ac_bins (flush now procNode (\<lambda>_. SendOk) (\<lambda>_. SendOk) st)) k = 0 \<and>
    pending (ac_buckets (flush now procNode (\<lambda>_. SendOk) (\<lambda>_. SendOk) st)) k = 0"
proof -
  have ok: "map_ok bin_key (ac_bins st)" "map_ok bucket_key (ac_buckets st)"
    using conc_ok_reach [OF assms(1)] assms(2) by (auto simp: conc_ok_def)
  let ?st1 = "flushBins now (\<lambda>_. SendOk) st" and ?st2 = "flushBuckets now procNode (\<lambda>_. SendOk) (flushBins now (\<lambda>_. SendOk) st)"
  have fst_ok: "distinct (map fst (sm_map (ac_bins st)))" using ok(1) by (simp add: map_ok_def)
  have b: "ac_outbox ?st1 = ac_outbox st @ map (flush_msg st) (filter (\<lambda>p. de_delta (deref (ac_bins st) (snd p)) \<noteq> 0) (sm_map (ac_bins st)))"
    "drained (ac_bins ?st1)" "ac_buckets ?st1 = ac_buckets st"
    using flush_bins_fold [OF fst_ok map_ok_addresses [OF ok(1)], where now = now] unfolding flushBins_def drained_def by auto
  have k: "drained (ac_buckets ?st2)" "ac_bins ?st2 = ac_bins ?st1" "bin_deltas (ac_outbox ?st2) = bin_deltas (ac_outbox ?st1)"
    using flush_buckets_fold [of "sm_map (ac_buckets ?st1)" ?st1 now procNode] map_ok_addresses [OF ok(2)]
    unfolding flushBuckets_def drained_def b(3) by (auto simp: flush_buckets_bin_outbox)
  have "bin_deltas (map (flush_msg st) ps) = map (\<lambda>(k, a). let e = deref (ac_bins st) a in
          bin_message (ac_station st) (last_seq (ac_seq st) (invDeltaScopeBin, k, be_epoch e) + 1) e) ps" for ps
    by (induction ps) (auto simp: flush_msg_def Let_def)
  then have "bin_deltas (ac_outbox ?st1) = bin_deltas (ac_outbox st) @
      map (\<lambda>(k, a). let e = deref (ac_bins st) a in
          bin_message (ac_station st) (last_seq (ac_seq st) (invDeltaScopeBin, k, be_epoch e) + 1) e)
        (filter (\<lambda>(k, a). de_delta (deref (ac_bins st) a) \<noteq> 0) (sm_map (ac_bins st)))"
    by (simp add: b(1) split_def)
  moreover have "drained (ac_bins (flush now procNode (\<lambda>_. SendOk) (\<lambda>_. SendOk) st))"
    "drained (ac_buckets (flush now procNode (\<lambda>_. SendOk) (\<lambda>_. SendOk) st))"
    using evict_fold_drained b(2) k(1,2) by (simp_all add: flush_def evictIdle_def)
  ultimately show ?thesis by (simp add: flush_def k(3) drained_pending)
qed

theorem flush_ships_everything_witness:
  "\<exists>s. acc_reach ''edge1'' s \<and> Some (cc_acc s) = recordBin 100 tick (newAccumulator ''edge1'') \<and>
     map bd_delta (bin_deltas (ac_outbox (flush 200 (\<lambda>_. None) (\<lambda>_. SendOk) (\<lambda>_. SendOk) (cc_acc s)))) = [-3] \<and>
     pending (ac_bins (flush 200 (\<lambda>_. None) (\<lambda>_. SendOk) (\<lambda>_. SendOk) (cc_acc s))) (format_int 7) = 0"
proof -
  obtain s where s: "acc_reach ''edge1'' s" "Some (cc_acc s) = recordBin 100 tick (newAccumulator ''edge1'')"
    using tick_reached by blast
  from s(2) have acc: "cc_acc s = (newAccumulator ''edge1'')\<lparr>ac_bins :=
      \<lparr>sm_heap = [touch_bin 100 tick (fresh_bin 100 tick)], sm_map = [(format_int 7, 0)]\<rparr>\<rparr>"
    by (simp add: tick_recorded)
  show ?thesis
    using flush_ships_everything [OF s(1) refl, of 200 "\<lambda>_. None" "format_int 7"] s
    by (intro exI [of _ s]) (simp add: acc newAccumulator_def deref_def bin_message_def tick_def Let_def)
qed



end
