(* ===== verification/Inventory.thy ===== *)
theory Inventory
  imports LedgerRuns Accumulator
begin

text \<open>
  The two ends of the inventory path together: what a station's accumulator puts in its
  outbox, delivered to Core's applier in order and at least once.  The theory shows where
  the fields of a message come from, what a run of deliveries does to one bin, and that
  Core's count is the count it started from plus what the station recorded and has shipped.
\<close>

section \<open>Where a message's fields come from\<close>

definition named_by :: "bin_call list \<Rightarrow> bin_id \<Rightarrow> string \<Rightarrow> int \<Rightarrow> string \<Rightarrow> bool" where
  "named_by cs b payload ep reason \<longleftrightarrow>
     (\<exists>c\<in>set cs. bc_bin c = b \<and> bc_payload c = payload) \<and> (\<exists>c\<in>set cs. bc_bin c = b \<and> bc_epoch c = ep) \<and>
     (\<exists>c\<in>set cs. bc_bin c = b \<and> bc_reason c = reason)"

definition entry_named :: "bin_call list \<Rightarrow> binDeltaEntry \<Rightarrow> bool" where
  "entry_named cs e \<longleftrightarrow> named_by cs (be_bin e) (de_payload e) (be_epoch e) (de_reason e)"

fun in_flight :: "flusher \<Rightarrow> nat \<Rightarrow> bool" where
  "in_flight (BinSnap k a e) b = (a = b)"
| "in_flight (BinSent k a e) b = (a = b)"
| "in_flight _ b = False"

fun flight_named :: "bin_call list \<Rightarrow> flusher \<Rightarrow> bool" where
  "flight_named cs (BinSnap k a e) = entry_named cs e"
| "flight_named cs (BinSent k a e) = entry_named cs e"
| "flight_named cs _ = True"

definition heap_named :: "bin_call list \<Rightarrow> flusher \<Rightarrow> binDeltaEntry sync_map \<Rightarrow> bool" where
  "heap_named cs fl m \<longleftrightarrow>
     (\<forall>a<length (sm_heap m). de_delta (sm_heap m ! a) \<noteq> 0 \<or> in_flight fl a \<longrightarrow> entry_named cs (sm_heap m ! a))"

definition all_named :: "conc \<Rightarrow> bool" where
  "all_named s \<longleftrightarrow> heap_named (cc_bin_calls s) (cc_flusher s) (binm s) \<and> flight_named (cc_bin_calls s) (cc_flusher s) \<and>
     (\<forall>d\<in>set (bin_deltas (ac_outbox (cc_acc s))). named_by (cc_bin_calls s) (bd_bin d) (bd_payload d) (bd_epoch d) (bd_reason d))"

lemma named_by_more: "named_by cs b p ep re \<Longrightarrow> named_by (cs @ [c]) b p ep re"
  by (auto simp: named_by_def)

lemma entry_named_more: "entry_named cs e \<Longrightarrow> entry_named (cs @ [c]) e"
  by (auto simp: entry_named_def named_by_more)

lemma flight_named_more: "flight_named cs fl \<Longrightarrow> flight_named (cs @ [c]) fl"
  by (cases fl) (auto simp: entry_named_more)

lemma heap_named_write:
  assumes "heap_named cs fl m" and "a < length (sm_heap m)"
    and "de_delta (f (sm_heap m ! a)) \<noteq> 0 \<or> in_flight fl' a \<Longrightarrow> entry_named cs' (f (sm_heap m ! a))"
    and "\<And>b. in_flight fl' b \<Longrightarrow> in_flight fl b" and "\<And>e. entry_named cs e \<Longrightarrow> entry_named cs' e"
  shows "heap_named cs' fl' (write_entry a f m)"
  using assms unfolding heap_named_def write_entry_def by (auto simp: nth_list_update)

lemma heap_named_load:
  assumes "heap_named cs fl m" and "LoadOrStore k e m = (m', a)" and "de_delta e = 0" and "\<And>b. in_flight fl b \<Longrightarrow> b < length (sm_heap m)"
  shows "heap_named cs fl m'"
  using assms unfolding heap_named_def LoadOrStore_def by (fastforce simp: nth_append less_Suc_eq split: option.splits)

lemma flight_held: "conc_ok s \<Longrightarrow> in_flight (cc_flusher s) b \<Longrightarrow> b < length (sm_heap (binm s))"
  by (cases "cc_flusher s") (auto simp: conc_ok_def held_def)

lemma touched_named:
  assumes "entry_named cs e \<or> de_delta e = 0" and "be_bin e = bc_bin c"
  shows "entry_named (cs @ [c]) (touch_bin now c e)"
  using assms by (auto simp: entry_named_def named_by_def touch_bin_def Let_def)

lemma settled_named:
  "entry_named cs e \<Longrightarrow> de_delta (commit_entry now s e) \<noteq> 0 \<Longrightarrow> entry_named cs (commit_entry now s e)"
  by (auto simp: commit_entry_def settle_def Let_def entry_named_def split: if_splits)

lemma marked_named: "entry_named cs (mark_evicted e) = entry_named cs e"
  by (simp add: mark_evicted_def entry_named_def)



lemma all_named_step: "acc_step s s' \<Longrightarrow> conc_ok s \<Longrightarrow> all_named s \<Longrightarrow> all_named s'"
proof (induction rule: acc_step.induct)
  case (bin_loaded s xs c ys now m a)
  have "heap_named (cc_bin_calls s) (cc_flusher s) m"
    by (rule heap_named_load [OF _ bin_loaded(2)]) (use bin_loaded flight_held in \<open>auto simp: all_named_def fresh_bin_def\<close>)
  then show ?case using bin_loaded by (simp add: all_named_def upd_bins_def)
next
  case (bin_recorded s xs c a ys now)
  have t: "a < length (sm_heap (binm s))" "be_bin (sm_heap (binm s) ! a) = bc_bin c"
    using bin_recorded by (auto simp: conc_ok_def bin_key_def bin_call_key_def format_int_inj)
  have "entry_named (cc_bin_calls s) (sm_heap (binm s) ! a) \<or> de_delta (sm_heap (binm s) ! a) = 0"
    using bin_recorded(4) t(1) by (auto simp: all_named_def heap_named_def)
  then have "heap_named (cc_bin_calls s @ [c]) (cc_flusher s) (write_entry a (touch_bin now c) (binm s))"
    using bin_recorded(4) t
    by (intro heap_named_write [where cs = "cc_bin_calls s" and fl = "cc_flusher s"]) (auto simp: all_named_def touched_named entry_named_more)
  then show ?case using bin_recorded(4) by (auto simp: all_named_def upd_bins_def flight_named_more named_by_more)
next
  case (bin_snapshot s k a e)
  have a: "a < length (sm_heap (binm s))" using bin_snapshot by (auto simp: conc_ok_def map_ok_def)
  have e: "e = sm_heap (binm s) ! a" "de_delta e \<noteq> 0" using bin_snapshot(3) by (auto simp: snapshot_entry_def deref_def split: if_splits)
  then show ?case using bin_snapshot(1,5) a unfolding all_named_def heap_named_def by auto
next
  case (bin_send s k a e oc acc ok)
  have e: "entry_named (cc_bin_calls s) e" using bin_send by (simp add: all_named_def)
  have out: "ac_bins acc = binm s" "ac_outbox acc = ac_outbox (cc_acc s) @ (if ok then [BinMsg (bin_message (ac_station (cc_acc s)) (last_seq (ac_seq (cc_acc s)) (invDeltaScopeBin, k, be_epoch e) + 1) e)] else [])"
    using bin_send(2) unfolding send_bin_def by (auto simp: send_outbox(1) [OF bin_send(2) [unfolded send_bin_def]] dest: send_maps)
  show ?case using bin_send(1,4) e out unfolding all_named_def heap_named_def by (auto simp: entry_named_def bin_message_def)
next
  case (bin_commit s k a e now)
  have a: "a < length (sm_heap (binm s))" using flight_held [OF bin_commit(2), of a] bin_commit(1) by simp
  then have "entry_named (cc_bin_calls s) (sm_heap (binm s) ! a)" using bin_commit by (simp add: all_named_def heap_named_def)
  then have "heap_named (cc_bin_calls s) FlushIdle (write_entry a (commit_entry now e) (binm s))"
    using bin_commit(3) a by (intro heap_named_write) (auto simp: all_named_def settled_named)
  then show ?case using bin_commit(3) by (simp add: all_named_def upd_bins_def)
next
  case (bin_mark s k a cutoff)
  have a: "a < length (sm_heap (binm s))" using bin_mark by (auto simp: conc_ok_def map_ok_def)
  have "heap_named (cc_bin_calls s) (BinMarked k a) (write_entry a mark_evicted (binm s))"
    using bin_mark(3,5) a by (intro heap_named_write) (auto simp: all_named_def marked_named idle_def deref_def mark_evicted_def)
  then show ?case using bin_mark(5) by (simp add: all_named_def upd_bins_def)
next
  case (bin_retry s xs c a ys)
  then show ?case by (simp add: all_named_def upd_bins_def heap_named_def CompareAndDelete_def)
next
  case (bin_remove s k a)
  then show ?case by (simp add: all_named_def upd_bins_def heap_named_def CompareAndDelete_def)
next
  case (bucket_send s k a f procNode oc acc ok)
  have "ac_bins acc = binm s" "bin_deltas (ac_outbox acc) = bin_deltas (ac_outbox (cc_acc s))"
    using bucket_send(3) unfolding send_bucket_def by (auto simp: send_outbox(1) [OF bucket_send(3) [unfolded send_bucket_def]] dest: send_maps)
  then show ?case using bucket_send(1,5) unfolding all_named_def heap_named_def by auto
qed (auto simp: all_named_def heap_named_def upd_buckets_def count_failure_def)

lemma all_named_reach: "acc_reach station s \<Longrightarrow> all_named s"
proof (induction rule: acc_reach.induct)
  case acc_start
  show ?case by (simp add: all_named_def conc_start_def newAccumulator_def heap_named_def empty_map_def)
next
  case (acc_next s s')
  then show ?case using all_named_step conc_ok_reach by blast
qed

lemma message_named:
  assumes "acc_reach station s" and "d \<in> set (bin_deltas (ac_outbox (cc_acc s)))"
    and "list_all (\<lambda>c. bc_bin c = bd_bin d \<longrightarrow> bc_payload c = p \<and> bc_epoch c = ep \<and> bc_reason c \<noteq> re) (cc_bin_calls s)"
  shows "bd_payload d = p \<and> bd_epoch d = ep \<and> bd_reason d \<noteq> re"
  using all_named_reach [OF assms(1)] assms(2,3) by (fastforce simp: all_named_def named_by_def list_all_iff)


section \<open>Delivery\<close>

text \<open>
  \<^verbatim>\<open>redelivered xs ys\<close>: the transport has handed over the messages \<^verbatim>\<open>xs\<close>, each for the first time
  in the order they were sent, and any of those already handed over again at any later time; \<^verbatim>\<open>ys\<close>
  is what arrived.
\<close>

inductive redelivered :: "'a list \<Rightarrow> 'a list \<Rightarrow> bool" where
  start: "redelivered [] []"
| first: "redelivered xs ys \<Longrightarrow> redelivered (xs @ [x]) (ys @ [x])"
| again: "redelivered xs ys \<Longrightarrow> x \<in> set xs \<Longrightarrow> redelivered xs (ys @ [x])"

definition deliver :: "inv_env \<Rightarrow> string \<Rightarrow> inv_svc \<Rightarrow> BinUOPDelta list \<Rightarrow> inv_svc" where
  "deliver env station s ds = foldl (\<lambda>s d. fst (ApplyBinUOPDelta env s station d)) s ds"

lemma deliver_simps [simp]:
  "deliver env station s [] = s" "deliver env station s (ds @ [d]) = fst (ApplyBinUOPDelta env (deliver env station s ds) station d)"
  by (simp_all add: deliver_def)

definition bin_seqs :: "bin_id \<Rightarrow> BinUOPDelta list \<Rightarrow> int list" where
  "bin_seqs b ds = map bd_seq (filter (\<lambda>d. bd_bin d = b) ds)"

definition bin_sum :: "bin_id \<Rightarrow> BinUOPDelta list \<Rightarrow> int" where
  "bin_sum b ds = sum_list (map bd_delta (filter (\<lambda>d. bd_bin d = b) ds))"

text \<open>What Core holds of a bin after the messages \<^verbatim>\<open>ds\<close>: their sum on top of the start, and the number of the last.\<close>

definition booked :: "string \<Rightarrow> bin_row \<Rightarrow> BinUOPDelta list \<Rightarrow> inv_svc \<Rightarrow> bool" where
  "booked station r ds s \<longleftrightarrow>
     (\<exists>q. get_bin (sv_db s) (bn_id r) = Some q \<and> bn_uop q = bn_uop r + bin_sum (bn_id r) ds \<and> bn_epoch q = bn_epoch r \<and> bn_payload q = bn_payload r) \<and>
     dedup_last (iv_dedup (sv_db s)) (station, ''bin'', format_int (bn_id r), bn_epoch r) =
       (if bin_seqs (bn_id r) ds = [] then None else Some (last (bin_seqs (bn_id r) ds)))"

lemma other_bin_untouched:
  assumes "bd_bin d \<noteq> b"
  shows "get_bin (sv_db (fst (ApplyBinUOPDelta env s station d))) b = get_bin (sv_db s) b"
    and "dedup_last (iv_dedup (sv_db (fst (ApplyBinUOPDelta env s station d)))) (station, ''bin'', format_int b, ep) =
      dedup_last (iv_dedup (sv_db s)) (station, ''bin'', format_int b, ep)"
proof -
  have "get_bin (sv_db (fst (ApplyBinUOPDelta env s station d))) b = get_bin (sv_db s) b \<and>
    dedup_last (iv_dedup (sv_db (fst (ApplyBinUOPDelta env s station d)))) (station, ''bin'', format_int b, ep) =
      dedup_last (iv_dedup (sv_db s)) (station, ''bin'', format_int b, ep)"
  proof (cases "station = '''' \<or> bd_bin d \<le> 0 \<or> \<not> en_db env \<or> get_bin (sv_db s) (bd_bin d) = None")
    case True
    then show ?thesis using ApplyBinUOPDelta_other [of station d env s] by simp
  next
    case False
    then obtain r where r: "station \<noteq> ''''" "0 < bd_bin d" "en_db env" "get_bin (sv_db s) (bd_bin d) = Some r" by auto
    show ?thesis
      using ApplyBinUOPDelta_verdict [OF r] drop_stale_effect(2,3) [OF r(4), of env station] assms
        recordRejectedDelta_effect(2,3) [OF r(4), of env station]
      by (cases "delta_verdict (sv_db s) station d r")
        (auto simp: applied_to_def Let_def dedup_last_update delta_key_def format_int_inj)
  qed
  then show "get_bin (sv_db (fst (ApplyBinUOPDelta env s station d))) b = get_bin (sv_db s) b"
    "dedup_last (iv_dedup (sv_db (fst (ApplyBinUOPDelta env s station d)))) (station, ''bin'', format_int b, ep) =
      dedup_last (iv_dedup (sv_db s)) (station, ''bin'', format_int b, ep)" by blast+
qed

text \<open>A message of the current generation: the applier books it when its number is new and skips it otherwise.\<close>

definition current :: "bin_row \<Rightarrow> BinUOPDelta \<Rightarrow> bool" where
  "current r d \<longleftrightarrow> bd_epoch d = bn_epoch r \<and> bd_payload d = bn_payload r \<and> bd_reason d \<noteq> ReasonCaptureReduction"

lemma booked_first:
  assumes "booked station r ds s" and "station \<noteq> ''''" and "0 < bn_id r" and "en_db env" and "bd_bin d = bn_id r" and "current r d"
    and "\<forall>n\<in>set (bin_seqs (bn_id r) ds). n < bd_seq d"
  shows "booked station r (ds @ [d]) (fst (ApplyBinUOPDelta env s station d))"
proof -
  obtain q where q: "get_bin (sv_db s) (bd_bin d) = Some q" "bn_uop q = bn_uop r + bin_sum (bn_id r) ds" "bn_epoch q = bn_epoch r"
    "bn_payload q = bn_payload r" using assms(1,5) by (auto simp: booked_def)
  have "delta_verdict (sv_db s) station d q = VApplied"
    using assms(1,5,6,7) q by (auto simp: delta_verdict_def current_def booked_def delta_key_def)
      (metis last_in_set not_less)+
  then obtain s' where s': "ApplyBinUOPDelta env s station d = (s', None)" "applied_to env station d q s s'"
    using ApplyBinUOPDelta_verdict [OF assms(2) _ assms(4) q(1)] assms(3,5) by auto
  have stays: "\<not> clears env d u" "bound_payload d q = bn_payload q" for u using assms(6) q by (auto simp: clears_def current_def bound_payload_def)
  obtain t where "get_bin (sv_db s') (bd_bin d) = Some (counted_row env d (q\<lparr>bn_payload := bn_payload q, bn_anomaly := t\<rparr>))"
    using s'(2) unfolding applied_to_def Let_def stays(2) by auto
  moreover have "dedup_last (iv_dedup (sv_db s')) (delta_key station d) = Some (bd_seq d)" using s'(2) by (simp add: applied_to_def dedup_last_update)
  ultimately show ?thesis
    using q assms(5,6) by (auto simp: booked_def s'(1) counted_row_def stays bin_sum_def bin_seqs_def delta_key_def current_def)
qed

lemma booked_other:
  assumes "booked station r ds s" and "bd_bin d \<noteq> bn_id r"
  shows "booked station r (ds @ [d]) (fst (ApplyBinUOPDelta env s station d))" and "booked station r ds (fst (ApplyBinUOPDelta env s station d))"
  using assms by (auto simp: booked_def other_bin_untouched bin_sum_def bin_seqs_def)

lemma sorted_last: "sorted_wrt (<) ns \<Longrightarrow> n \<in> set ns \<Longrightarrow> n \<le> last (ns :: int list)"
proof (induction ns)
  case (Cons m ns)
  then show ?case by (cases "ns = []") (fastforce dest: last_in_set)+
qed simp

lemma booked_again:
  assumes "booked station r ds s" and "station \<noteq> ''''" and "0 < bn_id r" and "en_db env" and "bd_bin d = bn_id r" and "current r d"
    and "d \<in> set ds" and "sorted_wrt (<) (bin_seqs (bn_id r) ds)"
  shows "fst (ApplyBinUOPDelta env s station d) = s"
proof -
  obtain q where q: "get_bin (sv_db s) (bd_bin d) = Some q" "bn_epoch q = bn_epoch r" using assms(1,5) by (auto simp: booked_def)
  have seen: "bd_seq d \<in> set (bin_seqs (bn_id r) ds)" using assms(5,7) by (auto simp: bin_seqs_def)
  then have "bin_seqs (bn_id r) ds \<noteq> []" by auto
  moreover have "bd_seq d \<le> last (bin_seqs (bn_id r) ds)" by (rule sorted_last [OF assms(8) seen])
  ultimately have "delta_verdict (sv_db s) station d q = VReplay"
    using assms(1,5,6) q(2) by (simp add: delta_verdict_def current_def booked_def delta_key_def)
  then show ?thesis using ApplyBinUOPDelta_verdict [OF assms(2) _ assms(4) q(1)] assms(3,5) by auto
qed

lemma booked_redelivered:
  assumes "redelivered xs ys" and "booked station r [] s" and "station \<noteq> ''''" and "0 < bn_id r" and "en_db env"
    and "\<forall>d\<in>set xs. bd_bin d = bn_id r \<longrightarrow> current r d" and "sorted_wrt (<) (bin_seqs (bn_id r) xs)"
  shows "booked station r xs (deliver env station s ys)"
  using assms
proof (induction rule: redelivered.induct)
  case (first xs ys x)
  then have IH: "booked station r xs (deliver env station s ys)" by (simp add: bin_seqs_def sorted_wrt_append)
  show ?case
  proof (cases "bd_bin x = bn_id r")
    case True
    then have "\<forall>n\<in>set (bin_seqs (bn_id r) xs). n < bd_seq x" using first.prems by (simp add: bin_seqs_def sorted_wrt_append)
    then show ?thesis using booked_first [OF IH first.prems(2,3,4) True] first.prems(5) True by simp
  qed (use booked_other(1) [OF IH] in simp)
next
  case (again xs ys x)
  then have IH: "booked station r xs (deliver env station s ys)" by simp
  show ?case
  proof (cases "bd_bin x = bn_id r")
    case True
    then show ?thesis using booked_again [OF IH again.prems(2,3,4) True _ again(2) again.prems(6)] again(2) again.prems(5) IH by simp
  qed (use booked_other(2) [OF IH] in simp)
qed simp

lemma delivered_count:
  assumes "acc_reach station s" and "redelivered (bin_deltas (ac_outbox (cc_acc s))) ds"
    and "station \<noteq> ''''" and "0 < b" and "en_db env" and "get_bin (sv_db core) b = Some r"
    and "dedup_last (iv_dedup (sv_db core)) (station, ''bin'', format_int b, bn_epoch r) = None"
    and "list_all (\<lambda>c. bc_bin c = b \<longrightarrow> bc_payload c = bn_payload r \<and> bc_epoch c = bn_epoch r \<and> bc_reason c \<noteq> ReasonCaptureReduction)
      (cc_bin_calls s)"
  shows "map_option bn_uop (get_bin (sv_db (deliver env station core ds)) b) =
    Some (bn_uop r + sum_list (map bc_delta (filter (\<lambda>c. bc_bin c = b) (cc_bin_calls s))) -
      (pending (ac_bins (cc_acc s)) (format_int b) - bin_in_flight (format_int b) (cc_flusher s)))"
proof -
  let ?xs = "bin_deltas (ac_outbox (cc_acc s))"
  have id: "bn_id r = b" using get_bin_Some [OF assms(6)] by simp
  have cur: "\<forall>d\<in>set ?xs. bd_bin d = bn_id r \<longrightarrow> current r d"
  proof (intro ballI impI)
    fix d assume d: "d \<in> set ?xs" "bd_bin d = bn_id r"
    show "current r d" unfolding current_def
      using message_named [OF assms(1) d(1), of "bn_payload r" "bn_epoch r" ReasonCaptureReduction] assms(8) d(2) id by simp
  qed
  have "filter (\<lambda>d. bd_bin d = b) ?xs = filter (\<lambda>d. bd_bin d = b \<and> bd_epoch d = bn_epoch r) ?xs"
    by (rule filter_cong) (use cur id in \<open>auto simp: current_def\<close>)
  then have sorted: "sorted_wrt (<) (bin_seqs (bn_id r) ?xs)"
    using seq_ok_reach [OF assms(1)] by (simp add: bin_seqs_def id seq_ok_def numbered_def)
  have start: "booked station r [] core" using assms(6,7) by (simp add: booked_def id bin_sum_def bin_seqs_def)
  have "booked station r ?xs (deliver env station core ds)"
    using booked_redelivered [OF assms(2) start assms(3) _ assms(5) cur sorted] assms(4) id by simp
  moreover have "heap_sum bin_key (binm s) (format_int b) = pending (binm s) (format_int b)"
    using conc_ok_reach [OF assms(1)] heap_sum_pending [of bin_key] by (auto simp: conc_ok_def)
  ultimately show ?thesis
    using balance_reach [OF assms(1)] by (auto simp: booked_def id bin_sum_def bin_balance_def bin_part_sum simp flip: call_part)
qed

end
