(* ===== verification/Outbox.thy ===== *)
theory Outbox
  imports Prelude
begin

text \<open>
  The transactional outbox both programs send through: the shared drain loop of
  \<^verbatim>\<open>protocol/outbox/drainer.go\<close>, which talks to an interface \<^verbatim>\<open>Store\<close>, and the two stores
  behind it, Edge's table (\<^verbatim>\<open>shingo-edge/store/messaging\<close>) and Core's
  (\<^verbatim>\<open>shingo-core/store/messaging\<close>).  The interface value is a record of functions, as it is in
  Go; what the drainer relies on is the locale \<^verbatim>\<open>outbox_store\<close>, interpreted for both tables.
  The broker is the environment: for each row it says whether a publish returns, fails or
  panics, whether a failed one reached the broker all the same, and whether the store call that
  follows succeeds.
\<close>

section \<open>The tables\<close>

definition MaxRetries :: nat where "MaxRetries = 10"

record 'p outbox_row =
  ob_id :: int
  ob_payload :: 'p
  ob_type :: string
  ob_retries :: nat
  ob_created :: instant
  ob_sent :: "instant option"

record 'p core_row = "'p outbox_row" +
  ob_topic :: string
  ob_station :: string

record 'r outbox_table =
  ot_rows :: "'r list"
  ot_next :: int

definition pending_row :: "('p, 'x) outbox_row_scheme \<Rightarrow> bool" where
  "pending_row r = (ob_sent r = None \<and> ob_retries r < MaxRetries)"

definition dead_row :: "('p, 'x) outbox_row_scheme \<Rightarrow> bool" where
  "dead_row r = (ob_sent r = None \<and> ob_retries r \<ge> MaxRetries)"

definition on_row :: "int \<Rightarrow> ('r \<Rightarrow> 'r) \<Rightarrow> ('r \<Rightarrow> int) \<Rightarrow> 'r outbox_table \<Rightarrow> 'r outbox_table" where
  "on_row i f key t = t\<lparr>ot_rows := update_rows (\<lambda>r. key r = i) f (ot_rows t)\<rparr>"

text \<open>Edge's statements.\<close>

definition Enqueue :: "instant \<Rightarrow> 'p \<Rightarrow> string \<Rightarrow> 'p outbox_row outbox_table \<Rightarrow> 'p outbox_row outbox_table" where
  "Enqueue now payload msgType t =
     t\<lparr>ot_rows := ot_rows t @ [\<lparr>ob_id = ot_next t, ob_payload = payload, ob_type = msgType, ob_retries = 0,
          ob_created = now, ob_sent = None\<rparr>], ot_next := ot_next t + 1\<rparr>"

definition coalescableSubjects :: "string list" where
  "coalescableSubjects = [''inventory.lineside_level_report'', ''plant.claims'']"

definition EnqueueSnapshot ::
  "instant \<Rightarrow> bool \<Rightarrow> 'p list \<Rightarrow> string \<Rightarrow> 'p outbox_row outbox_table \<Rightarrow> 'p outbox_row outbox_table \<times> bool" where
  "EnqueueSnapshot now ok payloads msgType t =
     (if \<not> msgType \<in> set coalescableSubjects then (t, False)
      else if payloads = [] then (t, True)
      else if \<not> ok then (t, False)
      else (foldl (\<lambda>t p. Enqueue now p msgType t)
              (t\<lparr>ot_rows := delete_rows (\<lambda>r. ob_sent r = None \<and> ob_type r = msgType) (ot_rows t)\<rparr>) payloads, True))"

definition ListPending :: "nat \<Rightarrow> 'p outbox_row outbox_table \<Rightarrow> 'p outbox_row list" where
  "ListPending limit t = take limit (sort_key ob_id (filter pending_row (ot_rows t)))"

definition ListDeadLetter :: "nat \<Rightarrow> 'p outbox_row outbox_table \<Rightarrow> 'p outbox_row list" where
  "ListDeadLetter limit t = take limit (sort_key ob_id (filter dead_row (ot_rows t)))"

definition Ack :: "instant \<Rightarrow> int \<Rightarrow> 'p outbox_row outbox_table \<Rightarrow> 'p outbox_row outbox_table" where
  "Ack now i = on_row i (\<lambda>r. r\<lparr>ob_sent := Some now\<rparr>) ob_id"

definition IncrementRetries :: "int \<Rightarrow> 'p outbox_row outbox_table \<Rightarrow> 'p outbox_row outbox_table" where
  "IncrementRetries i = on_row i (\<lambda>r. r\<lparr>ob_retries := ob_retries r + 1\<rparr>) ob_id"

definition MarkExhausted :: "int \<Rightarrow> 'p outbox_row outbox_table \<Rightarrow> 'p outbox_row outbox_table" where
  "MarkExhausted i = on_row i (\<lambda>r. r\<lparr>ob_retries := MaxRetries\<rparr>) ob_id"

definition Requeue :: "int \<Rightarrow> 'p outbox_row outbox_table \<Rightarrow> 'p outbox_row outbox_table" where
  "Requeue i t = t\<lparr>ot_rows := update_rows (\<lambda>r. ob_id r = i \<and> ob_sent r = None) (\<lambda>r. r\<lparr>ob_retries := 0\<rparr>) (ot_rows t)\<rparr>"

definition sent_before :: "instant \<Rightarrow> ('p, 'x) outbox_row_scheme \<Rightarrow> bool" where
  "sent_before cutoff r = (case ob_sent r of None \<Rightarrow> False | Some s \<Rightarrow> s < cutoff)"

definition purgeable :: "instant \<Rightarrow> int \<Rightarrow> int \<Rightarrow> ('p, 'x) outbox_row_scheme \<Rightarrow> bool" where
  "purgeable now delivered deadLetter r = (sent_before (now - delivered) r \<or> dead_row r \<and> ob_created r < now - deadLetter)"

definition PurgeOld :: "instant \<Rightarrow> int \<Rightarrow> int \<Rightarrow> 'p outbox_row outbox_table \<Rightarrow> 'p outbox_row outbox_table" where
  "PurgeOld now delivered deadLetter t =
     t\<lparr>ot_rows := delete_rows (\<lambda>r. dead_row r \<and> ob_created r < now - deadLetter)
         (delete_rows (sent_before (now - delivered)) (ot_rows t))\<rparr>"

definition CountPendingOutbox :: "'p outbox_row outbox_table \<Rightarrow> nat" where
  "CountPendingOutbox t = count_rows pending_row (ot_rows t)"

definition CountDeadLetterOutbox :: "'p outbox_row outbox_table \<Rightarrow> nat" where
  "CountDeadLetterOutbox t = count_rows dead_row (ot_rows t)"

text \<open>Core's statements, on rows that carry their topic and station.\<close>

definition EnqueueOutbox :: "instant \<Rightarrow> string \<Rightarrow> 'p \<Rightarrow> string \<Rightarrow> string \<Rightarrow> 'p core_row outbox_table \<Rightarrow> 'p core_row outbox_table" where
  "EnqueueOutbox now topic payload eventType station t =
     t\<lparr>ot_rows := ot_rows t @ [\<lparr>ob_id = ot_next t, ob_payload = payload, ob_type = eventType, ob_retries = 0,
          ob_created = now, ob_sent = None, ob_topic = topic, ob_station = station\<rparr>], ot_next := ot_next t + 1\<rparr>"

definition ListPendingOutbox :: "nat \<Rightarrow> 'p core_row outbox_table \<Rightarrow> 'p core_row list" where
  "ListPendingOutbox limit t = take limit (sort_key ob_id (filter pending_row (ot_rows t)))"

definition AckOutbox :: "instant \<Rightarrow> int \<Rightarrow> 'p core_row outbox_table \<Rightarrow> 'p core_row outbox_table" where
  "AckOutbox now i = on_row i (\<lambda>r. r\<lparr>ob_sent := Some now\<rparr>) ob_id"

definition IncrementOutboxRetries :: "int \<Rightarrow> 'p core_row outbox_table \<Rightarrow> 'p core_row outbox_table" where
  "IncrementOutboxRetries i = on_row i (\<lambda>r. r\<lparr>ob_retries := ob_retries r + 1\<rparr>) ob_id"

definition MarkOutboxExhausted :: "int \<Rightarrow> 'p core_row outbox_table \<Rightarrow> 'p core_row outbox_table" where
  "MarkOutboxExhausted i = on_row i (\<lambda>r. r\<lparr>ob_retries := MaxRetries\<rparr>) ob_id"

definition RequeueOutbox :: "int \<Rightarrow> 'p core_row outbox_table \<Rightarrow> 'p core_row outbox_table" where
  "RequeueOutbox i t = t\<lparr>ot_rows := update_rows (\<lambda>r. ob_id r = i \<and> ob_sent r = None) (\<lambda>r. r\<lparr>ob_retries := 0\<rparr>) (ot_rows t)\<rparr>"

definition PurgeOldOutbox :: "instant \<Rightarrow> int \<Rightarrow> int \<Rightarrow> 'p core_row outbox_table \<Rightarrow> 'p core_row outbox_table" where
  "PurgeOldOutbox now delivered deadLetter t =
     t\<lparr>ot_rows := delete_rows (\<lambda>r. dead_row r \<and> ob_created r < now - deadLetter)
         (delete_rows (sent_before (now - delivered)) (ot_rows t))\<rparr>"


section \<open>The drainer\<close>

record 'p Message =
  dm_id :: int
  dm_topic :: string
  dm_payload :: 'p
  dm_type :: string
  dm_retries :: nat

record ('s, 'p) Store =
  st_list :: "nat \<Rightarrow> 's \<Rightarrow> 'p Message list"
  st_ack :: "instant \<Rightarrow> int \<Rightarrow> 's \<Rightarrow> 's"
  st_increment :: "int \<Rightarrow> 's \<Rightarrow> 's"
  st_exhaust :: "int \<Rightarrow> 's \<Rightarrow> 's"
  st_purge :: "instant \<Rightarrow> int \<Rightarrow> int \<Rightarrow> 's \<Rightarrow> 's"

definition edgeOutboxStore :: "('p outbox_row outbox_table, 'p) Store" where
  "edgeOutboxStore = \<lparr>
     st_list = (\<lambda>limit t. map (\<lambda>r. \<lparr>dm_id = ob_id r, dm_topic = '''', dm_payload = ob_payload r, dm_type = ob_type r,
        dm_retries = ob_retries r\<rparr>) (ListPending limit t)),
     st_ack = Ack, st_increment = IncrementRetries, st_exhaust = MarkExhausted, st_purge = PurgeOld\<rparr>"

definition coreOutboxStore :: "('p core_row outbox_table, 'p) Store" where
  "coreOutboxStore = \<lparr>
     st_list = (\<lambda>limit t. map (\<lambda>r. \<lparr>dm_id = ob_id r, dm_topic = ob_topic r, dm_payload = ob_payload r, dm_type = ob_type r,
        dm_retries = ob_retries r\<rparr>) (ListPendingOutbox limit t)),
     st_ack = AckOutbox, st_increment = IncrementOutboxRetries, st_exhaust = MarkOutboxExhausted, st_purge = PurgeOldOutbox\<rparr>"

datatype pub_result = PubOk | PubError | PubPanic

record broker =
  bk_now :: instant
  bk_connected :: bool
  bk_list_ok :: bool
  bk_publish :: "int \<Rightarrow> pub_result"
  bk_leaked :: "int \<Rightarrow> bool"
  bk_store_ok :: "int \<Rightarrow> bool"
  bk_purge_ok :: bool

text \<open>The state a pass works on: the store, and every message the broker has received, with the row it came from.\<close>

record ('s, 'p) drain_state =
  ds_store :: 's
  ds_sent :: "(int \<times> string \<times> 'p) list"

definition publishOne :: "('s, 'p) Store \<Rightarrow> string \<Rightarrow> broker \<Rightarrow> ('s, 'p) drain_state \<Rightarrow> 'p Message \<Rightarrow> ('s, 'p) drain_state \<times> bool" where
  "publishOne st topic0 bk s msg =
     (let topic = (if dm_topic msg = '''' then topic0 else dm_topic msg);
          call = (\<lambda>f. if bk_store_ok bk (dm_id msg) then f (dm_id msg) (ds_store s) else ds_store s);
          log = ds_sent s @ [(dm_id msg, topic, dm_payload msg)];
          leak = (if bk_leaked bk (dm_id msg) then log else ds_sent s)
      in case bk_publish bk (dm_id msg) of
           PubPanic \<Rightarrow> (\<lparr>ds_store = call (st_exhaust st), ds_sent = leak\<rparr>, False)
         | PubError \<Rightarrow> (\<lparr>ds_store = call (st_increment st), ds_sent = leak\<rparr>, False)
         | PubOk \<Rightarrow> (\<lparr>ds_store = call (st_ack st (bk_now bk)), ds_sent = log\<rparr>, True))"

definition drain :: "('s, 'p) Store \<Rightarrow> string \<Rightarrow> nat \<Rightarrow> broker \<Rightarrow> ('s, 'p) drain_state \<Rightarrow> ('s, 'p) drain_state \<times> bool" where
  "drain st topic limit bk s =
     (if \<not> bk_connected bk then (s, False)
      else if \<not> bk_list_ok bk then (s, False)
      else foldl (\<lambda>(s, failed) msg. case publishOne st topic bk s msg of (s', ok) \<Rightarrow> (s', failed \<or> \<not> ok))
             (s, False) (st_list st limit (ds_store s)))"

definition PurgeCycleInterval :: nat where "PurgeCycleInterval = 100"
definition MessageRetentionPeriod :: int where "MessageRetentionPeriod = 24 * 3600000000000"
definition DeadLetterRetentionPeriod :: int where "DeadLetterRetentionPeriod = 7 * 24 * 3600000000000"

text \<open>The loop: one signal at a time.  A wake may be cut short by a stop while it settles.\<close>

datatype signal = Wake broker | WakeStopped | Tick broker | Stop

record ('s, 'p) Drainer =
  dr_state :: "('s, 'p) drain_state"
  dr_cycles :: nat
  dr_muted :: bool
  dr_stopped :: bool

definition NewDrainer :: "'s \<Rightarrow> ('s, 'p) Drainer" where
  "NewDrainer t = \<lparr>dr_state = \<lparr>ds_store = t, ds_sent = []\<rparr>, dr_cycles = 0, dr_muted = False, dr_stopped = False\<rparr>"

definition batch :: "int \<Rightarrow> nat" where
  "batch limit = (if limit \<le> 0 then 50 else nat limit)"

definition run_step :: "('s, 'p) Store \<Rightarrow> string \<Rightarrow> int \<Rightarrow> ('s, 'p) Drainer \<Rightarrow> signal \<Rightarrow> ('s, 'p) Drainer" where
  "run_step st topic limit d sig =
     (if dr_stopped d then d
      else case sig of
        Stop \<Rightarrow> d\<lparr>dr_stopped := True\<rparr>
      | WakeStopped \<Rightarrow> if dr_muted d then d else d\<lparr>dr_stopped := True\<rparr>
      | Wake bk \<Rightarrow>
          if dr_muted d then d
          else (case drain st topic (batch limit) bk (dr_state d) of (s, failed) \<Rightarrow> d\<lparr>dr_state := s, dr_muted := failed\<rparr>)
      | Tick bk \<Rightarrow>
          (case drain st topic (batch limit) bk (dr_state d) of (s, failed) \<Rightarrow>
             let n = dr_cycles d + 1;
                 s' = (if n mod PurgeCycleInterval = 0 \<and> bk_purge_ok bk
                       then s\<lparr>ds_store := st_purge st (bk_now bk) MessageRetentionPeriod DeadLetterRetentionPeriod (ds_store s)\<rparr> else s)
             in d\<lparr>dr_state := s', dr_cycles := n, dr_muted := failed\<rparr>))"

section \<open>What the drainer relies on\<close>

text \<open>
  The contract of the interface, over the rows a store shows: the pending rows come in the order
  of their ids, and each update touches exactly the row it names.
\<close>

definition ids_sorted :: "'p outbox_row list \<Rightarrow> bool" where
  "ids_sorted rs \<longleftrightarrow> sorted_wrt (<) (map ob_id rs)"

definition attempt :: "broker \<Rightarrow> 'p outbox_row \<Rightarrow> 'p outbox_row" where
  "attempt bk r =
     (if \<not> bk_store_ok bk (ob_id r) then r
      else case bk_publish bk (ob_id r) of
        PubOk \<Rightarrow> r\<lparr>ob_sent := Some (bk_now bk)\<rparr>
      | PubError \<Rightarrow> r\<lparr>ob_retries := ob_retries r + 1\<rparr>
      | PubPanic \<Rightarrow> r\<lparr>ob_retries := MaxRetries\<rparr>)"

definition received :: "broker \<Rightarrow> int \<Rightarrow> bool" where
  "received bk i \<longleftrightarrow> bk_publish bk i = PubOk \<or> bk_leaked bk i"

definition pass ::
  "('s, 'p) Store \<Rightarrow> string \<Rightarrow> broker \<Rightarrow> ('s, 'p) drain_state \<times> bool \<Rightarrow> 'p Message list \<Rightarrow> ('s, 'p) drain_state \<times> bool" where
  "pass st topic bk = foldl (\<lambda>(s, failed) msg. case publishOne st topic bk s msg of (s', ok) \<Rightarrow> (s', failed \<or> \<not> ok))"

text \<open>The rows a pass offers to the broker.\<close>

definition offered :: "nat \<Rightarrow> broker \<Rightarrow> 'p outbox_row list \<Rightarrow> 'p outbox_row list" where
  "offered n bk rs = (if bk_connected bk \<and> bk_list_ok bk then take n (filter pending_row rs) else [])"

lemma attempt_id [simp]: "ob_id (attempt bk r) = ob_id r" "ob_payload (attempt bk r) = ob_payload r" "ob_type (attempt bk r) = ob_type r"
  "ob_created (attempt bk r) = ob_created r"
  by (auto simp: attempt_def split: pub_result.splits)

lemma map_update_rows: "map f (update_rows P g rs) = map (\<lambda>r. if P r then f (g r) else f r) rs"
  by (simp add: update_rows_def)

locale outbox_store =
  fixes st :: "('s, 'p) Store" and rows :: "'s \<Rightarrow> 'p outbox_row list"
  assumes list_law: "ids_sorted (rows s) \<Longrightarrow>
      map (\<lambda>m. (dm_id m, dm_payload m)) (st_list st n s) = map (\<lambda>r. (ob_id r, ob_payload r)) (take n (filter pending_row (rows s)))"
    and ack_law: "rows (st_ack st now i s) = update_rows (\<lambda>r. ob_id r = i) (\<lambda>r. r\<lparr>ob_sent := Some now\<rparr>) (rows s)"
    and increment_law: "rows (st_increment st i s) = update_rows (\<lambda>r. ob_id r = i) (\<lambda>r. r\<lparr>ob_retries := ob_retries r + 1\<rparr>) (rows s)"
    and exhaust_law: "rows (st_exhaust st i s) = update_rows (\<lambda>r. ob_id r = i) (\<lambda>r. r\<lparr>ob_retries := MaxRetries\<rparr>) (rows s)"
    and purge_law: "rows (st_purge st now del dead s) = delete_rows (purgeable now del dead) (rows s)"
begin

lemma publishOne_rows:
  "rows (ds_store (fst (publishOne st topic bk s m))) = update_rows (\<lambda>r. ob_id r = dm_id m) (attempt bk) (rows (ds_store s))"
  by (cases "bk_publish bk (dm_id m)"; cases "bk_store_ok bk (dm_id m)")
    (auto simp: publishOne_def Let_def ack_law increment_law exhaust_law attempt_def update_rows_def map_idI intro!: map_idI [symmetric])

lemma publishOne_sent:
  "\<exists>t. ds_sent (fst (publishOne st topic bk s m)) =
     ds_sent s @ (if received bk (dm_id m) then [(dm_id m, t, dm_payload m)] else [])"
  by (auto simp: publishOne_def Let_def received_def split: pub_result.splits)

lemma publishOne_ok: "snd (publishOne st topic bk s m) \<longleftrightarrow> bk_publish bk (dm_id m) = PubOk"
  by (simp add: publishOne_def Let_def split: pub_result.splits)

lemma pass_Cons:
  "pass st topic bk (s, f) (m # ms) = pass st topic bk (fst (publishOne st topic bk s m), f \<or> \<not> snd (publishOne st topic bk s m)) ms"
  by (simp add: pass_def split: prod.splits)

lemma pass_rows:
  "distinct (map dm_id ms) \<Longrightarrow>
   rows (ds_store (fst (pass st topic bk (s, f) ms))) = map (\<lambda>r. if ob_id r \<in> dm_id ` set ms then attempt bk r else r) (rows (ds_store s))"
proof (induction ms arbitrary: s f)
  case Nil
  show ?case by (simp add: pass_def)
next
  case (Cons m ms)
  show ?case
    unfolding pass_Cons using Cons.prems Cons.IH [of "fst (publishOne st topic bk s m)"]
    by (simp add: publishOne_rows update_rows_def)
qed

lemma pass_failed: "snd (pass st topic bk (s, f) ms) \<longleftrightarrow> f \<or> (\<exists>m\<in>set ms. bk_publish bk (dm_id m) \<noteq> PubOk)"
proof (induction ms arbitrary: s f)
  case (Cons m ms)
  show ?case unfolding pass_Cons using Cons.IH by (auto simp: publishOne_ok)
qed (simp add: pass_def)

lemma pass_sent:
  "\<exists>news. ds_sent (fst (pass st topic bk (s, f) ms)) = ds_sent s @ news \<and>
     map (\<lambda>(i, t, p). (i, p)) news = filter (\<lambda>(i, p). received bk i) (map (\<lambda>m. (dm_id m, dm_payload m)) ms)"
proof (induction ms arbitrary: s f)
  case (Cons m ms)
  obtain t where t: "ds_sent (fst (publishOne st topic bk s m)) =
      ds_sent s @ (if received bk (dm_id m) then [(dm_id m, t, dm_payload m)] else [])" using publishOne_sent by blast
  obtain news where "ds_sent (fst (pass st topic bk (s, f) (m # ms))) = ds_sent (fst (publishOne st topic bk s m)) @ news"
    "map (\<lambda>(i, t, p). (i, p)) news = filter (\<lambda>(i, p). received bk i) (map (\<lambda>m. (dm_id m, dm_payload m)) ms)"
    unfolding pass_Cons using Cons.IH by blast
  then show ?case unfolding t by (intro exI [of _ "(if received bk (dm_id m) then [(dm_id m, t, dm_payload m)] else []) @ news"]) auto
qed (simp add: pass_def)

lemma drain_pass: "drain st topic n bk s =
    (if bk_connected bk \<and> bk_list_ok bk then pass st topic bk (s, False) (st_list st n (ds_store s)) else (s, False))"
  by (simp add: drain_def pass_def)

lemma list_ids: "ids_sorted (rows s) \<Longrightarrow> map dm_id (st_list st n s) = map ob_id (take n (filter pending_row (rows s)))"
  using arg_cong [OF list_law, of s "map fst" n] by (simp add: comp_def)

lemma drain_spec:
  assumes "ids_sorted (rows (ds_store s))"
  shows "rows (ds_store (fst (drain st topic n bk s))) =
      map (\<lambda>r. if r \<in> set (offered n bk (rows (ds_store s))) then attempt bk r else r) (rows (ds_store s)) \<and>
    snd (drain st topic n bk s) = (\<exists>r\<in>set (offered n bk (rows (ds_store s))). bk_publish bk (ob_id r) \<noteq> PubOk) \<and>
    (\<exists>news. ds_sent (fst (drain st topic n bk s)) = ds_sent s @ news \<and>
      map (\<lambda>(i, t, p). (i, p)) news = map (\<lambda>r. (ob_id r, ob_payload r)) (filter (\<lambda>r. received bk (ob_id r)) (offered n bk (rows (ds_store s)))))"
proof (cases "bk_connected bk \<and> bk_list_ok bk")
  case True
  let ?rs = "take n (filter pending_row (rows (ds_store s)))" and ?ms = "st_list st n (ds_store s)"
  have off: "offered n bk (rows (ds_store s)) = ?rs" using True by (simp add: offered_def)
  have ids: "map dm_id ?ms = map ob_id ?rs" by (rule list_ids [OF assms])
  have set_ids: "dm_id ` set ?ms = ob_id ` set ?rs" using arg_cong [OF ids, of set] by simp
  have sorted: "distinct (map ob_id (rows (ds_store s)))" using assms unfolding ids_sorted_def by (metis strict_sorted_iff)
  then have inj: "inj_on ob_id (set (rows (ds_store s)))" by (simp add: distinct_map)
  have "distinct (map ob_id ?rs)" using sorted by (metis distinct_map_filter distinct_take take_map)
  then have dist: "distinct (map dm_id ?ms)" by (simp add: ids)
  have sub: "set ?rs \<subseteq> set (rows (ds_store s))" by (auto dest: in_set_takeD)
  have "ob_id r \<in> ob_id ` set ?rs \<longleftrightarrow> r \<in> set ?rs" if "r \<in> set (rows (ds_store s))" for r
    by (rule inj_on_image_mem_iff [OF inj that sub])
  then have "rows (ds_store (fst (pass st topic bk (s, False) ?ms))) = map (\<lambda>r. if r \<in> set ?rs then attempt bk r else r) (rows (ds_store s))"
    by (simp add: pass_rows [OF dist] set_ids)
  moreover have "(\<exists>m\<in>set ?ms. bk_publish bk (dm_id m) \<noteq> PubOk) \<longleftrightarrow> (\<exists>r\<in>set ?rs. bk_publish bk (ob_id r) \<noteq> PubOk)"
  proof -
    have "(\<exists>i\<in>dm_id ` set ?ms. bk_publish bk i \<noteq> PubOk) \<longleftrightarrow> (\<exists>i\<in>ob_id ` set ?rs. bk_publish bk i \<noteq> PubOk)" unfolding set_ids ..
    then show ?thesis by simp
  qed
  moreover have "map (\<lambda>m. (dm_id m, dm_payload m)) ?ms = map (\<lambda>r. (ob_id r, ob_payload r)) ?rs" by (rule list_law [OF assms])
  ultimately show ?thesis
    using True pass_sent [of topic bk s False ?ms] pass_failed [of topic bk s False ?ms]
    unfolding drain_pass off by (simp add: filter_map comp_def)
next
  case False
  then show ?thesis unfolding drain_pass by (auto simp: offered_def)
qed

end

text \<open>One signal: a pass over some of the pending rows, and at the hundredth tick a purge.\<close>

definition pass_rows_of :: "broker \<Rightarrow> 'p outbox_row list \<Rightarrow> 'p outbox_row list \<Rightarrow> 'p outbox_row list" where
  "pass_rows_of bk off rs = map (\<lambda>r. if r \<in> set off then attempt bk r else r) rs"

context outbox_store
begin

lemma signal_effect:
  assumes "ids_sorted (rows (ds_store (dr_state d)))"
  obtains bk k off news D where
    "rows (ds_store (dr_state (run_step st topic limit d sig))) = delete_rows D (pass_rows_of bk off (rows (ds_store (dr_state d))))"
    "off = take k (filter pending_row (rows (ds_store (dr_state d))))" "off = [] \<or> sig = Wake bk \<or> sig = Tick bk"
    "ds_sent (dr_state (run_step st topic limit d sig)) = ds_sent (dr_state d) @ news"
    "map (\<lambda>(i, t, p). (i, p)) news = map (\<lambda>r. (ob_id r, ob_payload r)) (filter (\<lambda>r. received bk (ob_id r)) off)"
    "D = (\<lambda>_. False) \<or> sig = Tick bk \<and> D = purgeable (bk_now bk) MessageRetentionPeriod DeadLetterRetentionPeriod"
proof -
  note found = that
  let ?rs = "rows (ds_store (dr_state d))"
  let ?k = "\<lambda>bk. if bk_connected bk \<and> bk_list_ok bk then batch limit else 0"
  have sub: "offered (batch limit) bk ?rs = take (?k bk) (filter pending_row ?rs)" for bk
    by (simp add: offered_def)
  have quiet: ?thesis if same: "dr_state (run_step st topic limit d sig) = dr_state d"
    by (rule found [where bk = undefined and k = 0 and off = "[]" and news = "[]" and D = "\<lambda>_. False"]) (simp_all add: same pass_rows_of_def delete_rows_def)
  show ?thesis
  proof (cases "dr_stopped d")
    case True
    then show ?thesis using quiet by (simp add: run_step_def)
  next
    case go: False
    show ?thesis
    proof (cases sig)
      case (Wake bk)
      note eff = drain_spec [OF assms, of topic "batch limit" bk]
      have st': "dr_state (run_step st topic limit d sig) = fst (drain st topic (batch limit) bk (dr_state d))" if "\<not> dr_muted d"
        using go Wake that by (simp add: run_step_def split: prod.splits)
      show ?thesis
      proof (cases "dr_muted d")
        case True
        then show ?thesis using quiet go Wake by (simp add: run_step_def)
      next
        case False
        obtain news where "ds_sent (fst (drain st topic (batch limit) bk (dr_state d))) = ds_sent (dr_state d) @ news"
          "map (\<lambda>(i, t, p). (i, p)) news = map (\<lambda>r. (ob_id r, ob_payload r)) (filter (\<lambda>r. received bk (ob_id r)) (offered (batch limit) bk ?rs))"
          using eff by blast
        then show ?thesis using eff sub st' [OF False]
          by (intro found [where bk = bk and k = "?k bk" and off = "offered (batch limit) bk ?rs" and news = news and D = "\<lambda>_. False"])
            (simp_all add: pass_rows_of_def delete_rows_def Wake)
      qed
    next
      case (Tick bk)
      note eff = drain_spec [OF assms, of topic "batch limit" bk]
      let ?s = "fst (drain st topic (batch limit) bk (dr_state d))"
      let ?p = "(dr_cycles d + 1) mod PurgeCycleInterval = 0 \<and> bk_purge_ok bk"
      have st': "dr_state (run_step st topic limit d sig) =
          (if ?p then ?s\<lparr>ds_store := st_purge st (bk_now bk) MessageRetentionPeriod DeadLetterRetentionPeriod (ds_store ?s)\<rparr> else ?s)"
        using go Tick by (simp add: run_step_def Let_def split: prod.splits)
      obtain news where "ds_sent ?s = ds_sent (dr_state d) @ news"
        "map (\<lambda>(i, t, p). (i, p)) news = map (\<lambda>r. (ob_id r, ob_payload r)) (filter (\<lambda>r. received bk (ob_id r)) (offered (batch limit) bk ?rs))"
        using eff by blast
      then show ?thesis using eff sub
        by (intro found [where bk = bk and k = "?k bk" and off = "offered (batch limit) bk ?rs" and news = news and
              D = "if ?p then purgeable (bk_now bk) MessageRetentionPeriod DeadLetterRetentionPeriod else (\<lambda>_. False)"])
          (simp_all add: st' [unfolded Tick] Tick pass_rows_of_def purge_law delete_rows_def)
    next
      case WakeStopped
      then show ?thesis using quiet go by (simp add: run_step_def)
    next
      case Stop
      then show ?thesis using quiet go by (simp add: run_step_def)
    qed
  qed
qed

end

text \<open>The doorbell does not multiply retries: a failed pass mutes it until a tick.\<close>

definition spare :: "('s, 'p) Drainer \<Rightarrow> nat" where
  "spare d = (if dr_muted d then 0 else 1)"

definition ticks :: "signal list \<Rightarrow> nat" where
  "ticks sigs = length (filter (\<lambda>sig. case sig of Tick bk \<Rightarrow> True | _ \<Rightarrow> False) sigs)"

fun outage :: "signal \<Rightarrow> bool" where
  "outage (Wake bk) = (\<forall>i. bk_publish bk i = PubError)"
| "outage (Tick bk) = (\<forall>i. bk_publish bk i = PubError)"
| "outage _ = True"

definition healthy :: "broker \<Rightarrow> bool" where
  "healthy bk \<longleftrightarrow> bk_connected bk \<and> bk_list_ok bk \<and> (\<forall>i. bk_publish bk i = PubOk \<and> bk_store_ok bk i)"

lemma ids_sorted_pass: "ids_sorted rs \<Longrightarrow> ids_sorted (delete_rows D (pass_rows_of bk off rs))"
proof -
  assume "ids_sorted rs"
  then have "sorted_wrt (<) (map ob_id (pass_rows_of bk off rs))" by (simp add: ids_sorted_def pass_rows_of_def comp_def if_distrib cong: if_cong)
  then show ?thesis by (simp add: ids_sorted_def delete_rows_def sorted_wrt_map sorted_wrt_filter)
qed

lemma attempt_error: "bk_publish bk (ob_id r) = PubError \<Longrightarrow> ob_sent (attempt bk r) = ob_sent r \<and> ob_retries (attempt bk r) \<le> ob_retries r + 1"
  by (simp add: attempt_def)

lemma not_purged: "ob_sent r = None \<Longrightarrow> ob_retries r < MaxRetries \<Longrightarrow> \<not> purgeable now del dead r"
  by (simp add: purgeable_def dead_row_def sent_before_def)

context outbox_store
begin

lemma run_sorted:
  assumes "ids_sorted (rows (ds_store (dr_state d)))"
  shows "ids_sorted (rows (ds_store (dr_state (run_step st topic limit d sig))))"
  by (rule signal_effect [OF assms, where topic = topic and limit = limit and sig = sig]) (simp add: ids_sorted_pass [OF assms])

lemma outage_pass:
  assumes "ids_sorted (rows (ds_store s))" and "\<forall>i. bk_publish bk i = PubError" and "r \<in> set (rows (ds_store s))" and "ob_sent r = None"
  shows "\<exists>r'\<in>set (rows (ds_store (fst (drain st topic n bk s)))). ob_id r' = ob_id r \<and> ob_payload r' = ob_payload r \<and> ob_sent r' = None \<and>
    (if snd (drain st topic n bk s) then ob_retries r' \<le> ob_retries r + 1 else r' = r)"
proof -
  note eff = drain_spec [OF assms(1), of topic n bk]
  let ?off = "offered n bk (rows (ds_store s))"
  let ?r' = "if r \<in> set ?off then attempt bk r else r"
  have "?r' \<in> set (rows (ds_store (fst (drain st topic n bk s))))" using eff assms(3) by auto
  moreover have "snd (drain st topic n bk s) \<longleftrightarrow> ?off \<noteq> []" using eff assms(2) by (cases ?off) auto
  ultimately show ?thesis using attempt_error [of bk r] assms(2,4) by (intro bexI [of _ ?r']) auto
qed

lemma outage_step:
  assumes "ids_sorted (rows (ds_store (dr_state d)))" and "outage sig" and "r \<in> set (rows (ds_store (dr_state d)))" and "ob_sent r = None"
    and "ob_retries r + spare d + ticks [sig] < MaxRetries"
  shows "\<exists>r'\<in>set (rows (ds_store (dr_state (run_step st topic limit d sig)))). ob_id r' = ob_id r \<and> ob_payload r' = ob_payload r \<and> ob_sent r' = None \<and>
    ob_retries r' + spare (run_step st topic limit d sig) \<le> ob_retries r + spare d + ticks [sig]"
proof (cases "dr_stopped d \<or> sig = Stop \<or> sig = WakeStopped \<or> (dr_muted d \<and> (\<exists>bk. sig = Wake bk))")
  case True
  then have "dr_state (run_step st topic limit d sig) = dr_state d" "spare (run_step st topic limit d sig) = spare d"
    by (auto simp: run_step_def spare_def)
  then show ?thesis using assms(3,4) by auto
next
  case False
  then consider (wake) bk where "sig = Wake bk" "\<not> dr_muted d" | (tick) bk where "sig = Tick bk" by (cases sig) auto
  then show ?thesis
  proof cases
    case wake
    obtain s f where dr: "drain st topic (batch limit) bk (dr_state d) = (s, f)" by fastforce
    have "run_step st topic limit d sig = d\<lparr>dr_state := s, dr_muted := f\<rparr>" using False wake dr by (simp add: run_step_def)
    then show ?thesis using outage_pass [OF assms(1) _ assms(3,4), of bk topic "batch limit"] assms(2) wake dr
      by (auto simp: spare_def split: if_splits)
  next
    case tick
    obtain s f where dr: "drain st topic (batch limit) bk (dr_state d) = (s, f)" by fastforce
    obtain r' where r': "r' \<in> set (rows (ds_store s))" "ob_id r' = ob_id r" "ob_payload r' = ob_payload r" "ob_sent r' = None"
      "if f then ob_retries r' \<le> ob_retries r + 1 else r' = r"
      using outage_pass [OF assms(1) _ assms(3,4), of bk topic "batch limit"] assms(2) tick dr by auto
    have t: "ticks [sig] = 1" using tick by (simp add: ticks_def)
    then have live: "ob_retries r' < MaxRetries" using r'(5) assms(5) by (auto split: if_splits)
    have "r' \<in> set (rows (ds_store (dr_state (run_step st topic limit d sig))))" "spare (run_step st topic limit d sig) = (if f then 0 else 1)"
      using False tick dr r'(1) not_purged [OF r'(4) live] by (auto simp: run_step_def Let_def purge_law spare_def)
    then show ?thesis using r' t by (intro bexI [of _ r']) (auto split: if_splits)
  qed
qed

lemma outage_run:
  assumes "ids_sorted (rows (ds_store (dr_state d)))" and "list_all outage sigs" and "r \<in> set (rows (ds_store (dr_state d)))"
    and "ob_sent r = None" and "ob_retries r + spare d + ticks sigs < MaxRetries"
  shows "\<exists>r'\<in>set (rows (ds_store (dr_state (foldl (run_step st topic limit) d sigs)))). ob_id r' = ob_id r \<and> ob_payload r' = ob_payload r \<and>
    ob_sent r' = None \<and> ob_retries r' \<le> ob_retries r + spare d + ticks sigs"
  using assms
proof (induction sigs arbitrary: d r)
  case Nil
  then show ?case by (intro bexI [of _ r]) auto
next
  case (Cons sig sigs)
  have split: "ticks (sig # sigs) = ticks [sig] + ticks sigs" by (simp add: ticks_def)
  obtain r' where r': "r' \<in> set (rows (ds_store (dr_state (run_step st topic limit d sig))))" "ob_id r' = ob_id r" "ob_payload r' = ob_payload r"
    "ob_sent r' = None" "ob_retries r' + spare (run_step st topic limit d sig) \<le> ob_retries r + spare d + ticks [sig]"
    using outage_step [OF Cons.prems(1) _ Cons.prems(3,4), of sig topic limit] Cons.prems(2,5) split by auto
  show ?case using Cons.IH [OF run_sorted [OF Cons.prems(1)] _ r'(1,4)] Cons.prems(2,5) r' split by fastforce
qed

end

lemma filter_map_attempt:
  assumes "distinct rs" and "\<And>r. r \<in> set off \<Longrightarrow> \<not> pending_row (attempt bk r)"
  shows "filter pending_row (pass_rows_of bk off rs) = filter (\<lambda>r. r \<notin> set off) (filter pending_row rs)"
  using assms by (induction rs) (auto simp: pass_rows_of_def)

lemma filter_delete: "(\<And>r. D r \<Longrightarrow> \<not> P r) \<Longrightarrow> filter P (delete_rows D rs) = filter P rs"
  by (induction rs) (auto simp: delete_rows_def)

lemma filter_notin_take: "distinct xs \<Longrightarrow> filter (\<lambda>x. x \<notin> set (take n xs)) xs = drop n xs"
proof -
  assume d: "distinct xs"
  have "filter (\<lambda>x. x \<notin> set (take n xs)) (take n xs @ drop n xs) = drop n xs"
    using d set_take_disj_set_drop_if_distinct [OF d, of n n] by (auto simp: filter_empty_conv filter_id_conv simp del: append_take_drop_id)
  then show ?thesis by simp
qed

lemma ids_sorted_distinct: "ids_sorted rs \<Longrightarrow> distinct rs"
  unfolding ids_sorted_def by (metis distinct_map strict_sorted_iff)

context outbox_store
begin

lemma healthy_tick:
  assumes "ids_sorted (rows (ds_store (dr_state d)))" and "healthy bk" and "\<not> dr_stopped d"
  shows "filter pending_row (rows (ds_store (dr_state (run_step st topic limit d (Tick bk))))) =
      drop (batch limit) (filter pending_row (rows (ds_store (dr_state d)))) \<and>
    (\<exists>news. ds_sent (dr_state (run_step st topic limit d (Tick bk))) = ds_sent (dr_state d) @ news \<and>
      map (\<lambda>(i, t, p). (i, p)) news =
        map (\<lambda>r. (ob_id r, ob_payload r)) (take (batch limit) (filter pending_row (rows (ds_store (dr_state d)))))) \<and>
    \<not> dr_stopped (run_step st topic limit d (Tick bk)) \<and> \<not> dr_muted (run_step st topic limit d (Tick bk))"
proof -
  let ?rs = "rows (ds_store (dr_state d))" and ?n = "batch limit"
  obtain s f where dr: "drain st topic ?n bk (dr_state d) = (s, f)" by fastforce
  have off: "offered ?n bk ?rs = take ?n (filter pending_row ?rs)" using assms(2) by (simp add: offered_def healthy_def)
  note eff = drain_spec [OF assms(1), of topic ?n bk, unfolded dr off fst_conv snd_conv]
  have rows: "rows (ds_store s) = pass_rows_of bk (take ?n (filter pending_row ?rs)) ?rs" using eff by (simp add: pass_rows_of_def)
  have sent: "\<not> pending_row (attempt bk r)" for r using assms(2) by (simp add: healthy_def attempt_def pending_row_def)
  have dist: "distinct ?rs" by (rule ids_sorted_distinct [OF assms(1)])
  have pend: "filter pending_row (rows (ds_store s)) = drop ?n (filter pending_row ?rs)"
    unfolding rows filter_map_attempt [OF dist sent] by (rule filter_notin_take) (simp add: dist)
  have keep: "filter pending_row (delete_rows (purgeable now del dead) qs) = filter pending_row qs" for now del dead and qs :: "'p outbox_row list"
    by (rule filter_delete) (auto simp: purgeable_def dead_row_def pending_row_def sent_before_def)
  have ok: "received bk i" "\<not> f" for i using assms(2) eff by (auto simp: received_def healthy_def)
  have step: "run_step st topic limit d (Tick bk) = d\<lparr>dr_state :=
      (if (dr_cycles d + 1) mod PurgeCycleInterval = 0 \<and> bk_purge_ok bk
       then s\<lparr>ds_store := st_purge st (bk_now bk) MessageRetentionPeriod DeadLetterRetentionPeriod (ds_store s)\<rparr> else s),
      dr_cycles := dr_cycles d + 1, dr_muted := False\<rparr>"
    using assms(3) dr ok(2) by (simp add: run_step_def Let_def)
  have "\<exists>news. ds_sent s = ds_sent (dr_state d) @ news \<and>
      map (\<lambda>(i, t, p). (i, p)) news = map (\<lambda>r. (ob_id r, ob_payload r)) (take ?n (filter pending_row ?rs))"
    using eff ok(1) by simp
  then show ?thesis unfolding step using assms(3) by (simp add: purge_law keep pend)
qed

lemma healthy_ticks:
  assumes "ids_sorted (rows (ds_store (dr_state d)))" and "list_all healthy bks" and "\<not> dr_stopped d"
  shows "filter pending_row (rows (ds_store (dr_state (foldl (run_step st topic limit) d (map Tick bks))))) =
      drop (length bks * batch limit) (filter pending_row (rows (ds_store (dr_state d)))) \<and>
    (\<exists>news. ds_sent (dr_state (foldl (run_step st topic limit) d (map Tick bks))) = ds_sent (dr_state d) @ news \<and>
      map (\<lambda>(i, t, p). (i, p)) news =
        map (\<lambda>r. (ob_id r, ob_payload r)) (take (length bks * batch limit) (filter pending_row (rows (ds_store (dr_state d))))))"
  using assms
proof (induction bks arbitrary: d)
  case (Cons bk bks)
  let ?d = "run_step st topic limit d (Tick bk)" and ?n = "batch limit" and ?P = "filter pending_row (rows (ds_store (dr_state d)))"
  have one: "filter pending_row (rows (ds_store (dr_state ?d))) = drop ?n ?P" "\<not> dr_stopped ?d"
    using healthy_tick [OF Cons.prems(1) _ Cons.prems(3), of bk topic limit] Cons.prems(2) by auto
  obtain n1 where n1: "ds_sent (dr_state ?d) = ds_sent (dr_state d) @ n1" "map (\<lambda>(i, t, p). (i, p)) n1 = map (\<lambda>r. (ob_id r, ob_payload r)) (take ?n ?P)"
    using healthy_tick [OF Cons.prems(1) _ Cons.prems(3), of bk topic limit] Cons.prems(2) by auto
  note IH = Cons.IH [OF run_sorted [OF Cons.prems(1)] _ one(2), unfolded one(1)]
  obtain n2 where n2: "ds_sent (dr_state (foldl (run_step st topic limit) ?d (map Tick bks))) = ds_sent (dr_state ?d) @ n2"
    "map (\<lambda>(i, t, p). (i, p)) n2 = map (\<lambda>r. (ob_id r, ob_payload r)) (take (length bks * ?n) (drop ?n ?P))"
    using IH Cons.prems(2) by auto
  have "filter pending_row (rows (ds_store (dr_state (foldl (run_step st topic limit) ?d (map Tick bks))))) = drop (length bks * ?n) (drop ?n ?P)"
    using IH Cons.prems(2) by simp
  moreover have "map (\<lambda>(i, t, p). (i, p)) (n1 @ n2) = map (\<lambda>r. (ob_id r, ob_payload r)) (take (?n + length bks * ?n) ?P)"
    using n1(2) n2(2) by (simp add: take_add)
  ultimately show ?case using n1(1) n2(1) by (auto simp: add.commute intro!: exI [of _ "n1 @ n2"])
qed simp

end

section \<open>The two stores keep the contract\<close>

lemma sort_sorted: "ids_sorted rs \<Longrightarrow> sort_key ob_id (filter P rs) = filter P rs"
proof (rule sort_key_id_if_sorted)
  assume "ids_sorted rs"
  then have "sorted_wrt (<) (map ob_id (filter P rs))" by (simp add: ids_sorted_def sorted_wrt_map sorted_wrt_filter)
  then show "sorted (map ob_id (filter P rs))" by (metis strict_sorted_iff)
qed

interpretation edge: outbox_store edgeOutboxStore ot_rows
proof
  fix s :: "'p outbox_row outbox_table" and n
  assume "ids_sorted (ot_rows s)"
  then show "map (\<lambda>m. (dm_id m, dm_payload m)) (st_list edgeOutboxStore n s) = map (\<lambda>r. (ob_id r, ob_payload r)) (take n (filter pending_row (ot_rows s)))"
    by (simp add: edgeOutboxStore_def ListPending_def sort_sorted comp_def)
qed (simp_all add: edgeOutboxStore_def Ack_def IncrementRetries_def MarkExhausted_def on_row_def PurgeOld_def delete_rows_def purgeable_def conj_commute)

definition plain_row :: "'p core_row \<Rightarrow> 'p outbox_row" where
  "plain_row r = \<lparr>ob_id = ob_id r, ob_payload = ob_payload r, ob_type = ob_type r, ob_retries = ob_retries r, ob_created = ob_created r, ob_sent = ob_sent r\<rparr>"

lemma plain_simps [simp]:
  "ob_id (plain_row r) = ob_id r" "ob_payload (plain_row r) = ob_payload r" "pending_row (plain_row r) = pending_row r"
  "purgeable now del dead (plain_row r) = purgeable now del dead r"
  by (simp_all add: plain_row_def pending_row_def purgeable_def dead_row_def sent_before_def)

lemma plain_update:
  assumes "\<And>r. plain_row (f r) = g (plain_row r)"
  shows "map plain_row (update_rows (\<lambda>r. ob_id r = i) f rs) = update_rows (\<lambda>r. ob_id r = i) g (map plain_row rs)"
  using assms by (simp add: update_rows_def)

lemma plain_filter: "map plain_row (filter pending_row rs) = filter pending_row (map plain_row rs)"
  by (simp add: filter_map comp_def)

interpretation core: outbox_store coreOutboxStore "\<lambda>t. map plain_row (ot_rows t)"
proof
  fix s :: "'p core_row outbox_table" and n
  assume "ids_sorted (map plain_row (ot_rows s))"
  then have "sorted_wrt (<) (map ob_id (ot_rows s))" by (simp add: ids_sorted_def comp_def)
  then have "sorted_wrt (<) (map ob_id (filter pending_row (ot_rows s)))" by (simp add: sorted_wrt_map sorted_wrt_filter)
  then have "sort_key ob_id (filter pending_row (ot_rows s)) = filter pending_row (ot_rows s)"
    by (intro sort_key_id_if_sorted) (metis strict_sorted_iff)
  then show "map (\<lambda>m. (dm_id m, dm_payload m)) (st_list coreOutboxStore n s) =
      map (\<lambda>r. (ob_id r, ob_payload r)) (take n (filter pending_row (map plain_row (ot_rows s))))"
    by (simp add: coreOutboxStore_def ListPendingOutbox_def comp_def take_map flip: plain_filter)
next
  show "map plain_row (ot_rows (st_ack coreOutboxStore now i s)) =
      update_rows (\<lambda>r. ob_id r = i) (\<lambda>r. r\<lparr>ob_sent := Some now\<rparr>) (map plain_row (ot_rows s))" for now i and s :: "'p core_row outbox_table"
    by (simp add: coreOutboxStore_def AckOutbox_def on_row_def) (rule plain_update, simp add: plain_row_def)
next
  show "map plain_row (ot_rows (st_increment coreOutboxStore i s)) =
      update_rows (\<lambda>r. ob_id r = i) (\<lambda>r. r\<lparr>ob_retries := ob_retries r + 1\<rparr>) (map plain_row (ot_rows s))" for i and s :: "'p core_row outbox_table"
    by (simp add: coreOutboxStore_def IncrementOutboxRetries_def on_row_def) (rule plain_update, simp add: plain_row_def)
next
  show "map plain_row (ot_rows (st_exhaust coreOutboxStore i s)) =
      update_rows (\<lambda>r. ob_id r = i) (\<lambda>r. r\<lparr>ob_retries := MaxRetries\<rparr>) (map plain_row (ot_rows s))" for i and s :: "'p core_row outbox_table"
    by (simp add: coreOutboxStore_def MarkOutboxExhausted_def on_row_def) (rule plain_update, simp add: plain_row_def)
next
  show "map plain_row (ot_rows (st_purge coreOutboxStore now del dead s)) = delete_rows (purgeable now del dead) (map plain_row (ot_rows s))"
    for now del dead and s :: "'p core_row outbox_table"
    by (simp add: coreOutboxStore_def PurgeOldOutbox_def delete_rows_def filter_map comp_def purgeable_def [of _ _ _ "_ :: 'p core_row"] conj_commute)
qed

section \<open>Edge's outbox as a system\<close>

text \<open>
  Everything that touches Edge's table: the two ways to enqueue, the operator's requeue and the
  drainer's signals.  The log remembers what was asked to be sent.
\<close>

datatype 'p outbox_input =
    EdgeEnqueue instant 'p string
  | EdgeSnapshot instant bool "'p list" string
  | EdgeRequeue int
  | EdgeSignal signal

record 'p outbox_system =
  es_drainer :: "('p outbox_row outbox_table, 'p) Drainer"
  es_log :: "(int \<times> 'p \<times> string \<times> instant) list"

definition es_table :: "'p outbox_system \<Rightarrow> 'p outbox_row outbox_table" where
  "es_table s = ds_store (dr_state (es_drainer s))"

definition es_sent :: "'p outbox_system \<Rightarrow> (int \<times> string \<times> 'p) list" where
  "es_sent s = ds_sent (dr_state (es_drainer s))"

definition set_table :: "'p outbox_row outbox_table \<Rightarrow> 'p outbox_system \<Rightarrow> 'p outbox_system" where
  "set_table t s = s\<lparr>es_drainer := (es_drainer s)\<lparr>dr_state := (dr_state (es_drainer s))\<lparr>ds_store := t\<rparr>\<rparr>\<rparr>"

definition asked :: "int \<Rightarrow> instant \<Rightarrow> string \<Rightarrow> 'p list \<Rightarrow> (int \<times> 'p \<times> string \<times> instant) list" where
  "asked i now ty ps = map (\<lambda>(k, p). (i + int k, p, ty, now)) (enumerate 0 ps)"

fun outbox_step :: "string \<Rightarrow> int \<Rightarrow> 'p outbox_system \<Rightarrow> 'p outbox_input \<Rightarrow> 'p outbox_system" where
  "outbox_step topic limit s (EdgeEnqueue now p ty) =
     (set_table (Enqueue now p ty (es_table s)) s)\<lparr>es_log := es_log s @ asked (ot_next (es_table s)) now ty [p]\<rparr>"
| "outbox_step topic limit s (EdgeSnapshot now ok ps ty) =
     (set_table (fst (EnqueueSnapshot now ok ps ty (es_table s))) s)
       \<lparr>es_log := es_log s @ (if ok \<and> snd (EnqueueSnapshot now ok ps ty (es_table s)) then asked (ot_next (es_table s)) now ty ps else [])\<rparr>"
| "outbox_step topic limit s (EdgeRequeue i) = set_table (Requeue i (es_table s)) s"
| "outbox_step topic limit s (EdgeSignal sig) = s\<lparr>es_drainer := run_step edgeOutboxStore topic limit (es_drainer s) sig\<rparr>"

definition outbox_start :: "'p outbox_system" where
  "outbox_start = \<lparr>es_drainer = NewDrainer \<lparr>ot_rows = [], ot_next = 1\<rparr>, es_log = []\<rparr>"

definition outbox_run :: "string \<Rightarrow> int \<Rightarrow> 'p outbox_input list \<Rightarrow> 'p outbox_system" where
  "outbox_run topic limit ins = foldl (outbox_step topic limit) outbox_start ins"

definition entry :: "'p outbox_row \<Rightarrow> int \<times> 'p \<times> string \<times> instant" where
  "entry r = (ob_id r, ob_payload r, ob_type r, ob_created r)"

definition late :: "'p outbox_input list \<Rightarrow> instant \<Rightarrow> bool" where
  "late ins c \<longleftrightarrow> (\<exists>bk. EdgeSignal (Tick bk) \<in> set ins \<and> c + DeadLetterRetentionPeriod < bk_now bk)"

definition rows_ok :: "'p outbox_row list \<Rightarrow> int \<Rightarrow> (int \<times> string \<times> 'p) list \<Rightarrow> (int \<times> 'p \<times> string \<times> instant) list \<Rightarrow> bool" where
  "rows_ok rs n sent log \<longleftrightarrow> ids_sorted rs \<and> (\<forall>r\<in>set rs. ob_id r < n) \<and> (\<forall>r\<in>set rs. entry r \<in> set log) \<and>
     (\<forall>r\<in>set rs. ob_retries r \<le> MaxRetries \<and> (ob_sent r \<noteq> None \<longrightarrow> ob_id r \<in> fst ` set sent)) \<and>
     (\<forall>(i, t, p)\<in>set sent. \<exists>ty c. (i, p, ty, c) \<in> set log)"

definition kept :: "'p outbox_input list \<Rightarrow> 'p outbox_row list \<Rightarrow> (int \<times> string \<times> 'p) list \<Rightarrow> int \<times> 'p \<times> string \<times> instant \<Rightarrow> bool" where
  "kept ins rs sent l \<longleftrightarrow> l \<in> entry ` set rs \<or> fst l \<in> fst ` set sent \<or> fst (snd (snd l)) \<in> set coalescableSubjects \<or> late ins (snd (snd (snd l)))"

definition outbox_ok :: "'p outbox_input list \<Rightarrow> 'p outbox_system \<Rightarrow> bool" where
  "outbox_ok ins s \<longleftrightarrow> rows_ok (ot_rows (es_table s)) (ot_next (es_table s)) (es_sent s) (es_log s) \<and>
     (\<forall>l\<in>set (es_log s). kept ins (ot_rows (es_table s)) (es_sent s) l)"

lemma late_more: "late ins c \<Longrightarrow> late (ins @ ins') c"
  by (auto simp: late_def)

lemma kept_more: "kept ins rs sent l \<Longrightarrow> set rs \<subseteq> set rs' \<Longrightarrow> kept (ins @ ins') rs' (sent @ sent') l"
  by (auto simp: kept_def late_more)

lemma table_simps_es [simp]:
  "es_table (set_table t s) = t" "es_sent (set_table t s) = es_sent s" "es_log (set_table t s) = es_log s"
  "es_table (s\<lparr>es_log := l\<rparr>) = es_table s" "es_sent (s\<lparr>es_log := l\<rparr>) = es_sent s"
  by (simp_all add: es_table_def es_sent_def set_table_def)

definition fresh_row :: "int \<Rightarrow> instant \<Rightarrow> string \<Rightarrow> 'p \<Rightarrow> 'p outbox_row" where
  "fresh_row i now ty p = \<lparr>ob_id = i, ob_payload = p, ob_type = ty, ob_retries = 0, ob_created = now, ob_sent = None\<rparr>"

lemma rows_ok_fresh:
  assumes "rows_ok rs n sent log"
  shows "rows_ok (rs @ [fresh_row n now ty p]) (n + 1) sent (log @ [(n, p, ty, now)])"
  using assms unfolding rows_ok_def by (fastforce simp: ids_sorted_def sorted_wrt_append fresh_row_def entry_def)

lemma rows_ok_delete: "rows_ok rs n sent log \<Longrightarrow> rows_ok (delete_rows D rs) n sent log"
  unfolding rows_ok_def by (auto simp: ids_sorted_def sorted_wrt_map delete_rows_def sorted_wrt_filter)

lemma asked_snoc: "asked i now ty (ps @ [p]) = asked i now ty ps @ [(i + int (length ps), p, ty, now)]"
  by (simp add: asked_def enumerate_append_eq)

lemma enqueue_all:
  assumes "rows_ok (ot_rows t) (ot_next t) sent log"
  shows "rows_ok (ot_rows (foldl (\<lambda>t p. Enqueue now p ty t) t ps)) (ot_next t + int (length ps)) sent (log @ asked (ot_next t) now ty ps) \<and>
    ot_next (foldl (\<lambda>t p. Enqueue now p ty t) t ps) = ot_next t + int (length ps) \<and>
    set (ot_rows t) \<subseteq> set (ot_rows (foldl (\<lambda>t p. Enqueue now p ty t) t ps)) \<and>
    set (asked (ot_next t) now ty ps) \<subseteq> entry ` set (ot_rows (foldl (\<lambda>t p. Enqueue now p ty t) t ps))"
proof (induction ps rule: rev_induct)
  case Nil
  show ?case using assms by (simp add: asked_def)
next
  case (snoc p ps)
  let ?t = "foldl (\<lambda>t p. Enqueue now p ty t) t ps"
  have rows: "ot_rows (foldl (\<lambda>t p. Enqueue now p ty t) t (ps @ [p])) = ot_rows ?t @ [fresh_row (ot_next ?t) now ty p]"
    "ot_next (foldl (\<lambda>t p. Enqueue now p ty t) t (ps @ [p])) = ot_next ?t + 1"
    by (simp_all add: Enqueue_def fresh_row_def)
  have "rows_ok (ot_rows ?t @ [fresh_row (ot_next ?t) now ty p]) (ot_next ?t + 1) sent
      ((log @ asked (ot_next t) now ty ps) @ [(ot_next ?t, p, ty, now)])"
    by (rule rows_ok_fresh) (use snoc in simp)
  then show ?case unfolding rows asked_snoc using snoc by (auto simp: fresh_row_def entry_def ac_simps)
qed

lemma outbox_okI:
  assumes "rows_ok (ot_rows (es_table s)) (ot_next (es_table s)) (es_sent s) (es_log s)"
    and "\<And>l. l \<in> set (es_log s) \<Longrightarrow> kept ins (ot_rows (es_table s)) (es_sent s) l"
  shows "outbox_ok ins s"
  using assms by (simp add: outbox_ok_def)

lemma outbox_ok_enqueue:
  assumes "outbox_ok ins s"
  shows "outbox_ok (ins @ [EdgeEnqueue now p ty]) (outbox_step topic limit s (EdgeEnqueue now p ty))"
proof -
  note en = enqueue_all [where t = "es_table s" and now = now and ty = ty and ps = "[p]" and sent = "es_sent s" and log = "es_log s"]
  have ok: "rows_ok (ot_rows (es_table s)) (ot_next (es_table s)) (es_sent s) (es_log s)" using assms by (simp add: outbox_ok_def)
  show ?thesis
  proof (rule outbox_okI)
    fix l assume "l \<in> set (es_log (outbox_step topic limit s (EdgeEnqueue now p ty)))"
    then consider "l \<in> set (es_log s)" | "l \<in> set (asked (ot_next (es_table s)) now ty [p])" by auto
    then show "kept (ins @ [EdgeEnqueue now p ty]) (ot_rows (es_table (outbox_step topic limit s (EdgeEnqueue now p ty))))
        (es_sent (outbox_step topic limit s (EdgeEnqueue now p ty))) l"
    proof cases
      case 1
      then have "kept ins (ot_rows (es_table s)) (es_sent s) l" using assms by (simp add: outbox_ok_def)
      then show ?thesis using en [OF ok] kept_more [where sent' = "[]"] by fastforce
    next
      case 2
      then show ?thesis using en [OF ok] by (auto simp: kept_def)
    qed
  qed (use en [OF ok] in simp)
qed

lemma outbox_ok_snapshot:
  assumes "outbox_ok ins s"
  shows "outbox_ok (ins @ [EdgeSnapshot now b ps ty]) (outbox_step topic limit s (EdgeSnapshot now b ps ty))"
proof (cases "b \<and> ty \<in> set coalescableSubjects \<and> ps \<noteq> []")
  case False
  then have "es_table (outbox_step topic limit s (EdgeSnapshot now b ps ty)) = es_table s" "es_log (outbox_step topic limit s (EdgeSnapshot now b ps ty)) = es_log s"
    by (auto simp: EnqueueSnapshot_def asked_def)
  then show ?thesis using assms kept_more [where sent' = "[]"] by (fastforce simp: outbox_ok_def)
next
  case True
  let ?t = "(es_table s)\<lparr>ot_rows := delete_rows (\<lambda>r. ob_sent r = None \<and> ob_type r = ty) (ot_rows (es_table s))\<rparr>"
  let ?ins = "ins @ [EdgeSnapshot now b ps ty]" and ?s = "outbox_step topic limit s (EdgeSnapshot now b ps ty)"
  have step: "es_table ?s = foldl (\<lambda>t p. Enqueue now p ty t) ?t ps" "es_log ?s = es_log s @ asked (ot_next ?t) now ty ps" "es_sent ?s = es_sent s"
    using True by (simp_all add: EnqueueSnapshot_def)
  have "rows_ok (ot_rows ?t) (ot_next ?t) (es_sent s) (es_log s)" using assms by (simp add: outbox_ok_def rows_ok_delete)
  note en = enqueue_all [OF this, of now ty ps]
  have old: "kept ?ins (ot_rows ?t) (es_sent s) l" if "l \<in> set (es_log s)" for l
  proof -
    have "kept ins (ot_rows (es_table s)) (es_sent s) l" using assms that by (simp add: outbox_ok_def)
    then show ?thesis using True by (auto simp: kept_def late_more entry_def delete_rows_def)
  qed
  show ?thesis
  proof (rule outbox_okI)
    fix l assume "l \<in> set (es_log ?s)"
    then consider "l \<in> set (es_log s)" | "l \<in> set (asked (ot_next ?t) now ty ps)" unfolding step by auto
    then show "kept ?ins (ot_rows (es_table ?s)) (es_sent ?s) l"
    proof cases
      case 1
      then show ?thesis unfolding step using kept_more [OF old [OF 1], of _ "[]" "[]"] en by simp
    next
      case 2
      then show ?thesis unfolding step using en by (auto simp: kept_def)
    qed
  qed (use en step in simp)
qed

lemma entry_eqs [simp]: "entry (attempt bk r) = entry r" "entry (r\<lparr>ob_retries := n\<rparr>) = entry r"
  by (simp_all add: entry_def)

lemma outbox_ok_requeue:
  assumes "outbox_ok ins s"
  shows "outbox_ok (ins @ [EdgeRequeue i]) (outbox_step topic limit s (EdgeRequeue i))"
proof -
  let ?rs = "ot_rows (es_table s)" and ?rs' = "update_rows (\<lambda>r. ob_id r = i \<and> ob_sent r = None) (\<lambda>r. r\<lparr>ob_retries := 0\<rparr>) (ot_rows (es_table s))"
  have rows: "ot_rows (es_table (outbox_step topic limit s (EdgeRequeue i))) = ?rs'" by (simp add: Requeue_def)
  have same: "map entry ?rs' = map entry ?rs" by (simp add: map_update_rows)
  have ids: "map ob_id ?rs' = map ob_id ?rs" by (simp add: map_update_rows)
  have img: "entry ` set ?rs' = entry ` set ?rs" using arg_cong [OF same, of set] by simp
  have "rows_ok ?rs' (ot_next (es_table s)) (es_sent s) (es_log s)"
    using assms unfolding outbox_ok_def rows_ok_def ids_sorted_def ids by (auto simp: update_rows_def)
  moreover have "kept (ins @ [EdgeRequeue i]) ?rs' (es_sent s) l" if "l \<in> set (es_log s)" for l
    using assms that img by (auto simp: outbox_ok_def kept_def late_more)
  ultimately show ?thesis by (intro outbox_okI) (simp_all add: Requeue_def)
qed

lemma attempt_bounds:
  assumes "pending_row r"
  shows "ob_retries (attempt bk r) \<le> MaxRetries" "ob_sent (attempt bk r) \<noteq> None \<Longrightarrow> received bk (ob_id r)"
  using assms by (auto simp: attempt_def pending_row_def received_def split: if_splits pub_result.splits)

lemma news_ids:
  assumes "map (\<lambda>(i, t, p). (i, p)) news = map (\<lambda>r. (ob_id r, ob_payload r)) (filter (\<lambda>r. received bk (ob_id r)) off)"
  shows "fst ` set news = ob_id ` {r \<in> set off. received bk (ob_id r)}"
    "(i, t, p) \<in> set news \<Longrightarrow> \<exists>r\<in>set off. ob_id r = i \<and> ob_payload r = p"
proof -
  have s: "(\<lambda>(i, t, p). (i, p)) ` set news = (\<lambda>r. (ob_id r, ob_payload r)) ` {r \<in> set off. received bk (ob_id r)}"
    using arg_cong [OF assms, of set] by simp
  have "fst ` (\<lambda>(i, t, p). (i, p)) ` set news = fst ` set news" by (force simp: image_image)
  then show "fst ` set news = ob_id ` {r \<in> set off. received bk (ob_id r)}" unfolding s by (simp add: image_image)
  assume "(i, t, p) \<in> set news"
  then have "(i, p) \<in> (\<lambda>(i, t, p). (i, p)) ` set news" by force
  then show "\<exists>r\<in>set off. ob_id r = i \<and> ob_payload r = p" unfolding s by auto
qed

lemma rows_ok_pass:
  assumes "rows_ok rs n sent log" and "set off \<subseteq> {r \<in> set rs. pending_row r}"
    and news: "map (\<lambda>(i, t, p). (i, p)) news = map (\<lambda>r. (ob_id r, ob_payload r)) (filter (\<lambda>r. received bk (ob_id r)) off)"
  shows "rows_ok (pass_rows_of bk off rs) n (sent @ news) log"
proof -
  have sorted: "ids_sorted (pass_rows_of bk off rs)"
    using ids_sorted_pass [where D = "\<lambda>_. False" and bk = bk and off = off and rs = rs] assms(1) by (simp add: rows_ok_def delete_rows_def)
  have "ob_retries (attempt bk r) \<le> MaxRetries \<and> (ob_sent (attempt bk r) \<noteq> None \<longrightarrow> ob_id r \<in> fst ` set (sent @ news))" if "r \<in> set off" for r
    using attempt_bounds [of r bk] that assms(2) by (auto simp: image_Un news_ids(1) [OF news])
  moreover have logged: "\<exists>ty c. (i, p, ty, c) \<in> set log" if in_news: "(i, t, p) \<in> set news" for i t p
  proof -
    obtain r where "r \<in> set rs" "ob_id r = i" "ob_payload r = p" using news_ids(2) [OF news in_news] assms(2) by auto
    then show ?thesis using assms(1) unfolding rows_ok_def entry_def by auto
  qed
  ultimately have each: "ob_id r' < n \<and> entry r' \<in> set log \<and> ob_retries r' \<le> MaxRetries \<and> (ob_sent r' \<noteq> None \<longrightarrow> ob_id r' \<in> fst ` set (sent @ news))"
    if "r' \<in> set (pass_rows_of bk off rs)" for r'
    using that assms(1) by (auto simp: rows_ok_def pass_rows_of_def)
  show ?thesis unfolding rows_ok_def using sorted each logged assms(1) by (auto simp: rows_ok_def)
qed

lemma publish_next: "ot_next (ds_store (fst (publishOne edgeOutboxStore topic bk s m))) = ot_next (ds_store s)"
  by (simp add: publishOne_def Let_def edgeOutboxStore_def Ack_def IncrementRetries_def MarkExhausted_def on_row_def split: pub_result.splits)

lemma pass_next: "ot_next (ds_store (fst (pass edgeOutboxStore topic bk (s, f) ms))) = ot_next (ds_store s)"
proof (induction ms arbitrary: s f)
  case (Cons m ms)
  show ?case unfolding edge.pass_Cons Cons.IH publish_next ..
qed (simp add: pass_def)

lemma drain_next: "ot_next (ds_store (fst (drain edgeOutboxStore topic n bk s))) = ot_next (ds_store s)"
  by (simp add: edge.drain_pass pass_next)

lemma run_next: "ot_next (ds_store (dr_state (run_step edgeOutboxStore topic limit d sig))) = ot_next (ds_store (dr_state d))"
proof (cases sig)
  case (Wake bk)
  then show ?thesis using drain_next [of topic "batch limit" bk "dr_state d"] by (auto simp: run_step_def split: prod.splits)
next
  case (Tick bk)
  then show ?thesis using drain_next [of topic "batch limit" bk "dr_state d"]
    by (auto simp: run_step_def Let_def edgeOutboxStore_def PurgeOld_def split: prod.splits)
qed (simp_all add: run_step_def)

lemma pass_entries: "map entry (pass_rows_of bk off rs) = map entry rs"
  by (simp add: pass_rows_of_def if_distrib cong: if_cong)

lemma outbox_ok_signal:
  assumes "outbox_ok ins s"
  shows "outbox_ok (ins @ [EdgeSignal sig]) (outbox_step topic limit s (EdgeSignal sig))"
proof -
  let ?rs = "ot_rows (es_table s)" and ?s = "outbox_step topic limit s (EdgeSignal sig)"
  have ok: "rows_ok ?rs (ot_next (es_table s)) (es_sent s) (es_log s)" using assms by (simp add: outbox_ok_def)
  have "ids_sorted (ot_rows (ds_store (dr_state (es_drainer s))))" using ok by (simp add: rows_ok_def es_table_def)
  then obtain bk k off news D where rows: "ot_rows (es_table ?s) = delete_rows D (pass_rows_of bk off ?rs)"
    and off: "off = take k (filter pending_row ?rs)" and sent: "es_sent ?s = es_sent s @ news"
    and news: "map (\<lambda>(i, t, p). (i, p)) news = map (\<lambda>r. (ob_id r, ob_payload r)) (filter (\<lambda>r. received bk (ob_id r)) off)"
    and D: "D = (\<lambda>_. False) \<or> sig = Tick bk \<and> D = purgeable (bk_now bk) MessageRetentionPeriod DeadLetterRetentionPeriod"
    by (rule edge.signal_effect [where topic = topic and limit = limit and sig = sig]) (simp add: es_table_def es_sent_def)
  have next_id: "ot_next (es_table ?s) = ot_next (es_table s)" by (simp add: es_table_def run_next)
  have "set off \<subseteq> {r \<in> set ?rs. pending_row r}" unfolding off by (auto dest: in_set_takeD)
  note ok' = rows_ok_pass [OF ok this news]
  have "kept (ins @ [EdgeSignal sig]) (delete_rows D (pass_rows_of bk off ?rs)) (es_sent s @ news) l" if "l \<in> set (es_log s)" for l
  proof -
    have before: "kept ins ?rs (es_sent s) l" using assms that by (simp add: outbox_ok_def)
    have img: "entry ` set (pass_rows_of bk off ?rs) = entry ` set ?rs" using arg_cong [OF pass_entries, of set] by simp
    have row: "kept (ins @ [EdgeSignal sig]) (delete_rows D (pass_rows_of bk off ?rs)) (es_sent s @ news) (entry r)"
      if r: "r \<in> set (pass_rows_of bk off ?rs)" for r
    proof (cases "D r")
      case True
      then have "ob_sent r \<noteq> None \<or> late [EdgeSignal sig] (ob_created r)"
        using D by (auto simp: purgeable_def sent_before_def late_def)
      then show ?thesis using r ok' by (auto simp: kept_def rows_ok_def entry_def late_def)
    qed (use r in \<open>auto simp: kept_def delete_rows_def\<close>)
    show ?thesis
    proof (cases "l \<in> entry ` set ?rs")
      case True
      then show ?thesis using row unfolding img [symmetric] by auto
    next
      case False
      then show ?thesis using before by (auto simp: kept_def late_more)
    qed
  qed
  moreover have "es_log ?s = es_log s" by simp
  ultimately show ?thesis unfolding outbox_ok_def rows sent next_id using rows_ok_delete [OF ok'] by simp
qed

lemma outbox_run_ok: "outbox_ok ins (outbox_run topic limit ins)"
proof (induction ins rule: rev_induct)
  case Nil
  show ?case by (simp add: outbox_run_def outbox_start_def outbox_ok_def rows_ok_def es_table_def es_sent_def NewDrainer_def ids_sorted_def)
next
  case (snoc inp ins)
  have "outbox_ok (ins @ [inp]) (outbox_step topic limit (outbox_run topic limit ins) inp)"
    by (cases inp) (simp_all only: outbox_ok_enqueue [OF snoc] outbox_ok_snapshot [OF snoc] outbox_ok_requeue [OF snoc] outbox_ok_signal [OF snoc])
  then show ?case by (simp add: outbox_run_def)
qed

section \<open>An outage and what follows it\<close>

definition running :: "signal \<Rightarrow> bool" where
  "running sig \<longleftrightarrow> sig \<noteq> Stop \<and> sig \<noteq> WakeStopped"

lemma running_step: "running sig \<Longrightarrow> \<not> dr_stopped d \<Longrightarrow> \<not> dr_stopped (run_step st topic limit d sig)"
  by (cases sig) (auto simp: running_def run_step_def Let_def split: prod.splits)

lemma running_run: "list_all running sigs \<Longrightarrow> \<not> dr_stopped d \<Longrightarrow> \<not> dr_stopped (foldl (run_step st topic limit) d sigs)"
  by (induction sigs arbitrary: d) (auto simp: running_step)

context outbox_store
begin

lemma outage_then_delivery:
  assumes sorted: "ids_sorted (rows (ds_store (dr_state d)))" and "\<not> dr_stopped d" and "list_all outage sigs" and "list_all running sigs"
    and "list_all healthy bks" and r: "r \<in> set (rows (ds_store (dr_state d)))" "ob_sent r = None" "ob_retries r + ticks sigs + 1 < MaxRetries"
    and enough: "length (filter pending_row (rows (ds_store (dr_state (foldl (run_step st topic limit) d sigs))))) \<le> length bks * batch limit"
  shows "\<exists>t. (ob_id r, t, ob_payload r) \<in> set (ds_sent (dr_state (foldl (run_step st topic limit) d (sigs @ map Tick bks))))"
proof -
  let ?d = "foldl (run_step st topic limit) d sigs"
  have "ob_retries r + spare d + ticks sigs < MaxRetries" using r(3) by (simp add: spare_def)
  then obtain r' where r': "r' \<in> set (rows (ds_store (dr_state ?d)))" "ob_id r' = ob_id r" "ob_payload r' = ob_payload r" "pending_row r'"
    using outage_run [OF sorted assms(3) r(1,2), of topic limit] by (auto simp: pending_row_def spare_def)
  have "ids_sorted (rows (ds_store (dr_state (foldl (run_step st topic limit) e sigs))))" if "ids_sorted (rows (ds_store (dr_state e)))" for e
    using that by (induction sigs arbitrary: e) (auto simp: run_sorted)
  then have "ids_sorted (rows (ds_store (dr_state ?d)))" using sorted by blast
  then obtain news where sent: "ds_sent (dr_state (foldl (run_step st topic limit) ?d (map Tick bks))) = ds_sent (dr_state ?d) @ news"
    and news: "map (\<lambda>(i, t, p). (i, p)) news = map (\<lambda>r. (ob_id r, ob_payload r)) (filter pending_row (rows (ds_store (dr_state ?d))))"
    using healthy_ticks [OF _ assms(5) running_run [OF assms(4,2), of st topic limit], of topic limit] enough by auto
  have "(\<lambda>(i, t, p). (i, p)) ` set news = (\<lambda>r. (ob_id r, ob_payload r)) ` {r \<in> set (rows (ds_store (dr_state ?d))). pending_row r}"
    using arg_cong [OF news, of set] by simp
  moreover have "(ob_id r, ob_payload r) \<in> (\<lambda>r. (ob_id r, ob_payload r)) ` {r \<in> set (rows (ds_store (dr_state ?d))). pending_row r}"
    by (rule image_eqI [of _ _ r']) (use r' in simp_all)
  ultimately have "(ob_id r, ob_payload r) \<in> (\<lambda>(i, t, p). (i, p)) ` set news" by simp
  then show ?thesis unfolding foldl_append sent by auto
qed

end

lemma plain_more: "ob_sent (plain_row q) = ob_sent q" "ob_retries (plain_row q) = ob_retries q"
  by (simp_all add: plain_row_def)

section \<open>Properties\<close>

definition failing :: broker where
  "failing = \<lparr>bk_now = 0, bk_connected = True, bk_list_ok = True, bk_publish = \<lambda>_. PubError, bk_leaked = \<lambda>_. False,
     bk_store_ok = \<lambda>_. True, bk_purge_ok = True\<rparr>"

definition mended :: broker where
  "mended = failing\<lparr>bk_now := 60, bk_publish := \<lambda>_. PubOk\<rparr>"


definition two_messages :: "string outbox_input list" where
  "two_messages = [EdgeEnqueue 0 ''a'' ''data'', EdgeSignal (Tick failing), EdgeEnqueue 1 ''b'' ''data'', EdgeSignal (Tick mended)]"



definition one_pending :: "(string outbox_row outbox_table, string) Drainer" where
  "one_pending = NewDrainer (Enqueue 0 ''a'' ''data'' \<lparr>ot_rows = [], ot_next = 1\<rparr>)"


end
