(* ===== verification/Transport.thy ===== *)
theory Transport
  imports Inventory Outbox
begin

text \<open>
  The inventory path through the outbox: the station's messages enter the outbox table, the
  drainer publishes them, Core applies what arrives.  While no publish is refused the drainer
  hands the messages over in order and at least once, so that the count is right; a single
  refused publish reorders two messages, and then Core drops the earlier count.
\<close>

section \<open>Redelivery\<close>

lemma redelivered_agains: "redelivered xs ys \<Longrightarrow> set zs \<subseteq> set xs \<Longrightarrow> redelivered xs (ys @ zs)"
proof (induction zs rule: rev_induct)
  case (snoc z zs)
  then show ?case using redelivered.again [of xs "ys @ zs" z] by simp
qed simp

lemma redelivered_firsts: "redelivered xs ys \<Longrightarrow> redelivered (xs @ zs) (ys @ zs)"
proof (induction zs rule: rev_induct)
  case (snoc z zs)
  then show ?case using redelivered.first [of "xs @ zs" "ys @ zs" z] by simp
qed simp

lemma set_bin_deltas: "set (bin_deltas ms) = {d. BinMsg d \<in> set ms}"
  by (induction ms rule: bin_deltas.induct) auto

lemma redelivered_bin_deltas: "redelivered xs ys \<Longrightarrow> redelivered (bin_deltas xs) (bin_deltas ys)"
proof (induction rule: redelivered.induct)
  case start
  show ?case by (simp add: redelivered.start)
next
  case (first xs ys x)
  then show ?case by (simp add: redelivered_firsts)
next
  case (again xs ys x)
  then show ?case by (cases x) (auto intro: redelivered.again simp: set_bin_deltas)
qed

section \<open>A drainer whose publishes all succeed\<close>

text \<open>Database errors, lost acknowledgements and a disconnected client are allowed; a refused publish is not.\<close>

fun smooth :: "'p outbox_input \<Rightarrow> bool" where
  "smooth (EdgeEnqueue now p ty) = True"
| "smooth (EdgeSignal (Wake bk)) = (\<forall>i. bk_publish bk i = PubOk)"
| "smooth (EdgeSignal (Tick bk)) = (\<forall>i. bk_publish bk i = PubOk)"
| "smooth (EdgeSignal sig) = True"
| "smooth _ = False"

definition asked_payloads :: "'p outbox_system \<Rightarrow> 'p list" where
  "asked_payloads s = map (\<lambda>(i, p, ty, c). p) (es_log s)"

definition received_payloads :: "'p outbox_system \<Rightarrow> 'p list" where
  "received_payloads s = map (\<lambda>(i, t, p). p) (es_sent s)"

definition row_of :: "int \<times> 'p \<times> string \<times> instant \<Rightarrow> 'p outbox_row" where
  "row_of l = (case l of (i, p, ty, c) \<Rightarrow> fresh_row i c ty p)"

text \<open>The first messages have been published, in order; the rows of the others are as they were inserted.\<close>

definition in_order :: "'p outbox_system \<Rightarrow> nat \<Rightarrow> 'p outbox_row list \<Rightarrow> bool" where
  "in_order s n old \<longleftrightarrow> n \<le> length (es_log s) \<and> ot_rows (es_table s) = old @ map row_of (drop n (es_log s)) \<and>
     (\<forall>r\<in>set old. entry r \<in> set (take n (es_log s)) \<and> ob_retries r = 0) \<and>
     redelivered (take n (asked_payloads s)) (received_payloads s)"

lemma row_of_simps [simp]: "pending_row (row_of l)" "entry (row_of l) = l" "ob_retries (row_of l) = 0" "ob_payload (row_of l) = fst (snd l)"
  by (simp_all add: row_of_def fresh_row_def pending_row_def MaxRetries_def entry_def split: prod.splits)

lemma row_of_sent [simp]: "ob_sent (row_of l) = None"
  by (simp add: row_of_def fresh_row_def split: prod.splits)

lemma entry_payload: "fst (snd (entry r)) = ob_payload r"
  by (simp add: entry_def)

lemma in_order_enqueue:
  assumes "in_order s n old"
  shows "in_order (outbox_step topic limit s (EdgeEnqueue now p ty)) n old"
  using assms by (simp add: in_order_def asked_def Enqueue_def row_of_def fresh_row_def asked_payloads_def received_payloads_def)

lemma smooth_attempt: "\<forall>i. bk_publish bk i = PubOk \<Longrightarrow> ob_retries (attempt bk r) = ob_retries r"
  by (simp add: attempt_def)

lemma pass_keeps:
  assumes "\<forall>i. bk_publish bk i = PubOk" and "r \<in> set (delete_rows D (pass_rows_of bk off rs))"
  shows "\<exists>q\<in>set rs. entry r = entry q \<and> ob_retries r = ob_retries q"
  using assms by (auto simp: delete_rows_def pass_rows_of_def smooth_attempt split: if_splits)

lemma pass_disjoint: "set off \<inter> set rs = {} \<Longrightarrow> pass_rows_of bk off rs = rs"
  unfolding pass_rows_of_def by (rule map_idI) auto

lemma pass_append: "pass_rows_of bk off (xs @ ys) = pass_rows_of bk off xs @ pass_rows_of bk off ys"
  by (simp add: pass_rows_of_def)

lemma delete_append: "delete_rows D (xs @ ys) = delete_rows D xs @ delete_rows D ys"
  by (simp add: delete_rows_def)

lemma pass_split:
  assumes "ids_sorted (old @ map row_of new)" and "off = take k (filter pending_row (old @ map row_of new))"
  obtains m where "m \<le> length new" "off = take k (filter pending_row old) @ map row_of (take m new)"
    "pass_rows_of bk off (old @ map row_of new) = pass_rows_of bk off (old @ map row_of (take m new)) @ map row_of (drop m new)"
proof -
  let ?m = "min (k - length (filter pending_row old)) (length new)"
  have off: "off = take k (filter pending_row old) @ map row_of (take ?m new)"
    using assms(2) by (simp add: filter_map comp_def take_map min_def)
  have whole: "(old @ map row_of (take ?m new)) @ map row_of (drop ?m new) = old @ map row_of new"
    by (simp flip: map_append)
  have "distinct (old @ map row_of new)" using assms(1) unfolding ids_sorted_def by (metis distinct_map strict_sorted_iff)
  then have "distinct ((old @ map row_of (take ?m new)) @ map row_of (drop ?m new))" unfolding whole .
  moreover have "set off \<subseteq> set (old @ map row_of (take ?m new))" unfolding off by (auto dest: in_set_takeD)
  ultimately have "set off \<inter> set (map row_of (drop ?m new)) = {}" unfolding distinct_append by blast
  then have "pass_rows_of bk off ((old @ map row_of (take ?m new)) @ map row_of (drop ?m new)) =
      pass_rows_of bk off (old @ map row_of (take ?m new)) @ map row_of (drop ?m new)"
    by (simp add: pass_append pass_disjoint)
  then show ?thesis unfolding whole by (intro that [OF _ off]) simp_all
qed

lemma news_payloads:
  assumes "map (\<lambda>(i, t, p). (i, p)) news = map (\<lambda>r. (ob_id r, ob_payload r)) off"
  shows "map (\<lambda>(i, t, p). p) news = map ob_payload off"
  using arg_cong [OF assms, of "map snd"] by (simp add: comp_def case_prod_beta')

lemma in_order_signal:
  assumes ord: "in_order s n old" and ok: "outbox_ok ins s" and "smooth (EdgeSignal sig)"
  shows "\<exists>n' old'. in_order (outbox_step topic limit s (EdgeSignal sig)) n' old'"
proof -
  let ?rs = "ot_rows (es_table s)" and ?s = "outbox_step topic limit s (EdgeSignal sig)" and ?log = "es_log s"
  have sorted: "ids_sorted ?rs" using ok by (simp add: outbox_ok_def rows_ok_def)
  then have "ids_sorted (ot_rows (ds_store (dr_state (es_drainer s))))" by (simp add: es_table_def)
  then obtain bk k off news D where rows: "ot_rows (es_table ?s) = delete_rows D (pass_rows_of bk off ?rs)"
    and off: "off = take k (filter pending_row ?rs)" "off = [] \<or> sig = Wake bk \<or> sig = Tick bk" and sent: "es_sent ?s = es_sent s @ news"
    and news: "map (\<lambda>(i, t, p). (i, p)) news = map (\<lambda>r. (ob_id r, ob_payload r)) (filter (\<lambda>r. received bk (ob_id r)) off)"
    and D: "D = (\<lambda>_. False) \<or> sig = Tick bk \<and> D = purgeable (bk_now bk) MessageRetentionPeriod DeadLetterRetentionPeriod"
    by (rule edge.signal_effect [where topic = topic and limit = limit and sig = sig]) (simp add: es_table_def es_sent_def)
  have log: "es_log ?s = ?log" by simp
  show ?thesis
  proof (cases "sig = Wake bk \<or> sig = Tick bk")
    case False
    then have "off = []" "D = (\<lambda>_. False)" using off(2) D by auto
    then have "ot_rows (es_table ?s) = ?rs" "es_sent ?s = es_sent s" using rows sent news by (simp_all add: pass_rows_of_def delete_rows_def)
    then have "in_order ?s n old" using ord by (simp add: in_order_def asked_payloads_def received_payloads_def)
    then show ?thesis by blast
  next
    case True
    then have pub: "\<forall>i. bk_publish bk i = PubOk" using assms(3) by auto
    have all: "map (\<lambda>(i, t, p). p) news = map ob_payload off"
      by (rule news_payloads) (use news in \<open>simp add: received_def pub\<close>)
    have split: "?rs = old @ map row_of (drop n ?log)" using ord by (simp add: in_order_def)
    obtain m where small: "m \<le> length (drop n ?log)" and m: "off = take k (filter pending_row old) @ map row_of (take m (drop n ?log))"
      "pass_rows_of bk off ?rs = pass_rows_of bk off (old @ map row_of (take m (drop n ?log))) @ map row_of (drop m (drop n ?log))"
      using pass_split [of old "drop n ?log" off k bk] sorted off(1) unfolding split by blast
    let ?old = "delete_rows D (pass_rows_of bk off (old @ map row_of (take m (drop n ?log))))"
    have "\<not> D (row_of l)" for l using D by (auto simp: purgeable_def dead_row_def sent_before_def MaxRetries_def)
    then have new_rows: "ot_rows (es_table ?s) = ?old @ map row_of (drop (n + m) ?log)"
      unfolding rows m(2) delete_append by (simp add: delete_rows_def add.commute comp_def)
    have old_rows: "entry r \<in> set (take (n + m) ?log) \<and> ob_retries r = 0" if "r \<in> set ?old" for r
      using pass_keeps [OF pub that] ord by (auto simp: in_order_def take_add)
    have "redelivered (take n (asked_payloads s)) (received_payloads s @ map ob_payload (take k (filter pending_row old)))"
    proof (rule redelivered_agains)
      show "set (map ob_payload (take k (filter pending_row old))) \<subseteq> set (take n (asked_payloads s))"
        using ord by (auto simp: in_order_def asked_payloads_def take_map simp flip: entry_payload dest!: in_set_takeD) (force simp: case_prod_beta)
    qed (use ord in \<open>simp add: in_order_def\<close>)
    from redelivered_firsts [OF this, of "map (\<lambda>l. fst (snd l)) (take m (drop n ?log))"]
    have re: "redelivered (take (n + m) (asked_payloads s)) (received_payloads ?s)"
      unfolding take_add received_payloads_def sent map_append all m(1)
      by (simp add: asked_payloads_def take_map drop_map case_prod_beta' comp_def)
    have "n + m \<le> length ?log" using small ord by (auto simp: in_order_def)
    then have "in_order ?s (n + m) ?old"
      using new_rows old_rows re by (simp add: in_order_def asked_payloads_def)
    then show ?thesis by blast
  qed
qed

lemma smooth_in_order:
  assumes "list_all smooth ins"
  shows "\<exists>n old. in_order (outbox_run topic limit ins) n old"
  using assms
proof (induction ins rule: rev_induct)
  case Nil
  have "in_order (outbox_run topic limit []) 0 ([] :: 'p outbox_row list)"
    by (simp add: in_order_def outbox_run_def outbox_start_def es_table_def es_sent_def NewDrainer_def asked_payloads_def received_payloads_def redelivered.start)
  then show ?case by blast
next
  case (snoc inp ins)
  then obtain n old where IH: "in_order (outbox_run topic limit ins) n old" by auto
  have step: "outbox_run topic limit (ins @ [inp]) = outbox_step topic limit (outbox_run topic limit ins) inp" by (simp add: outbox_run_def)
  show ?case
  proof (cases inp)
    case (EdgeEnqueue now p ty)
    then show ?thesis unfolding step using in_order_enqueue [OF IH] by blast
  next
    case (EdgeSignal sig)
    have "smooth inp" using snoc.prems by simp
    from in_order_signal [OF IH outbox_run_ok this [unfolded EdgeSignal], of topic limit] show ?thesis unfolding EdgeSignal step [unfolded EdgeSignal] .
  qed (use snoc.prems in simp_all)
qed

lemma smooth_delivers:
  assumes "list_all smooth ins" and "filter pending_row (ot_rows (es_table (outbox_run topic limit ins))) = []"
  shows "redelivered (asked_payloads (outbox_run topic limit ins)) (received_payloads (outbox_run topic limit ins))"
proof -
  let ?s = "outbox_run topic limit ins"
  obtain n old where ord: "in_order ?s n old" using smooth_in_order [OF assms(1)] by blast
  then have "filter pending_row (map row_of (drop n (es_log ?s))) = []" using assms(2) by (simp add: in_order_def)
  then have "drop n (es_log ?s) = []" by (simp add: filter_map comp_def)
  then show ?thesis using ord by (simp add: in_order_def asked_payloads_def)
qed

section \<open>Property\<close>


text \<open>A pass whose acknowledgements are lost, and then one that goes well.\<close>
definition shipped :: "'p list \<Rightarrow> 'p outbox_input list" where
  "shipped ps = map (\<lambda>p. EdgeEnqueue 0 p ''data'') ps @ [EdgeSignal (Tick (mended\<lparr>bk_store_ok := \<lambda>_. False\<rparr>)), EdgeSignal (Tick mended)]"

lemma shipped_smooth: "list_all smooth (shipped ps)"
  by (simp add: shipped_def mended_def list_all_iff)


section \<open>One refused publish loses a count\<close>

text \<open>
  The drainer goes on after a refused publish, so the second of two counts can arrive first.  Core
  keeps only the greatest number it has seen: the first count arrives with a smaller one, is skipped
  as a replay and leaves no trace, neither in the count nor in a ledger.  Ten parts less three and two
  should be five; Core holds eight.
\<close>
lemma refused_publish_loses_count:
  "let refused = mended\<lparr>bk_publish := \<lambda>i. if i = 1 then PubError else PubOk\<rparr>;
       run = outbox_run ''orders'' 50 (map (\<lambda>p. EdgeEnqueue 0 p ''data'') [BinMsg (consume (-3) 1 2), BinMsg (consume (-2) 2 2)] @
         [EdgeSignal (Tick refused), EdgeSignal (Tick mended)]);
       s = deliver plant_env ''edge1'' plant (bin_deltas (received_payloads run))
   in filter pending_row (ot_rows (es_table run)) = [] \<and> map_option bn_uop (get_bin (sv_db s) 7) = Some 8 \<and>
      map (\<lambda>l. (lg_before l, lg_after l)) (iv_ledger (sv_db s)) = [(Some 10, 8)] \<and> iv_exceptions (sv_db s) = []"
  by code_simp

text \<open>The mute is said to put the tolerance back at ten ticks.  The doorbell's own failed pass is one of
  the ten attempts, so a message dies at the ninth tick of an outage.\<close>
lemma doorbell_spends_a_retry:
  "let d = foldl (run_step edgeOutboxStore ''orders'' 50) one_pending (Wake failing # replicate 9 (Tick failing))
   in map ob_retries (ot_rows (ds_store (dr_state d))) = [10] \<and> filter pending_row (ot_rows (ds_store (dr_state d))) = []"
  by code_simp

end
