(* ===== verification/Floor.thy ===== *)
theory Floor
  imports Reservations
begin

text \<open>
  Core's model of the plant floor: the node table with its tree of groups, lanes and slots, the bins
  standing on it, and the order columns the dispatch queries join.  The theory holds the bin status
  machine (\<^verbatim>\<open>domain/bin_status.go\<close>), the writes of \<^verbatim>\<open>store/nodes\<close> with the parentage guard, and the
  walks along the tree that the inheritance lookups and the group-scoped counts use.  It shows that
  the guard refuses exactly the moves that would close a loop, and that the walks therefore end.
\<close>

section \<open>Bin status\<close>

type_synonym BinStatus = string

definition BinStatusAvailable :: BinStatus where "BinStatusAvailable = ''available''"
definition BinStatusStaged :: BinStatus where "BinStatusStaged = ''staged''"
definition BinStatusFlagged :: BinStatus where "BinStatusFlagged = ''flagged''"
definition BinStatusMaintenance :: BinStatus where "BinStatusMaintenance = ''maintenance''"
definition BinStatusQualityHold :: BinStatus where "BinStatusQualityHold = ''quality_hold''"
definition BinStatusRetired :: BinStatus where "BinStatusRetired = ''retired''"

lemmas bin_status_names = BinStatusAvailable_def BinStatusStaged_def BinStatusFlagged_def BinStatusMaintenance_def
  BinStatusQualityHold_def BinStatusRetired_def

definition validBinTransitions :: "BinStatus \<rightharpoonup> BinStatus list" where
  "validBinTransitions = map_of
     [(BinStatusAvailable, [BinStatusStaged, BinStatusFlagged, BinStatusMaintenance, BinStatusQualityHold, BinStatusRetired]),
      (BinStatusStaged, [BinStatusAvailable]),
      (BinStatusFlagged, [BinStatusAvailable, BinStatusRetired]),
      (BinStatusMaintenance, [BinStatusAvailable, BinStatusRetired]),
      (BinStatusQualityHold, [BinStatusAvailable, BinStatusRetired])]"

definition BinStatus_IsTerminal :: "BinStatus \<Rightarrow> bool" where
  "BinStatus_IsTerminal s = (validBinTransitions s = None)"

definition CanTransitionTo :: "BinStatus \<Rightarrow> BinStatus \<Rightarrow> bool" where
  "CanTransitionTo s t = (case validBinTransitions s of None \<Rightarrow> False | Some allowed \<Rightarrow> t \<in> set allowed)"

definition Sourceable :: "BinStatus \<Rightarrow> bool" where
  "Sourceable s = (s = BinStatusAvailable \<or> s = BinStatusStaged)"

definition BlocksPickup :: "BinStatus \<Rightarrow> bool" where
  "BlocksPickup s = (\<not> Sourceable s)"

definition AllBinStatuses :: "BinStatus list" where
  "AllBinStatuses = [BinStatusAvailable, BinStatusStaged, BinStatusFlagged, BinStatusMaintenance, BinStatusQualityHold, BinStatusRetired]"

section \<open>The tables\<close>

definition NodeClassLANE :: string where "NodeClassLANE = ''LANE''"
definition NodeClassNGRP :: string where "NodeClassNGRP = ''NGRP''"

record node =
  nd_id :: node_id
  nd_name :: string
  nd_synthetic :: bool
  nd_zone :: string
  nd_enabled :: bool
  nd_depth :: "int option"
  nd_parent :: "node_id option"
  nd_claimed :: "order_id option"
  nd_class :: string

record bin =
  sb_id :: bin_id
  sb_type :: string
  sb_node :: "node_id option"
  sb_status :: BinStatus
  sb_claimed :: "order_id option"
  sb_payload :: string
  sb_confirmed :: bool
  sb_locked :: bool
  sb_loaded :: "instant option"
  sb_created :: instant

record floor_order =
  fo_id :: order_id
  fo_status :: status
  fo_bin :: "bin_id option"
  fo_source :: string
  fo_delivery :: string
  fo_parent :: "order_id option"

record MaintainLevel =
  ml_group :: node_id
  ml_type :: int
  ml_code :: string
  ml_want :: int

text \<open>\<^verbatim>\<open>fl_pinned\<close> lists the nodes that rows of the tables outside this model refer to by a foreign key.\<close>

record floor =
  fl_nodes :: "node list"
  fl_next :: node_id
  fl_bins :: "bin list"
  fl_orders :: "floor_order list"
  fl_res :: reservations
  fl_props :: "((node_id \<times> string) \<times> string) list"
  fl_payloads :: "(node_id \<times> string) list"
  fl_types :: "(node_id \<times> int) list"
  fl_levels :: "MaintainLevel list"
  fl_pinned :: "node_id list"

section \<open>Reading nodes\<close>

definition GetNode :: "floor \<Rightarrow> node_id \<Rightarrow> node option" where
  "GetNode f i = select_row (\<lambda>n. nd_id n = i) (fl_nodes f)"

definition GetByName :: "floor \<Rightarrow> string \<Rightarrow> node option" where
  "GetByName f name = select_row (\<lambda>n. nd_name n = name) (fl_nodes f)"

fun cut_dot :: "string \<Rightarrow> (string \<times> string) option" where
  "cut_dot [] = None"
| "cut_dot (c # cs) = (if c = CHR ''.'' then Some ([], cs) else map_option (\<lambda>(a, b). (c # a, b)) (cut_dot cs))"

definition GetByDotName :: "floor \<Rightarrow> string \<Rightarrow> node option" where
  "GetByDotName f name = (case cut_dot name of
       None \<Rightarrow> GetByName f name
     | Some (par, child) \<Rightarrow>
         select_row (\<lambda>n. nd_name n = child \<and> list_ex (\<lambda>p. nd_parent n = Some (nd_id p) \<and> nd_name p = par) (fl_nodes f)) (fl_nodes f))"

definition ListChildren :: "floor \<Rightarrow> node_id \<Rightarrow> node list" where
  "ListChildren f par = sort_key nd_name (filter (\<lambda>n. nd_parent n = Some par) (fl_nodes f))"

definition GetNodeProperty :: "floor \<Rightarrow> node_id \<Rightarrow> string \<Rightarrow> string" where
  "GetNodeProperty f i key = (case map_of (fl_props f) (i, key) of None \<Rightarrow> '''' | Some v \<Rightarrow> v)"

definition SetProperty :: "floor \<Rightarrow> node_id \<Rightarrow> string \<Rightarrow> string \<Rightarrow> floor" where
  "SetProperty f i key v = f\<lparr>fl_props := ((i, key), v) # filter (\<lambda>p. fst p \<noteq> (i, key)) (fl_props f)\<rparr>"

definition DeleteProperty :: "floor \<Rightarrow> node_id \<Rightarrow> string \<Rightarrow> floor" where
  "DeleteProperty f i key = f\<lparr>fl_props := filter (\<lambda>p. fst p \<noteq> (i, key)) (fl_props f)\<rparr>"

text \<open>The node and its parent chain, nearest first, at most so many hops up.\<close>

fun ancestors :: "nat \<Rightarrow> floor \<Rightarrow> node_id \<Rightarrow> node list" where
  "ancestors k f i = (case GetNode f i of None \<Rightarrow> []
     | Some n \<Rightarrow> n # (case k of 0 \<Rightarrow> [] | Suc k' \<Rightarrow> (case nd_parent n of None \<Rightarrow> [] | Some p \<Rightarrow> ancestors k' f p)))"

declare ancestors.simps [simp del]

text \<open>The walks without a bound recurse until the chain ends; in a tree it ends within as many hops as there are nodes.\<close>

definition AncestorsOf :: "floor \<Rightarrow> node_id \<Rightarrow> node list" where
  "AncestorsOf f i = ancestors (length (fl_nodes f)) f i"

definition DescendantsOf :: "floor \<Rightarrow> node_id \<Rightarrow> node_id list" where
  "DescendantsOf f i = map nd_id (filter (\<lambda>n. list_ex (\<lambda>a. nd_parent a = Some i) (AncestorsOf f (nd_id n))) (fl_nodes f))"

definition GetRoot :: "floor \<Rightarrow> node_id \<Rightarrow> node option" where
  "GetRoot f i = select_row (\<lambda>a. nd_parent a = None) (AncestorsOf f i)"

definition GetEffectivePayloads :: "floor \<Rightarrow> node_id \<Rightarrow> string list" where
  "GetEffectivePayloads f i =
     (case select_row (\<lambda>a. list_ex (\<lambda>p. fst p = nd_id a) (fl_payloads f)) (AncestorsOf f i) of
        None \<Rightarrow> []
      | Some a \<Rightarrow> sort (map snd (filter (\<lambda>p. fst p = nd_id a) (fl_payloads f))))"

definition ListTypesForNode :: "floor \<Rightarrow> node_id \<Rightarrow> int list" where
  "ListTypesForNode f i = map snd (filter (\<lambda>p. fst p = i) (fl_types f))"

definition ListEffectiveTypesInherited :: "floor \<Rightarrow> node_id \<Rightarrow> int list" where
  "ListEffectiveTypesInherited f i =
     (case select_row (\<lambda>a. list_ex (\<lambda>p. fst p = nd_id a) (fl_types f)) (AncestorsOf f i) of
        None \<Rightarrow> []
      | Some a \<Rightarrow> ListTypesForNode f (nd_id a))"

definition GetEffectiveBinTypes :: "floor \<Rightarrow> node_id \<Rightarrow> int list" where
  "GetEffectiveBinTypes f i =
     (let mode = GetNodeProperty f i ''bin_type_mode'' in
      if mode = ''all'' then [] else if mode = ''specific'' then ListTypesForNode f i else ListEffectiveTypesInherited f i)"

definition ListMaintainLevels :: "floor \<Rightarrow> node_id \<Rightarrow> MaintainLevel list" where
  "ListMaintainLevels f g = sort_key ml_code (filter (\<lambda>l. ml_group l = g) (fl_levels f))"

section \<open>Reading bins\<close>

definition ListBinsByNode :: "floor \<Rightarrow> node_id \<Rightarrow> bin list" where
  "ListBinsByNode f i = sort_key (\<lambda>b. - sb_id b) (filter (\<lambda>b. sb_node b = Some i \<and> sb_status b \<noteq> BinStatusRetired) (fl_bins f))"

definition CountBinsByNode :: "floor \<Rightarrow> node_id \<Rightarrow> nat" where
  "CountBinsByNode f i = count_rows (\<lambda>b. sb_node b = Some i \<and> sb_status b \<noteq> BinStatusRetired) (fl_bins f)"

definition CountBinsInLane :: "floor \<Rightarrow> node_id \<Rightarrow> nat" where
  "CountBinsInLane f lane = count_rows (\<lambda>b. list_ex (\<lambda>s. sb_node b = Some (nd_id s) \<and> nd_parent s = Some lane) (fl_nodes f)) (fl_bins f)"

definition pending_on_bin :: "floor \<Rightarrow> bin_id \<Rightarrow> bool" where
  "pending_on_bin f b = list_ex (\<lambda>r. r_bin r = Some b \<and> r_state r = StatePending) (fl_res f)"

definition EmptyCarrierWhere :: "floor \<Rightarrow> bin \<Rightarrow> bool" where
  "EmptyCarrierWhere f b \<longleftrightarrow> Sourceable (sb_status b) \<and> sb_status b \<noteq> BinStatusStaged \<and> sb_claimed b = None \<and> \<not> sb_locked b \<and>
     (case sb_node b of None \<Rightarrow> False
      | Some i \<Rightarrow> (case GetNode f i of None \<Rightarrow> False | Some n \<Rightarrow> nd_enabled n \<and> \<not> nd_synthetic n)) \<and>
     sb_payload b = '''' \<and> \<not> pending_on_bin f (sb_id b)"

definition CountEmptyOfTypeInGroup :: "floor \<Rightarrow> string \<Rightarrow> node_id \<Rightarrow> nat" where
  "CountEmptyOfTypeInGroup f code g =
     (if code = '''' then 0
      else count_rows (\<lambda>b. EmptyCarrierWhere f b \<and> sb_type b = code \<and> (case sb_node b of None \<Rightarrow> False | Some i \<Rightarrow> i \<in> set (DescendantsOf f g)))
             (fl_bins f))"

definition live_order :: "floor_order \<Rightarrow> bool" where
  "live_order q = (fo_status q \<notin> set TerminalStatuses)"

definition CountActiveByDeliveryNode :: "floor \<Rightarrow> string \<Rightarrow> nat" where
  "CountActiveByDeliveryNode f name = count_rows (\<lambda>q. fo_delivery q = name \<and> live_order q) (fl_orders f)"

definition CountInFlightByDeliveryNodeExcluding :: "floor \<Rightarrow> string \<Rightarrow> order_id \<Rightarrow> nat" where
  "CountInFlightByDeliveryNodeExcluding f name excl =
     count_rows (\<lambda>q. fo_delivery q = name \<and> live_order q \<and> fo_status q \<noteq> StatusQueued \<and> fo_id q \<noteq> excl) (fl_orders f)"

section \<open>The writes on the node table\<close>

definition MaxNodeDepth :: nat where "MaxNodeDepth = 64"

record ParentCycleError =
  pc_node :: node_id
  pc_node_name :: string
  pc_parent :: node_id
  pc_parent_name :: string
  pc_chain :: "string list"

datatype node_error = ParentCycle ParentCycleError | ForeignKey node_id | DuplicateName string | NodeMissing node_id

definition nodeName :: "floor \<Rightarrow> node_id \<Rightarrow> string" where
  "nodeName f i = (case GetNode f i of None \<Rightarrow> ''node '' @ format_int i
     | Some n \<Rightarrow> if nd_name n = '''' then ''node '' @ format_int i else nd_name n)"

fun chain_to :: "node_id \<Rightarrow> node list \<Rightarrow> string list \<Rightarrow> (node \<times> string list) option" where
  "chain_to i [] acc = None"
| "chain_to i (a # as) acc = (if nd_id a = i then Some (a, acc @ [nd_name a]) else chain_to i as (acc @ [nd_name a]))"

definition CheckParentage :: "floor \<Rightarrow> node_id \<Rightarrow> node_id \<Rightarrow> ParentCycleError option" where
  "CheckParentage f i par =
     (if i = 0 \<or> par = 0 then None
      else if i = par then Some \<lparr>pc_node = i, pc_node_name = nodeName f i, pc_parent = par, pc_parent_name = nodeName f i, pc_chain = []\<rparr>
      else case chain_to i (ancestors MaxNodeDepth f par) [] of
             None \<Rightarrow> None
           | Some (a, chain) \<Rightarrow> Some \<lparr>pc_node = i, pc_node_name = nd_name a, pc_parent = par, pc_parent_name = hd chain, pc_chain = chain\<rparr>)"

definition has_node :: "floor \<Rightarrow> node_id \<Rightarrow> bool" where
  "has_node f i = list_ex (\<lambda>n. nd_id n = i) (fl_nodes f)"

definition on_node :: "node_id \<Rightarrow> (node \<Rightarrow> node) \<Rightarrow> floor \<Rightarrow> floor" where
  "on_node i g f = f\<lparr>fl_nodes := update_rows (\<lambda>n. nd_id n = i) g (fl_nodes f)\<rparr>"

text \<open>The statement that writes a parent: the foreign key refuses a parent that is no row.\<close>

definition write_parent :: "floor \<Rightarrow> node_id \<Rightarrow> node_id \<Rightarrow> node_error + floor" where
  "write_parent f i par =
     (if has_node f i \<and> \<not> has_node f par then Inl (ForeignKey par) else Inr (on_node i (\<lambda>n. n\<lparr>nd_parent := Some par\<rparr>) f))"

definition SetParent :: "floor \<Rightarrow> node_id \<Rightarrow> node_id \<Rightarrow> node_error + floor" where
  "SetParent f i par = (case CheckParentage f i par of Some e \<Rightarrow> Inl (ParentCycle e) | None \<Rightarrow> write_parent f i par)"

definition ClearParent :: "floor \<Rightarrow> node_id \<Rightarrow> floor" where
  "ClearParent f i = on_node i (\<lambda>n. n\<lparr>nd_parent := None\<rparr>) f"

definition Reparent :: "floor \<Rightarrow> node_id \<Rightarrow> node_id option \<Rightarrow> int \<Rightarrow> node_error + floor" where
  "Reparent f i par position = (case par of
       None \<Rightarrow> Inr (DeleteProperty (on_node i (\<lambda>n. n\<lparr>nd_depth := None\<rparr>) (ClearParent f i)) i ''role'')
     | Some p \<Rightarrow> (case SetParent f i p of
           Inl e \<Rightarrow> Inl e
         | Inr f' \<Rightarrow> Inr (if 0 < position then on_node i (\<lambda>n. n\<lparr>nd_depth := Some position\<rparr>) f' else f')))"

definition ReorderLaneSlots :: "floor \<Rightarrow> node_id list \<Rightarrow> floor" where
  "ReorderLaneSlots f ids = foldl (\<lambda>f (k, i). on_node i (\<lambda>n. n\<lparr>nd_depth := Some (int k + 1)\<rparr>) f) f (enumerate 0 ids)"

definition insert_node :: "floor \<Rightarrow> node \<Rightarrow> node_error + floor" where
  "insert_node f n =
     (if list_ex (\<lambda>m. nd_name m = nd_name n) (fl_nodes f) then Inl (DuplicateName (nd_name n))
      else case nd_parent n of
        Some p \<Rightarrow> if has_node f p then Inr (f\<lparr>fl_nodes := fl_nodes f @ [n\<lparr>nd_id := fl_next f, nd_claimed := None\<rparr>], fl_next := fl_next f + 1\<rparr>)
                  else Inl (ForeignKey p)
      | None \<Rightarrow> Inr (f\<lparr>fl_nodes := fl_nodes f @ [n\<lparr>nd_id := fl_next f, nd_claimed := None\<rparr>], fl_next := fl_next f + 1\<rparr>))"

definition is_space :: "char \<Rightarrow> bool" where
  "is_space c = (of_char c \<in> {9 :: nat, 10, 11, 12, 13, 32})"

definition TrimSpace :: "string \<Rightarrow> string" where
  "TrimSpace s = rev (dropWhile is_space (rev (dropWhile is_space s)))"

definition CreateNode :: "floor \<Rightarrow> node \<Rightarrow> node_error + floor" where
  "CreateNode f n = insert_node f (n\<lparr>nd_name := TrimSpace (nd_name n)\<rparr>)"

definition write_node :: "floor \<Rightarrow> node \<Rightarrow> node_error + floor" where
  "write_node f n =
     (if \<not> has_node f (nd_id n) then Inr f
      else if list_ex (\<lambda>m. nd_name m = nd_name n \<and> nd_id m \<noteq> nd_id n) (fl_nodes f) then Inl (DuplicateName (nd_name n))
      else if (case nd_parent n of None \<Rightarrow> False | Some p \<Rightarrow> \<not> has_node f p) then Inl (ForeignKey (the (nd_parent n)))
      else Inr (on_node (nd_id n) (\<lambda>m. n\<lparr>nd_claimed := nd_claimed m\<rparr>) f))"

definition UpdateNode :: "floor \<Rightarrow> node \<Rightarrow> node_error + floor" where
  "UpdateNode f n0 = (let n = n0\<lparr>nd_name := TrimSpace (nd_name n0)\<rparr> in
     case nd_parent n of
       None \<Rightarrow> write_node f n
     | Some p \<Rightarrow> (case CheckParentage f (nd_id n) p of Some e \<Rightarrow> Inl (ParentCycle e) | None \<Rightarrow> write_node f n))"

definition referenced :: "floor \<Rightarrow> node_id \<Rightarrow> bool" where
  "referenced f i \<longleftrightarrow> list_ex (\<lambda>n. nd_parent n = Some i \<and> nd_id n \<noteq> i) (fl_nodes f) \<or> list_ex (\<lambda>b. sb_node b = Some i) (fl_bins f) \<or>
     list_ex (\<lambda>r. r_node r = Some i) (fl_res f) \<or> i \<in> set (fl_pinned f)"

definition DeleteNode :: "floor \<Rightarrow> node_id \<Rightarrow> node_error + floor" where
  "DeleteNode f i = (if has_node f i \<and> referenced f i then Inl (ForeignKey i)
     else Inr (f\<lparr>fl_nodes := delete_rows (\<lambda>n. nd_id n = i) (fl_nodes f), fl_levels := filter (\<lambda>l. ml_group l \<noteq> i) (fl_levels f),
       fl_props := filter (\<lambda>p. fst (fst p) \<noteq> i) (fl_props f), fl_payloads := filter (\<lambda>p. fst p \<noteq> i) (fl_payloads f),
       fl_types := filter (\<lambda>p. fst p \<noteq> i) (fl_types f)\<rparr>))"

definition CreateGroup :: "floor \<Rightarrow> string \<Rightarrow> node_error + floor" where
  "CreateGroup f name = insert_node f \<lparr>nd_id = 0, nd_name = name, nd_synthetic = True, nd_zone = '''', nd_enabled = True, nd_depth = None,
     nd_parent = None, nd_claimed = None, nd_class = NodeClassNGRP\<rparr>"

definition AddLane :: "floor \<Rightarrow> node_id \<Rightarrow> string \<Rightarrow> node_error + floor" where
  "AddLane f g name = (case GetNode f g of
       None \<Rightarrow> Inl (NodeMissing g)
     | Some grp \<Rightarrow> insert_node f \<lparr>nd_id = 0, nd_name = name, nd_synthetic = True, nd_zone = nd_zone grp, nd_enabled = True, nd_depth = None,
         nd_parent = Some g, nd_claimed = None, nd_class = NodeClassLANE\<rparr>)"

text \<open>A group is taken apart two levels deep: synthetic rows go, physical ones lose their parent.\<close>

definition group_members :: "floor \<Rightarrow> node_id \<Rightarrow> node list" where
  "group_members f g = concat (map (\<lambda>c. ListChildren f (nd_id c) @ [c]) (ListChildren f g))"

definition dissolve :: "node_error + floor \<Rightarrow> node \<Rightarrow> node_error + floor" where
  "dissolve r d = (case r of Inl e \<Rightarrow> Inl e
     | Inr f \<Rightarrow> if nd_synthetic d then DeleteNode f (nd_id d)
         else Inr (DeleteProperty (DeleteProperty (ClearParent f (nd_id d)) (nd_id d) ''depth'') (nd_id d) ''role''))"

definition DeleteGroup :: "floor \<Rightarrow> node_id \<Rightarrow> node_error + floor" where
  "DeleteGroup f g = (case foldl dissolve (Inr f) (group_members f g) of Inl e \<Rightarrow> Inl e | Inr f' \<Rightarrow> DeleteNode f' g)"

definition ClaimSlotTx :: "floor \<Rightarrow> node_id \<Rightarrow> order_id \<Rightarrow> floor option" where
  "ClaimSlotTx f i ord =
     (if list_ex (\<lambda>n. nd_id n = i \<and> (nd_claimed n = None \<or> nd_claimed n = Some ord)) (fl_nodes f) \<and>
         \<not> list_ex (\<lambda>b. sb_node b = Some i) (fl_bins f) \<and>
         list_ex (\<lambda>r. r_order r = ord \<and> r_node r = Some i \<and> r_kind r = KindSlot \<and> r_state r = StatePending) (fl_res f)
      then Some (on_node i (\<lambda>n. if nd_claimed n = None \<or> nd_claimed n = Some ord then n\<lparr>nd_claimed := Some ord\<rparr> else n) f)
      else None)"

definition UnclaimSlot :: "floor \<Rightarrow> node_id \<Rightarrow> floor" where
  "UnclaimSlot f i = on_node i (\<lambda>n. n\<lparr>nd_claimed := None\<rparr>) f"

definition UnclaimOrderSlots :: "floor \<Rightarrow> order_id \<Rightarrow> floor" where
  "UnclaimOrderSlots f ord = f\<lparr>fl_nodes := update_rows (\<lambda>n. nd_claimed n = Some ord) (\<lambda>n. n\<lparr>nd_claimed := None\<rparr>) (fl_nodes f)\<rparr>"

section \<open>The bin status machine\<close>

lemma validBinTransitions_Nil: "validBinTransitions s \<noteq> Some []"
  by (auto simp: validBinTransitions_def bin_status_names split: if_splits)

interpretation bin_machine: transition_system CanTransitionTo BinStatus_IsTerminal
proof
  fix s
  show "BinStatus_IsTerminal s \<longleftrightarrow> (\<forall>t. \<not> CanTransitionTo s t)"
  proof (cases "validBinTransitions s")
    case (Some ts)
    then show ?thesis using validBinTransitions_Nil [of s] by (cases ts) (auto simp: BinStatus_IsTerminal_def CanTransitionTo_def)
  qed (simp add: BinStatus_IsTerminal_def CanTransitionTo_def)
qed

lemma retired_absorbs: "(BinStatusRetired, t) \<in> {(x, y). CanTransitionTo x y}\<^sup>* \<Longrightarrow> t = BinStatusRetired"
  by (rule bin_machine.absorbing) (simp_all add: BinStatus_IsTerminal_def validBinTransitions_def bin_status_names)

section \<open>The tree\<close>

definition up :: "floor \<Rightarrow> (node_id \<times> node_id) set" where
  "up f = {(c, p). \<exists>n\<in>set (fl_nodes f). nd_id n = c \<and> nd_parent n = Some p}"

definition rows_fk :: "floor \<Rightarrow> bool" where
  "rows_fk f \<longleftrightarrow> 0 < fl_next f \<and> distinct (map nd_id (fl_nodes f)) \<and> (\<forall>n\<in>set (fl_nodes f). 0 < nd_id n \<and> nd_id n < fl_next f) \<and>
     (\<forall>(c, p)\<in>up f. has_node f p)"

definition tree_ok :: "floor \<Rightarrow> bool" where
  "tree_ok f \<longleftrightarrow> rows_fk f \<and> acyclic (up f)"

text \<open>No chain is longer than the bound of the guard's walk.\<close>

definition shallow :: "floor \<Rightarrow> bool" where
  "shallow f \<longleftrightarrow> up f ^^ Suc MaxNodeDepth = {}"

lemma upI: "n \<in> set (fl_nodes f) \<Longrightarrow> nd_parent n = Some p \<Longrightarrow> (nd_id n, p) \<in> up f"
  by (auto simp: up_def)

lemma has_node_iff: "has_node f i \<longleftrightarrow> i \<in> nd_id ` set (fl_nodes f)"
  by (auto simp: has_node_def list_ex_iff)

lemma GetNode_Some: "GetNode f i = Some n \<Longrightarrow> n \<in> set (fl_nodes f) \<and> nd_id n = i"
  unfolding GetNode_def by (rule select_row_Some)

lemma GetNode_row: "rows_fk f \<Longrightarrow> n \<in> set (fl_nodes f) \<Longrightarrow> GetNode f (nd_id n) = Some n"
proof -
  assume fk: "rows_fk f" and n: "n \<in> set (fl_nodes f)"
  then have "GetNode f (nd_id n) \<noteq> None" by (auto simp: GetNode_def select_row_None)
  then obtain m where m: "GetNode f (nd_id n) = Some m" by blast
  then have "m = n" using GetNode_Some [OF m] fk n by (auto simp: rows_fk_def distinct_map dest: inj_onD)
  then show ?thesis using m by simp
qed

lemma has_node_GetNode: "rows_fk f \<Longrightarrow> has_node f i \<Longrightarrow> \<exists>n. GetNode f i = Some n"
  using GetNode_row by (auto simp: has_node_iff)

lemma up_step: "rows_fk f \<Longrightarrow> GetNode f i = Some n \<Longrightarrow> (i, p) \<in> up f \<longleftrightarrow> nd_parent n = Some p"
  using GetNode_row GetNode_Some by (fastforce simp: up_def)

lemma up_target: "rows_fk f \<Longrightarrow> (c, p) \<in> up f \<Longrightarrow> has_node f p"
  by (auto simp: rows_fk_def)

lemma ex_le_Suc: "(\<exists>m\<le>Suc k. P m) \<longleftrightarrow> P 0 \<or> (\<exists>m\<le>k. P (Suc m))"
  by (metis Suc_le_mono le0 old.nat.exhaust)

lemma relpow_left: "(i, j) \<in> R ^^ Suc m \<longleftrightarrow> (\<exists>p. (i, p) \<in> R \<and> (p, j) \<in> R ^^ m)"
  by (meson relpow_Suc_D2 relpow_Suc_I2)

lemma ancestors_ids:
  assumes "rows_fk f" and "has_node f i"
  shows "nd_id ` set (ancestors k f i) = {j. \<exists>m\<le>k. (i, j) \<in> up f ^^ m}"
  using assms(2)
proof (induction k arbitrary: i)
  case 0
  then obtain n where "GetNode f i = Some n" using has_node_GetNode [OF assms(1)] by blast
  then show ?case using GetNode_Some by (subst ancestors.simps) auto
next
  case (Suc k)
  then obtain n where n: "GetNode f i = Some n" using has_node_GetNode [OF assms(1)] by blast
  have split: "{j. \<exists>m\<le>Suc k. (i, j) \<in> up f ^^ m} = insert i {j. \<exists>p. nd_parent n = Some p \<and> (\<exists>m\<le>k. (p, j) \<in> up f ^^ m)}"
    unfolding ex_le_Suc relpow_left up_step [OF assms(1) n] by auto
  show ?case
  proof (cases "nd_parent n")
    case None
    then show ?thesis unfolding split using n GetNode_Some by (subst ancestors.simps) auto
  next
    case (Some p)
    then have "has_node f p" using up_step [OF assms(1) n] up_target [OF assms(1)] by blast
    then show ?thesis unfolding split using n Some GetNode_Some Suc.IH [of p] by (subst ancestors.simps) auto
  qed
qed

lemma chain_to_None: "chain_to i as acc = None \<longleftrightarrow> i \<notin> nd_id ` set as"
  by (induction as arbitrary: acc) auto

lemma CheckParentage_None:
  assumes "i \<noteq> 0" and "par \<noteq> 0"
  shows "CheckParentage f i par = None \<longleftrightarrow> i \<noteq> par \<and> i \<notin> nd_id ` set (ancestors MaxNodeDepth f par)"
  using assms chain_to_None [of i "ancestors MaxNodeDepth f par" "[]"] by (auto simp: CheckParentage_def split: option.splits)

lemma shallow_bound:
  assumes "shallow f" and "(x, y) \<in> up f ^^ m"
  shows "m \<le> MaxNodeDepth"
proof (rule ccontr)
  assume "\<not> m \<le> MaxNodeDepth"
  then have "m = Suc MaxNodeDepth + (m - Suc MaxNodeDepth)" by simp
  then have "up f ^^ m = up f ^^ Suc MaxNodeDepth O up f ^^ (m - Suc MaxNodeDepth)" by (metis relpow_add)
  then show False using assms by (simp add: shallow_def)
qed

lemma guard_reach:
  assumes "rows_fk f" and "shallow f" and "has_node f par" and "i \<noteq> 0" and "par \<noteq> 0"
  shows "CheckParentage f i par = None \<longleftrightarrow> (par, i) \<notin> (up f)\<^sup>*"
proof -
  have "(par, i) \<in> (up f)\<^sup>* \<longleftrightarrow> (\<exists>m\<le>MaxNodeDepth. (par, i) \<in> up f ^^ m)"
    using shallow_bound [OF assms(2)] by (auto simp: rtrancl_power)
  then show ?thesis using ancestors_ids [OF assms(1,3), of MaxNodeDepth] by (auto simp: CheckParentage_None [OF assms(4,5)])
qed

lemma set_on_node: "set (fl_nodes (on_node i g f)) = (\<lambda>n. if nd_id n = i then g n else n) ` set (fl_nodes f)"
  by (auto simp: on_node_def update_rows_def)

lemma next_on_node [simp]: "fl_next (on_node i g f) = fl_next f"
  by (simp add: on_node_def)

lemma ids_on_node: "(\<And>n. nd_id (g n) = nd_id n) \<Longrightarrow> map nd_id (fl_nodes (on_node i g f)) = map nd_id (fl_nodes f)"
  by (simp add: on_node_def update_rows_def)

lemma up_zip: "up f = set (zip (map nd_id (fl_nodes f)) (map nd_parent (fl_nodes f))) O {(Some p, p) | p. True}"
  by (auto simp: up_def zip_map_map zip_same_conv_map relcomp_unfold)

lemma up_columns:
  "map nd_id (fl_nodes f') = map nd_id (fl_nodes f) \<Longrightarrow> map nd_parent (fl_nodes f') = map nd_parent (fl_nodes f) \<Longrightarrow> up f' = up f"
  unfolding up_zip by simp

lemma has_node_ids: "map nd_id (fl_nodes f') = map nd_id (fl_nodes f) \<Longrightarrow> has_node f' = has_node f"
  by (rule ext) (metis has_node_iff image_set)

lemma rows_fk_ids:
  assumes "rows_fk f" and "map nd_id (fl_nodes f') = map nd_id (fl_nodes f)" and "fl_next f' = fl_next f"
    and "\<And>c p. (c, p) \<in> up f' \<Longrightarrow> has_node f p"
  shows "rows_fk f'"
proof -
  have "\<forall>i\<in>set (map nd_id (fl_nodes f')). 0 < i \<and> i < fl_next f" using assms(1) unfolding assms(2) rows_fk_def by auto
  then have "\<forall>n\<in>set (fl_nodes f'). 0 < nd_id n \<and> nd_id n < fl_next f" by simp
  then show ?thesis using assms(1,3,4) has_node_ids [OF assms(2)] unfolding rows_fk_def assms(2) by auto
qed

lemma tree_ok_sub:
  assumes "tree_ok f" and "map nd_id (fl_nodes f') = map nd_id (fl_nodes f)" and "fl_next f' = fl_next f" and "up f' \<subseteq> up f"
  shows "tree_ok f'"
proof -
  have "rows_fk f'" by (rule rows_fk_ids [OF _ assms(2,3)]) (use assms(1,4) up_target in \<open>auto simp: tree_ok_def\<close>)
  then show ?thesis using assms(1,4) acyclic_subset by (auto simp: tree_ok_def)
qed

lemma tree_ok_same:
  assumes "tree_ok f" and "\<And>n. nd_id (g n) = nd_id n" and "\<And>n. nd_parent (g n) = nd_parent n"
  shows "tree_ok (on_node i g f)"
  by (rule tree_ok_sub [OF assms(1) ids_on_node]) (auto simp: assms set_on_node up_def split: if_splits)

lemma tree_ok_clear: "tree_ok f \<Longrightarrow> tree_ok (ClearParent f i)"
  unfolding ClearParent_def by (rule tree_ok_sub) (auto simp: ids_on_node set_on_node up_def split: if_splits)

lemma tree_ok_cong: "fl_nodes f' = fl_nodes f \<Longrightarrow> fl_next f' = fl_next f \<Longrightarrow> tree_ok f' = tree_ok f"
  by (simp add: tree_ok_def rows_fk_def up_def has_node_def)

lemma up_on_node:
  "(c, p) \<in> up (on_node i g f) \<longleftrightarrow> (\<exists>n\<in>set (fl_nodes f). nd_id (if nd_id n = i then g n else n) = c \<and> nd_parent (if nd_id n = i then g n else n) = Some p)"
  by (simp only: up_def set_on_node bex_simps mem_Collect_eq prod.case)

lemma up_move:
  assumes "has_node f i"
  shows "up (on_node i (\<lambda>n. n\<lparr>nd_parent := Some p\<rparr>) f) = insert (i, p) {(c, q) \<in> up f. c \<noteq> i}"
proof -
  obtain x where x: "x \<in> set (fl_nodes f)" "nd_id x = i" using assms by (auto simp: has_node_iff)
  have "(c, q) \<in> up (on_node i (\<lambda>n. n\<lparr>nd_parent := Some p\<rparr>) f) \<longleftrightarrow> c = i \<and> q = p \<or> (c, q) \<in> up f \<and> c \<noteq> i" for c q
    unfolding up_on_node using x by (auto simp: up_def split: if_splits)
  then show ?thesis by auto
qed

lemma path_avoids: "(x, i) \<in> R\<^sup>* \<Longrightarrow> (x, i) \<in> {(c, q) \<in> R. c \<noteq> i}\<^sup>*"
proof (induction rule: converse_rtrancl_induct)
  case (step y z)
  then show ?case by (cases "y = i") (auto intro: converse_rtrancl_into_rtrancl)
qed simp

lemma acyclic_move:
  assumes "acyclic (up f)" and "has_node f i"
  shows "acyclic (up (on_node i (\<lambda>n. n\<lparr>nd_parent := Some p\<rparr>) f)) \<longleftrightarrow> (p, i) \<notin> (up f)\<^sup>*"
proof -
  let ?r = "{(c, q) \<in> up f. c \<noteq> i}"
  have "acyclic ?r" by (rule acyclic_subset [OF assms(1)]) auto
  moreover have "(p, i) \<in> ?r\<^sup>* \<longleftrightarrow> (p, i) \<in> (up f)\<^sup>*"
    using path_avoids [of p i "up f"] rtrancl_mono [of ?r "up f"] by auto
  ultimately show ?thesis unfolding up_move [OF assms(2)] by (simp add: acyclic_insert)
qed

lemma guarded_parent:
  assumes "tree_ok f" and "shallow f" and "CheckParentage f i p = None" and "has_node f i" and "has_node f p"
  shows "(p, i) \<notin> (up f)\<^sup>*"
proof -
  have "i \<noteq> 0" "p \<noteq> 0" using assms(1,4,5) by (auto simp: tree_ok_def rows_fk_def has_node_iff)
  then show ?thesis using guard_reach [OF _ assms(2,5)] assms(1,3) by (auto simp: tree_ok_def)
qed

lemma tree_ok_write_parent:
  assumes "tree_ok f" and "shallow f" and "CheckParentage f i p = None" and "write_parent f i p = Inr f'"
  shows "tree_ok f'"
proof (cases "has_node f i")
  case False
  then have same: "fl_nodes f' = fl_nodes f" "fl_next f' = fl_next f"
    using assms(4) by (auto simp: write_parent_def on_node_def update_rows_def has_node_iff intro!: map_idI)
  show ?thesis using assms(1) tree_ok_cong [OF same] by simp
next
  case True
  then have p: "has_node f p" and f': "f' = on_node i (\<lambda>n. n\<lparr>nd_parent := Some p\<rparr>) f"
    using assms(4) by (auto simp: write_parent_def split: if_splits)
  have "acyclic (up f')" unfolding f' using acyclic_move [OF _ True] guarded_parent [OF assms(1-3) True p] assms(1) by (simp add: tree_ok_def)
  moreover have "rows_fk f'" unfolding f'
    by (rule rows_fk_ids) (use assms(1) p up_move [OF True] up_target in \<open>auto simp: tree_ok_def ids_on_node\<close>)
  ultimately show ?thesis by (simp add: tree_ok_def)
qed

lemma tree_ok_SetParent:
  assumes "tree_ok f" and "shallow f" and "SetParent f i p = Inr f'"
  shows "tree_ok f'"
  by (rule tree_ok_write_parent [OF assms(1,2)]) (use assms(3) in \<open>auto simp: SetParent_def split: option.splits\<close>)

lemma tree_ok_insert:
  assumes "tree_ok f" and "insert_node f n = Inr f'"
  shows "tree_ok f'"
proof -
  let ?n = "n\<lparr>nd_id := fl_next f, nd_claimed := None\<rparr>"
  have f': "f' = f\<lparr>fl_nodes := fl_nodes f @ [?n], fl_next := fl_next f + 1\<rparr>" and par: "\<And>p. nd_parent n = Some p \<Longrightarrow> has_node f p"
    using assms(2) by (auto simp: insert_node_def split: if_splits option.splits)
  have fk: "rows_fk f" and ac: "acyclic (up f)" using assms(1) by (simp_all add: tree_ok_def)
  have fresh: "\<not> has_node f (fl_next f)" using fk by (auto simp: rows_fk_def has_node_iff)
  have ids: "has_node f' i \<longleftrightarrow> i = fl_next f \<or> has_node f i" for i by (auto simp: has_node_iff f')
  have ups: "up f' = up f \<union> {(fl_next f, p) | p. nd_parent n = Some p}" by (auto simp: up_def f')
  have "acyclic (up f')"
  proof (cases "nd_parent n")
    case (Some p)
    have "(p, fl_next f) \<notin> (up f)\<^sup>*"
    proof
      assume "(p, fl_next f) \<in> (up f)\<^sup>*"
      then show False using up_target [OF fk] fresh par [OF Some] by (auto elim: rtranclE)
    qed
    then show ?thesis using ac Some unfolding ups by (simp add: acyclic_insert)
  qed (use ac ups in simp)
  moreover have "rows_fk f'"
    using fk fresh par unfolding rows_fk_def ids ups by (auto simp: f' has_node_iff less_imp_le image_iff)
  ultimately show ?thesis by (simp add: tree_ok_def)
qed

lemma tree_ok_delete:
  assumes "tree_ok f" and "DeleteNode f i = Inr f'"
  shows "tree_ok f'"
proof -
  have nodes: "fl_nodes f' = filter (\<lambda>n. nd_id n \<noteq> i) (fl_nodes f)" and nx: "fl_next f' = fl_next f"
    and free: "has_node f i \<Longrightarrow> \<not> referenced f i"
    using assms(2) by (auto simp: DeleteNode_def delete_rows_def split: if_splits)
  have sub: "up f' \<subseteq> up f" by (auto simp: up_def nodes)
  have "has_node f' p" if "(c, p) \<in> up f'" for c p
  proof -
    have p: "has_node f p" using that sub assms(1) up_target by (auto simp: tree_ok_def)
    have "p \<noteq> i" using that free p by (auto simp: up_def nodes referenced_def list_ex_iff)
    then show ?thesis using p by (auto simp: has_node_iff nodes)
  qed
  then have "rows_fk f'" using assms(1) by (auto simp: tree_ok_def rows_fk_def nodes nx distinct_map_filter)
  then show ?thesis using assms(1) acyclic_subset [OF _ sub] by (simp add: tree_ok_def)
qed

lemma tree_ok_write_node:
  assumes "tree_ok f" and "shallow f" and "\<And>p. nd_parent n = Some p \<Longrightarrow> CheckParentage f (nd_id n) p = None"
    and "write_node f n = Inr f'"
  shows "tree_ok f'"
proof (cases "has_node f (nd_id n)")
  case True
  define g where "g = on_node (nd_id n) (\<lambda>m. m\<lparr>nd_parent := nd_parent n\<rparr>) f"
  have f': "f' = on_node (nd_id n) (\<lambda>m. n\<lparr>nd_claimed := nd_claimed m\<rparr>) f"
    and par: "\<And>p. nd_parent n = Some p \<Longrightarrow> has_node f p"
    using assms(4) True by (auto simp: write_node_def split: if_splits option.splits)
  have "tree_ok g"
  proof (cases "nd_parent n")
    case None
    then show ?thesis using tree_ok_clear [OF assms(1)] by (simp add: g_def ClearParent_def)
  next
    case (Some p)
    then show ?thesis using tree_ok_write_parent [OF assms(1,2) assms(3)] par by (simp add: g_def write_parent_def)
  qed
  have ids: "map nd_id (fl_nodes f') = map nd_id (fl_nodes g)" by (auto simp: f' g_def on_node_def update_rows_def)
  have "map nd_parent (fl_nodes f') = map nd_parent (fl_nodes g)" by (auto simp: f' g_def on_node_def update_rows_def)
  then have "up f' = up g" by (rule up_columns [OF ids])
  then show ?thesis using \<open>tree_ok g\<close> ids by (intro tree_ok_sub [of g f']) (simp_all add: f' g_def)
qed (use assms(1,4) in \<open>simp add: write_node_def\<close>)

lemma tree_ok_UpdateNode: "tree_ok f \<Longrightarrow> shallow f \<Longrightarrow> UpdateNode f n = Inr f' \<Longrightarrow> tree_ok f'"
  by (rule tree_ok_write_node [of f "n\<lparr>nd_name := TrimSpace (nd_name n)\<rparr>"]) (auto simp: UpdateNode_def Let_def split: option.splits)

lemma tree_ok_Property [simp]:
  "tree_ok (DeleteProperty f i k) = tree_ok f" "tree_ok (SetProperty f i k v) = tree_ok f"
  by (auto intro!: tree_ok_cong simp: DeleteProperty_def SetProperty_def)

lemma tree_ok_dissolve: "foldl dissolve r ds = Inr f' \<Longrightarrow> (\<And>f. r = Inr f \<Longrightarrow> tree_ok f) \<Longrightarrow> tree_ok f'"
proof (induction ds arbitrary: r)
  case (Cons d ds)
  have "tree_ok g" if "dissolve r d = Inr g" for g
    using that Cons.prems(2) by (auto simp: dissolve_def intro: tree_ok_delete tree_ok_clear split: sum.splits if_splits)
  then show ?case using Cons.IH [of "dissolve r d"] Cons.prems(1) by simp
qed simp

lemma tree_ok_DeleteGroup: "tree_ok f \<Longrightarrow> DeleteGroup f g = Inr f' \<Longrightarrow> tree_ok f'"
  using tree_ok_dissolve [of "Inr f"] by (auto simp: DeleteGroup_def intro: tree_ok_delete split: sum.splits)

lemma tree_ok_depth: "tree_ok f \<Longrightarrow> tree_ok (on_node i (\<lambda>n. n\<lparr>nd_depth := d\<rparr>) f)"
  by (rule tree_ok_same) simp_all

lemma tree_ok_depths: "tree_ok f \<Longrightarrow> tree_ok (foldl (\<lambda>f (k, i). on_node i (\<lambda>n. n\<lparr>nd_depth := Some (int k + 1)\<rparr>) f) f xs)"
  by (induction xs arbitrary: f) (auto simp: tree_ok_depth)

lemma tree_ok_reorder: "tree_ok f \<Longrightarrow> tree_ok (ReorderLaneSlots f ids)"
  unfolding ReorderLaneSlots_def by (rule tree_ok_depths)

lemma tree_ok_Reparent: "tree_ok f \<Longrightarrow> shallow f \<Longrightarrow> Reparent f i par k = Inr f' \<Longrightarrow> tree_ok f'"
  by (auto simp: Reparent_def tree_ok_depth tree_ok_clear dest: tree_ok_SetParent split: option.splits sum.splits if_splits)

lemma tree_ok_ClaimSlotTx: "tree_ok f \<Longrightarrow> ClaimSlotTx f i ord = Some f' \<Longrightarrow> tree_ok f'"
  by (auto simp: ClaimSlotTx_def intro!: tree_ok_same split: if_splits)

lemma tree_ok_UnclaimOrderSlots: "tree_ok f \<Longrightarrow> tree_ok (UnclaimOrderSlots f ord)"
  unfolding UnclaimOrderSlots_def by (rule tree_ok_sub [of f]) (auto simp: update_rows_def up_def)

section \<open>Every change of the floor, in any order\<close>

datatype node_op =
    OpSetParent node_id node_id | OpClearParent node_id | OpReparent node_id "node_id option" int | OpReorder "node_id list"
  | OpCreate node | OpUpdate node | OpDelete node_id | OpCreateGroup string | OpAddLane node_id string | OpDeleteGroup node_id
  | OpSetProperty node_id string string | OpDeleteProperty node_id string
  | OpClaim node_id order_id | OpUnclaim node_id | OpUnclaimOrder order_id

text \<open>A refused statement or an aborted transaction leaves the tables as they were.\<close>

definition settled :: "floor \<Rightarrow> node_error + floor \<Rightarrow> floor" where
  "settled f r = (case r of Inl e \<Rightarrow> f | Inr f' \<Rightarrow> f')"

fun node_apply :: "node_op \<Rightarrow> floor \<Rightarrow> floor" where
  "node_apply (OpSetParent i p) f = settled f (SetParent f i p)"
| "node_apply (OpClearParent i) f = ClearParent f i"
| "node_apply (OpReparent i par k) f = settled f (Reparent f i par k)"
| "node_apply (OpReorder ids) f = ReorderLaneSlots f ids"
| "node_apply (OpCreate n) f = settled f (CreateNode f n)"
| "node_apply (OpUpdate n) f = settled f (UpdateNode f n)"
| "node_apply (OpDelete i) f = settled f (DeleteNode f i)"
| "node_apply (OpCreateGroup name) f = settled f (CreateGroup f name)"
| "node_apply (OpAddLane g name) f = settled f (AddLane f g name)"
| "node_apply (OpDeleteGroup g) f = settled f (DeleteGroup f g)"
| "node_apply (OpSetProperty i k v) f = SetProperty f i k v"
| "node_apply (OpDeleteProperty i k) f = DeleteProperty f i k"
| "node_apply (OpClaim i ord) f = (case ClaimSlotTx f i ord of None \<Rightarrow> f | Some f' \<Rightarrow> f')"
| "node_apply (OpUnclaim i) f = UnclaimSlot f i"
| "node_apply (OpUnclaimOrder ord) f = UnclaimOrderSlots f ord"

inductive floor_runs :: "floor \<Rightarrow> floor \<Rightarrow> bool" where
  floor_start: "floor_runs f f"
| floor_step: "floor_runs f g \<Longrightarrow> shallow g \<Longrightarrow> floor_runs f (node_apply op g)"

lemma tree_ok_settled: "tree_ok f \<Longrightarrow> (\<And>f'. r = Inr f' \<Longrightarrow> tree_ok f') \<Longrightarrow> tree_ok (settled f r)"
  by (cases r) (simp_all add: settled_def)

lemma tree_ok_apply: "tree_ok f \<Longrightarrow> shallow f \<Longrightarrow> tree_ok (node_apply op f)"
  by (cases op)
     (auto simp: CreateNode_def CreateGroup_def AddLane_def UnclaimSlot_def
        intro!: tree_ok_settled tree_ok_same tree_ok_clear tree_ok_reorder tree_ok_UnclaimOrderSlots
        intro: tree_ok_SetParent tree_ok_Reparent tree_ok_insert tree_ok_UpdateNode tree_ok_delete tree_ok_DeleteGroup tree_ok_ClaimSlotTx
        split: option.splits)

lemma tree_ok_runs: "floor_runs f g \<Longrightarrow> tree_ok f \<Longrightarrow> tree_ok g"
  by (induction rule: floor_runs.induct) (simp_all add: tree_ok_apply)

section \<open>Walks end\<close>

lemma path_tail: "\<forall>k<m. (w k, w (Suc k)) \<in> R \<Longrightarrow> a < b \<Longrightarrow> b \<le> m \<Longrightarrow> (w a, w b) \<in> R\<^sup>+"
  by (induction b) (auto simp: less_Suc_eq intro: trancl_into_trancl)

lemma up_source: "(c, p) \<in> up f \<Longrightarrow> c \<in> nd_id ` set (fl_nodes f)"
  by (auto simp: up_def)

lemma chain_bound:
  assumes "tree_ok f" and "(x, y) \<in> up f ^^ m"
  shows "m \<le> length (fl_nodes f)"
proof -
  obtain w where w: "\<forall>k<m. (w k, w (Suc k)) \<in> up f" using assms(2) by (auto simp: relpow_fun_conv)
  have "inj_on w {..<m}"
  proof (rule inj_onI)
    fix a b assume ab: "a \<in> {..<m}" "b \<in> {..<m}" "w a = w b"
    have "\<not> (c < d \<and> d < m \<and> w c = w d)" for c d
      using path_tail [OF w, of c d] assms(1) by (auto simp: tree_ok_def acyclic_def)
    then show "a = b" using ab by (metis lessThan_iff linorder_less_linear)
  qed
  then have "m = card (w ` {..<m})" by (simp add: card_image)
  also have "\<dots> \<le> card (nd_id ` set (fl_nodes f))" using w up_source by (intro card_mono) auto
  also have "\<dots> \<le> length (fl_nodes f)" by (metis card_length length_map set_map)
  finally show ?thesis .
qed

lemma ancestors_more:
  assumes "rows_fk f" and "\<And>y. (i, y) \<notin> up f ^^ Suc k"
  shows "ancestors (Suc k) f i = ancestors k f i"
  using assms(2)
proof (induction k arbitrary: i)
  case 0
  then show ?case using up_step [OF assms(1)] by (auto simp: ancestors.simps [of _ f i] split: option.splits)
next
  case (Suc k)
  have "ancestors (Suc k) f p = ancestors k f p" if "GetNode f i = Some n" "nd_parent n = Some p" for n p
    using Suc.prems that up_step [OF assms(1) that(1)] by (intro Suc.IH) (meson relpow_Suc_I2)
  then show ?case by (subst (1 2) ancestors.simps) (auto split: option.splits)
qed

lemma ancestors_stable: "tree_ok f \<Longrightarrow> length (fl_nodes f) \<le> k \<Longrightarrow> ancestors k f i = AncestorsOf f i"
proof (induction k)
  case (Suc k)
  show ?case
  proof (cases "length (fl_nodes f) = Suc k")
    case False
    then have "ancestors (Suc k) f i = ancestors k f i"
      using Suc.prems chain_bound [OF Suc.prems(1), of i _ "Suc k"] by (intro ancestors_more) (auto simp: tree_ok_def)
    then show ?thesis using Suc False by simp
  qed (simp add: AncestorsOf_def)
qed (simp add: AncestorsOf_def)

lemma ancestors_root:
  assumes "rows_fk f" and "has_node f i" and "\<And>y. (i, y) \<notin> up f ^^ Suc k"
  shows "\<exists>r\<in>set (ancestors k f i). nd_parent r = None"
  using assms(2,3)
proof (induction k arbitrary: i)
  case 0
  then obtain n where "GetNode f i = Some n" using has_node_GetNode [OF assms(1)] by blast
  then show ?case using 0(2) up_step [OF assms(1), of i n] by (cases "nd_parent n") (auto simp: ancestors.simps)
next
  case (Suc k)
  then obtain n where n: "GetNode f i = Some n" using has_node_GetNode [OF assms(1)] by blast
  show ?case
  proof (cases "nd_parent n")
    case (Some p)
    then have p: "(i, p) \<in> up f" using up_step [OF assms(1) n] by simp
    have "\<And>y. (p, y) \<notin> up f ^^ Suc k" using Suc.prems(2) relpow_Suc_I2 [OF p] by blast
    from Suc.IH [OF up_target [OF assms(1) p] this] have "\<exists>r\<in>set (ancestors k f p). nd_parent r = None" .
    then show ?thesis using n Some by (subst ancestors.simps) auto
  qed (use n in \<open>subst ancestors.simps, simp\<close>)
qed

lemma small_shallow: "tree_ok f \<Longrightarrow> length (fl_nodes f) \<le> MaxNodeDepth \<Longrightarrow> shallow f"
proof -
  assume "tree_ok f" "length (fl_nodes f) \<le> MaxNodeDepth"
  then have "(x, y) \<notin> up f ^^ Suc MaxNodeDepth" for x y using chain_bound [of f x y "Suc MaxNodeDepth"] by (auto simp del: relpow.simps)
  then show "shallow f" unfolding shallow_def by (auto simp del: relpow.simps)
qed

lemma GetRoot_tree:
  assumes "tree_ok f" and "has_node f i"
  shows "\<exists>r. GetRoot f i = Some r \<and> nd_parent r = None \<and> (i, nd_id r) \<in> (up f)\<^sup>*"
proof -
  have fk: "rows_fk f" using assms(1) by (simp add: tree_ok_def)
  have "(i, y) \<notin> up f ^^ Suc (length (fl_nodes f))" for y
    using chain_bound [OF assms(1), of i y "Suc (length (fl_nodes f))"] by (auto simp del: relpow.simps)
  from ancestors_root [OF fk assms(2) this] have "GetRoot f i \<noteq> None"
    unfolding GetRoot_def AncestorsOf_def select_row_None by simp
  then obtain r where r: "GetRoot f i = Some r" by blast
  from select_row_Some [OF r [unfolded GetRoot_def]] have row: "r \<in> set (AncestorsOf f i)" "nd_parent r = None" by simp_all
  then have "nd_id r \<in> {j. \<exists>m\<le>length (fl_nodes f). (i, j) \<in> up f ^^ m}"
    using ancestors_ids [OF fk assms(2)] unfolding AncestorsOf_def by blast
  then show ?thesis using r row(2) by (auto simp: rtrancl_power)
qed


definition empty_floor :: floor where
  "empty_floor = \<lparr>fl_nodes = [], fl_next = 1, fl_bins = [], fl_orders = [], fl_res = [], fl_props = [], fl_payloads = [], fl_types = [],
     fl_levels = [], fl_pinned = []\<rparr>"

definition slot_node :: "string \<Rightarrow> node" where
  "slot_node name = \<lparr>nd_id = 0, nd_name = name, nd_synthetic = False, nd_zone = '''', nd_enabled = True, nd_depth = None, nd_parent = None,
     nd_claimed = None, nd_class = ''''\<rparr>"

definition plant_ops :: "node_op list" where
  "plant_ops = [OpCreateGroup ''G'', OpAddLane 1 ''L'', OpCreate (slot_node '' S ''), OpReparent 3 (Some 2) 1, OpSetParent 1 3]"

definition plant_of :: "node_op list \<Rightarrow> floor" where
  "plant_of ops = foldl (\<lambda>f op. node_apply op f) empty_floor ops"

lemma empty_tree: "tree_ok empty_floor"
  by (simp add: tree_ok_def rows_fk_def empty_floor_def up_def acyclic_def)

lemma plant_run:
  "length ops \<le> MaxNodeDepth \<Longrightarrow> (\<forall>k\<le>length ops. length (fl_nodes (plant_of (take k ops))) \<le> MaxNodeDepth) \<Longrightarrow> floor_runs empty_floor (plant_of ops)"
proof (induction ops rule: rev_induct)
  case (snoc op ops)
  have run: "floor_runs empty_floor (plant_of ops)"
  proof (rule snoc.IH)
    show "\<forall>k\<le>length ops. length (fl_nodes (plant_of (take k ops))) \<le> MaxNodeDepth"
    proof (intro allI impI)
      fix k assume "k \<le> length ops"
      then show "length (fl_nodes (plant_of (take k ops))) \<le> MaxNodeDepth" using snoc.prems(2) [rule_format, of k] by simp
    qed
  qed (use snoc.prems(1) in simp)
  have "shallow (plant_of ops)"
    using small_shallow [OF tree_ok_runs [OF run empty_tree]] snoc.prems(2) [rule_format, of "length ops"] by simp
  then show ?case using floor_step [OF run, of op] by (simp add: plant_of_def)
qed (simp add: plant_of_def floor_start)

lemma plant_shape:
  "map nd_parent (fl_nodes (plant_of plant_ops)) = [None, Some 1, Some 2]" "has_node (plant_of plant_ops) 3"
  "map_option nd_name (GetRoot (plant_of plant_ops) 3) = Some ''G''" "nd_name (the (GetNode (plant_of plant_ops) 3)) = ''S''"
  by code_simp+

lemma plant_runs: "floor_runs empty_floor (plant_of plant_ops)"
proof (rule plant_run)
  have "list_all (\<lambda>k. length (fl_nodes (plant_of (take k plant_ops))) \<le> MaxNodeDepth) [0..<Suc (length plant_ops)]" by code_simp
  then show "\<forall>k\<le>length plant_ops. length (fl_nodes (plant_of (take k plant_ops))) \<le> MaxNodeDepth" unfolding list_all_iff by auto
qed code_simp


lemma chain_to_Some:
  "chain_to i as acc = Some (a, ch) \<Longrightarrow> \<exists>pre bs. as = pre @ a # bs \<and> nd_id a = i \<and> ch = acc @ map nd_name (pre @ [a])"
proof (induction as arbitrary: acc)
  case (Cons b as)
  then show ?case by (cases "nd_id b = i") (force intro: exI [of _ "[]"] exI [of _ "b # pre" for pre])+
qed simp

lemma refused_chain:
  assumes "CheckParentage f i p = Some c"
  shows "i = p \<and> pc_chain c = [] \<or> (\<exists>pre a bs. ancestors MaxNodeDepth f p = pre @ a # bs \<and> nd_id a = i \<and> pc_chain c = map nd_name (pre @ [a]))"
proof (cases "i = p")
  case True
  then show ?thesis using assms by (auto simp: CheckParentage_def split: if_splits)
next
  case False
  then obtain a ch where "chain_to i (ancestors MaxNodeDepth f p) [] = Some (a, ch)" "pc_chain c = ch"
    using assms by (auto simp: CheckParentage_def split: if_splits option.splits)
  then show ?thesis using chain_to_Some [of i "ancestors MaxNodeDepth f p" "[]" a ch] by auto
qed

text \<open>C33. The parentage guard is exact. On a tree whose chains are within the walked depth, moving a node under another is refused
  if and only if the move would close a cycle; an accepted move is the write of the parent and nothing else, and the refusal names
  the chain of nodes from the new parent up to the node itself.\<close>

theorem parentage_guard:
  assumes "tree_ok f" and "shallow f" and "has_node f i" and "has_node f p"
  shows "let moved = on_node i (\<lambda>n. n\<lparr>nd_parent := Some p\<rparr>) f in case SetParent f i p of
      Inr f' \<Rightarrow> f' = moved \<and> acyclic (up moved)
    | Inl e \<Rightarrow> \<not> acyclic (up moved) \<and> (\<exists>c. e = ParentCycle c \<and> (i = p \<and> pc_chain c = [] \<or>
        (\<exists>pre a bs. ancestors MaxNodeDepth f p = pre @ a # bs \<and> nd_id a = i \<and> pc_chain c = map nd_name (pre @ [a]))))"
proof -
  have ids: "i \<noteq> 0" "p \<noteq> 0" using assms by (auto simp: tree_ok_def rows_fk_def has_node_iff)
  have fk: "rows_fk f" and ac: "acyclic (up f)" using assms(1) by (simp_all add: tree_ok_def)
  have exact: "CheckParentage f i p = None \<longleftrightarrow> acyclic (up (on_node i (\<lambda>n. n\<lparr>nd_parent := Some p\<rparr>) f))"
    unfolding acyclic_move [OF ac assms(3)] by (rule guard_reach [OF fk assms(2,4) ids])
  show ?thesis
  proof (cases "CheckParentage f i p")
    case None
    then show ?thesis using exact assms(4) by (simp add: SetParent_def write_parent_def Let_def)
  next
    case (Some c)
    then have "\<not> acyclic (up (on_node i (\<lambda>n. n\<lparr>nd_parent := Some p\<rparr>) f))" using exact by simp
    then show ?thesis using refused_chain [OF Some] Some by (simp add: SetParent_def Let_def)
  qed
qed

theorem parentage_guard_witness:
  "tree_ok (plant_of plant_ops) \<and> shallow (plant_of plant_ops) \<and>
   SetParent (plant_of plant_ops) 1 3 = Inl (ParentCycle \<lparr>pc_node = 1, pc_node_name = ''G'', pc_parent = 3, pc_parent_name = ''S'', pc_chain = [''S'', ''L'', ''G'']\<rparr>) \<and>
   \<not> acyclic (up (on_node 1 (\<lambda>n. n\<lparr>nd_parent := Some 3\<rparr>) (plant_of plant_ops)))"
proof -
  have t: "tree_ok (plant_of plant_ops)" by (rule tree_ok_runs [OF plant_runs empty_tree])
  have s: "shallow (plant_of plant_ops)" by (rule small_shallow [OF t]) code_simp
  have r: "SetParent (plant_of plant_ops) 1 3 = Inl (ParentCycle \<lparr>pc_node = 1, pc_node_name = ''G'', pc_parent = 3, pc_parent_name = ''S'', pc_chain = [''S'', ''L'', ''G'']\<rparr>)"
    by code_simp
  have "has_node (plant_of plant_ops) 1" by code_simp
  from parentage_guard [OF t s this plant_shape(2)] show ?thesis using t s r by (simp add: Let_def)
qed

section \<open>Two moves at once\<close>

text \<open>The guard reads and the move writes in separate statements with no transaction around them, so two moves can both pass the
  guard before either writes. Two top-level groups each moved under the other close a cycle this way, which a single move never can.\<close>

definition two_groups :: floor where
  "two_groups = plant_of [OpCreateGroup ''A'', OpCreateGroup ''B'']"

definition crossed :: floor where
  "crossed = (case write_parent two_groups 1 2 of Inl e \<Rightarrow> two_groups | Inr f \<Rightarrow> settled f (write_parent f 2 1))"

lemma racing_moves_close_a_cycle:
  "CheckParentage two_groups 1 2 = None \<and> CheckParentage two_groups 2 1 = None \<and> \<not> acyclic (up crossed)"
proof -
  have up: "(c, p) \<in> up f \<longleftrightarrow> list_ex (\<lambda>n. nd_id n = c \<and> nd_parent n = Some p) (fl_nodes f)" for c p f by (simp add: up_def list_ex_iff)
  have "(1, 2) \<in> up crossed" unfolding up by code_simp
  moreover have "(2, 1) \<in> up crossed" unfolding up by code_simp
  ultimately have "(1, 1) \<in> (up crossed)\<^sup>+" by (meson r_into_trancl trancl_into_trancl)
  moreover have "CheckParentage two_groups 1 2 = None" "CheckParentage two_groups 2 1 = None" by code_simp+
  ultimately show ?thesis by (auto simp: acyclic_def)
qed

text \<open>Taking a group apart leaves the depth of a slot that becomes free-standing; moving the slot out of its lane clears it.\<close>

lemma dissolved_slot_keeps_depth:
  "map_option nd_depth (GetNode (settled (plant_of plant_ops) (DeleteGroup (plant_of plant_ops) 1)) 3) = Some (Some 1) \<and>
   map_option nd_depth (GetNode (settled (plant_of plant_ops) (Reparent (plant_of plant_ops) 3 None 0)) 3) = Some None"
  by code_simp

end
