(* ===== verification/Lanes.thy ===== *)
theory Lanes
  imports Floor Waits
begin

text \<open>
  Single-file lanes: which slot a robot entering at the mouth can reach, which slot a store may take,
  which bin a retrieve may take, and what is said about a lane before anything moves.  The queries are
  those of \<^verbatim>\<open>store/nodes/lanes.go\<close>, \<^verbatim>\<open>store/lane_queries.go\<close> and the predicates of
  \<^verbatim>\<open>store/internal/helpers/lane_reachability.go\<close>; the capacity gate is \<^verbatim>\<open>dispatch/capacity.go\<close>.  A query
  that orders its rows and keeps the first returns, among rows that tie, the one that comes first in
  the table.  The theory shows that the store selector never walls in a bin that somebody else is
  coming for, that the two spellings of reachability agree, and what the dig's exclusions protect.
\<close>

section \<open>In front of\<close>

definition ShallowerInSameLane :: "node \<Rightarrow> node \<Rightarrow> bool" where
  "ShallowerInSameLane s d \<longleftrightarrow> nd_parent s \<noteq> None \<and> nd_parent s = nd_parent d \<and> nd_id s \<noteq> nd_id d \<and>
     (case (nd_depth s, nd_depth d) of (Some a, Some b) \<Rightarrow> a < b | _ \<Rightarrow> False)"

definition occupied :: "floor \<Rightarrow> node \<Rightarrow> bool" where
  "occupied f n = list_ex (\<lambda>b. sb_node b = Some (nd_id n)) (fl_bins f)"

definition LaneBlockerPredicate :: "floor \<Rightarrow> node \<Rightarrow> node \<Rightarrow> bool" where
  "LaneBlockerPredicate f blocker target = (occupied f blocker \<and> ShallowerInSameLane blocker target)"

definition BuriedSQL :: "floor \<Rightarrow> node \<Rightarrow> bool" where
  "BuriedSQL f target = list_ex (\<lambda>n. LaneBlockerPredicate f n target) (fl_nodes f)"

definition ReachableSQL :: "floor \<Rightarrow> node \<Rightarrow> bool" where
  "ReachableSQL f target = (\<not> BuriedSQL f target)"

definition depth0 :: "node \<Rightarrow> int" where
  "depth0 n = (case nd_depth n of None \<Rightarrow> 0 | Some d \<Rightarrow> d)"

definition ListLaneSlots :: "floor \<Rightarrow> node_id \<Rightarrow> node list" where
  "ListLaneSlots f lane = sort_key depth0 (filter (\<lambda>n. nd_parent n = Some lane) (fl_nodes f))"

text \<open>No value stands for a row that could not be read.\<close>

definition GetSlotDepth :: "floor \<Rightarrow> node_id \<Rightarrow> int option" where
  "GetSlotDepth f i = map_option depth0 (GetNode f i)"

definition BlockersInFrontOf :: "floor \<Rightarrow> node_id \<Rightarrow> node list option" where
  "BlockersInFrontOf f i = (case GetNode f i of
       None \<Rightarrow> None
     | Some slot \<Rightarrow> Some (if nd_parent slot = None \<or> nd_depth slot = None then []
         else sort_key depth0 (filter (\<lambda>n. LaneBlockerPredicate f n slot) (fl_nodes f))))"

definition IsSlotAccessible :: "floor \<Rightarrow> node_id \<Rightarrow> bool option" where
  "IsSlotAccessible f i = map_option (\<lambda>bs. bs = []) (BlockersInFrontOf f i)"

definition LaneForNode :: "floor \<Rightarrow> node_id \<Rightarrow> node option option" where
  "LaneForNode f i = (case GetNode f i of
       None \<Rightarrow> None
     | Some n \<Rightarrow> (case nd_parent n of
           None \<Rightarrow> Some None
         | Some p \<Rightarrow> (case GetNode f p of None \<Rightarrow> None | Some l \<Rightarrow> Some (if nd_class l \<noteq> NodeClassLANE then None else Some l))))"

section \<open>The audits at startup\<close>

datatype lane_warning = TieredOutsideLane string string string | NestedLane string string | DepthlessBins string string nat

definition classOrUntyped :: "string \<Rightarrow> string" where
  "classOrUntyped code = (if code = '''' then ''untyped'' else code)"

definition parent_row :: "floor \<Rightarrow> node \<Rightarrow> node option" where
  "parent_row f n = (case nd_parent n of None \<Rightarrow> None | Some p \<Rightarrow> GetNode f p)"

definition AuditLaneGeometry :: "floor \<Rightarrow> lane_warning list" where
  "AuditLaneGeometry f =
     concat (map (\<lambda>n. case parent_row f n of
           None \<Rightarrow> []
         | Some p \<Rightarrow> if nd_depth n \<noteq> None \<and> \<not> nd_synthetic n \<and> nd_class p \<noteq> NodeClassLANE
             then [TieredOutsideLane (nd_name n) (nd_name p) (classOrUntyped (nd_class p))] else []) (sort_key nd_name (fl_nodes f))) @
     concat (map (\<lambda>n. case parent_row f n of
           None \<Rightarrow> []
         | Some p \<Rightarrow> if nd_class n = NodeClassLANE \<and> nd_class p = NodeClassLANE then [NestedLane (nd_name n) (nd_name p)] else [])
       (sort_key nd_name (fl_nodes f)))"

definition AuditLaneDepths :: "floor \<Rightarrow> lane_warning list" where
  "AuditLaneDepths f = concat (map (\<lambda>n. case parent_row f n of
       None \<Rightarrow> []
     | Some l \<Rightarrow> (let k = count_rows (\<lambda>b. sb_node b = Some (nd_id n)) (fl_bins f) in
         if nd_class l = NodeClassLANE \<and> nd_depth n = None \<and> 0 < k then [DepthlessBins (nd_name n) (nd_name l) k] else []))
     (sort_key nd_name (fl_nodes f)))"

section \<open>The first row by a key\<close>

definition best_row :: "('r \<Rightarrow> int) \<Rightarrow> ('r \<Rightarrow> bool) \<Rightarrow> 'r list \<Rightarrow> 'r option" where
  "best_row key P rows = (case sort_key key (filter P rows) of [] \<Rightarrow> None | r # rs \<Rightarrow> Some r)"

lemma best_row_None: "best_row key P rows = None \<longleftrightarrow> (\<forall>r\<in>set rows. \<not> P r)"
proof -
  have "sort_key key (filter P rows) = [] \<longleftrightarrow> set (filter P rows) = {}" by (metis set_empty set_sort)
  then show ?thesis by (auto simp: best_row_def split: list.splits)
qed

lemma best_row_Some:
  assumes "best_row key P rows = Some r"
  shows "r \<in> set rows \<and> P r \<and> (\<forall>q\<in>set rows. P q \<longrightarrow> key r \<le> key q)"
proof -
  obtain rs where s: "sort_key key (filter P rows) = r # rs" using assms by (auto simp: best_row_def split: list.splits)
  have "set (r # rs) = set (filter P rows)" by (metis s set_sort)
  moreover have "sorted (map key (r # rs))" by (metis s sorted_sort_key)
  ultimately show ?thesis by auto
qed

section \<open>Where a store may put a bin\<close>

text \<open>Two spellings of coming for a bin: the order that claimed it, and an order for that bin whose source is the slot it stands in.\<close>

definition coming_for :: "floor_order \<Rightarrow> node \<Rightarrow> bin \<Rightarrow> bool" where
  "coming_for q held b \<longleftrightarrow> sb_claimed b = Some (fo_id q) \<or> fo_bin q = Some (sb_id b) \<and> fo_source q = nd_name held"

definition walls_in :: "floor \<Rightarrow> order_id \<Rightarrow> node \<Rightarrow> bool" where
  "walls_in f excl n = list_ex (\<lambda>held. ShallowerInSameLane n held \<and>
     list_ex (\<lambda>b. sb_node b = Some (nd_id held) \<and>
       list_ex (\<lambda>q. coming_for q held b \<and> fo_id q \<noteq> excl \<and> live_order q) (fl_orders f)) (fl_bins f)) (fl_nodes f)"

definition spoken_for :: "floor \<Rightarrow> order_id \<Rightarrow> node \<Rightarrow> bool" where
  "spoken_for f excl n \<longleftrightarrow>
     list_ex (\<lambda>r. r_node r = Some (nd_id n) \<and> r_kind r = KindSlot \<and> r_active r \<and> r_order r \<noteq> excl) (fl_res f) \<or>
     list_ex (\<lambda>q. fo_delivery q = nd_name n \<and> live_order q \<and> fo_id q \<noteq> excl) (fl_orders f)"

definition store_candidate :: "floor \<Rightarrow> node_id \<Rightarrow> order_id \<Rightarrow> bool \<Rightarrow> node \<Rightarrow> bool" where
  "store_candidate f lane excl guard n \<longleftrightarrow> nd_parent n = Some lane \<and> \<not> nd_synthetic n \<and> (nd_claimed n = None \<or> nd_claimed n = Some excl) \<and>
     \<not> occupied f n \<and> \<not> spoken_for f excl n \<and> ReachableSQL f n \<and> (guard \<longrightarrow> \<not> walls_in f excl n)"

definition findStoreSlot :: "floor \<Rightarrow> node_id \<Rightarrow> order_id \<Rightarrow> bool \<Rightarrow> node option" where
  "findStoreSlot f lane excl guard = best_row (\<lambda>n. - depth0 n) (store_candidate f lane excl guard) (fl_nodes f)"

datatype store_slot = StoreSlot node | LaneClosedByClaim | NoEmptySlot

definition FindStoreSlotInLaneExcluding :: "floor \<Rightarrow> node_id \<Rightarrow> order_id \<Rightarrow> store_slot" where
  "FindStoreSlotInLaneExcluding f lane excl = (case findStoreSlot f lane excl True of
       Some n \<Rightarrow> StoreSlot n
     | None \<Rightarrow> (case findStoreSlot f lane excl False of Some _ \<Rightarrow> LaneClosedByClaim | None \<Rightarrow> NoEmptySlot))"

definition FindStoreSlotInLane :: "floor \<Rightarrow> node_id \<Rightarrow> store_slot" where
  "FindStoreSlotInLane f lane = FindStoreSlotInLaneExcluding f lane 0"

section \<open>What a dig may not seal\<close>

definition EntombsASpokenForSlotSQL :: "floor \<Rightarrow> order_id \<Rightarrow> node \<Rightarrow> bool" where
  "EntombsASpokenForSlotSQL f owner n = list_ex (\<lambda>spoken. ShallowerInSameLane n spoken \<and> \<not> occupied f spoken \<and>
     ((\<exists>c\<in>set_option (nd_claimed spoken). c \<noteq> owner) \<or> spoken_for f owner spoken)) (fl_nodes f)"

definition in_group_lane :: "floor \<Rightarrow> node_id \<Rightarrow> node \<Rightarrow> bool" where
  "in_group_lane f g n = (case parent_row f n of None \<Rightarrow> False | Some lane \<Rightarrow> nd_parent lane = Some g)"

definition SlotsThatWouldEntombASpokenForSlot :: "floor \<Rightarrow> node_id \<Rightarrow> node_id list" where
  "SlotsThatWouldEntombASpokenForSlot f g = map nd_id (filter (\<lambda>n. in_group_lane f g n \<and> EntombsASpokenForSlotSQL f 0 n) (fl_nodes f))"

definition hard_held :: "floor \<Rightarrow> node \<Rightarrow> bool" where
  "hard_held f held = list_ex (\<lambda>b. sb_node b = Some (nd_id held) \<and> sb_status b \<noteq> BinStatusRetired \<and>
     list_ex (\<lambda>q. coming_for q held b \<and> fo_parent q = None \<and> live_order q) (fl_orders f)) (fl_bins f)"

definition SlotsBlockedByHardClaims :: "floor \<Rightarrow> node_id \<Rightarrow> node_id list" where
  "SlotsBlockedByHardClaims f g = map nd_id (filter (\<lambda>n. in_group_lane f g n \<and>
     list_ex (\<lambda>held. hard_held f held \<and> ShallowerInSameLane n held \<and> ReachableSQL f held) (fl_nodes f)) (fl_nodes f))"

definition LanesOccupiedInGroup :: "floor \<Rightarrow> node_id \<Rightarrow> node_id list" where
  "LanesOccupiedInGroup f g = remdups (concat (map (\<lambda>r. case r_node r of
       None \<Rightarrow> []
     | Some i \<Rightarrow> if r_kind r = KindOccupancy \<and> r_active r \<and> list_ex (\<lambda>l. nd_id l = i \<and> nd_parent l = Some g) (fl_nodes f) then [i] else []) (fl_res f)))"

definition dug_by_another :: "floor \<Rightarrow> DigAsker \<Rightarrow> node_id \<Rightarrow> bool" where
  "dug_by_another f asker i = list_ex (\<lambda>r. r_kind r = KindMouth \<and> r_node r = Some i \<and> r_active r \<and> r_mode r = ModeDig \<and>
     r_order r \<noteq> a_order asker \<and> r_order r \<noteq> a_lane_owner asker) (fl_res f)"

definition ListChildNodesUnlocked :: "floor \<Rightarrow> node_id \<Rightarrow> DigAsker \<Rightarrow> node list" where
  "ListChildNodesUnlocked f par asker =
     sort_key nd_name (filter (\<lambda>n. nd_parent n = Some par \<and> \<not> dug_by_another f asker (nd_id n)) (fl_nodes f))"

definition LaneAcceptsInbound :: "floor \<Rightarrow> node_id \<Rightarrow> bool" where
  "LaneAcceptsInbound f lane = list_all (\<lambda>h. h_mode h = ModeInbound) (activeMouthRows (fl_res f) lane)"

section \<open>Which bin a retrieve may take\<close>

definition slot_of :: "floor \<Rightarrow> bin \<Rightarrow> node option" where
  "slot_of f b = (case sb_node b of None \<Rightarrow> None | Some i \<Rightarrow> GetNode f i)"

definition lane_source :: "floor \<Rightarrow> node_id \<Rightarrow> string \<Rightarrow> bin \<Rightarrow> bool" where
  "lane_source f lane code b \<longleftrightarrow>
     (case slot_of f b of None \<Rightarrow> False | Some n \<Rightarrow> nd_parent n = Some lane \<and> \<not> nd_synthetic n) \<and>
     sb_claimed b = None \<and> \<not> sb_locked b \<and> sb_confirmed b \<and> Sourceable (sb_status b) \<and> sb_status b \<noteq> BinStatusStaged \<and>
     (code = '''' \<or> sb_payload b = code)"

definition slot_depth :: "floor \<Rightarrow> bin \<Rightarrow> int" where
  "slot_depth f b = (case slot_of f b of None \<Rightarrow> 0 | Some n \<Rightarrow> depth0 n)"

definition reachable_bin :: "floor \<Rightarrow> bin \<Rightarrow> bool" where
  "reachable_bin f b = (case slot_of f b of None \<Rightarrow> False | Some n \<Rightarrow> ReachableSQL f n)"

definition buried_bin :: "floor \<Rightarrow> bin \<Rightarrow> bool" where
  "buried_bin f b = (case slot_of f b of None \<Rightarrow> False | Some n \<Rightarrow> BuriedSQL f n)"

definition binTimestamp :: "bin \<Rightarrow> instant" where
  "binTimestamp b = (case sb_loaded b of Some t \<Rightarrow> t | None \<Rightarrow> sb_created b)"

definition FindSourceBinInLane :: "floor \<Rightarrow> node_id \<Rightarrow> string \<Rightarrow> bin option" where
  "FindSourceBinInLane f lane code =
     best_row (slot_depth f) (\<lambda>b. lane_source f lane code b \<and> \<not> pending_on_bin f (sb_id b) \<and> reachable_bin f b) (fl_bins f)"

definition FindOldestBuriedBin :: "floor \<Rightarrow> node_id \<Rightarrow> string \<Rightarrow> (bin \<times> node) option" where
  "FindOldestBuriedBin f lane code = (case best_row binTimestamp (\<lambda>b. lane_source f lane code b \<and> buried_bin f b) (fl_bins f) of
       None \<Rightarrow> None | Some b \<Rightarrow> map_option (Pair b) (slot_of f b))"

definition FindBuriedBin :: "floor \<Rightarrow> node_id \<Rightarrow> string \<Rightarrow> (bin \<times> node) option" where
  "FindBuriedBin f lane code = (case best_row (slot_depth f) (\<lambda>b. lane_source f lane code b \<and> buried_bin f b) (fl_bins f) of
       None \<Rightarrow> None | Some b \<Rightarrow> map_option (Pair b) (slot_of f b))"

section \<open>Reachability has one meaning\<close>

lemma not_buried: "ReachableSQL f d \<longleftrightarrow> (\<forall>n\<in>set (fl_nodes f). occupied f n \<longrightarrow> \<not> ShallowerInSameLane n d)"
  by (auto simp: ReachableSQL_def BuriedSQL_def LaneBlockerPredicate_def list_ex_iff)

lemma blockers_exact:
  assumes "GetNode f i = Some slot"
  shows "\<exists>bs. BlockersInFrontOf f i = Some bs \<and> sorted (map depth0 bs) \<and> set bs = {n \<in> set (fl_nodes f). LaneBlockerPredicate f n slot}"
proof (cases "nd_parent slot = None \<or> nd_depth slot = None")
  case True
  then have "{n \<in> set (fl_nodes f). LaneBlockerPredicate f n slot} = {}" by (auto simp: LaneBlockerPredicate_def ShallowerInSameLane_def split: option.splits)
  then show ?thesis using assms True by (auto simp: BlockersInFrontOf_def)
next
  case False
  then show ?thesis using assms by (auto simp: BlockersInFrontOf_def)
qed

lemma accessible_reachable: "GetNode f i = Some slot \<Longrightarrow> IsSlotAccessible f i = Some (ReachableSQL f slot)"
proof -
  assume "GetNode f i = Some slot"
  from blockers_exact [OF this] obtain bs where bs: "BlockersInFrontOf f i = Some bs" "set bs = {n \<in> set (fl_nodes f). LaneBlockerPredicate f n slot}" by blast
  have "bs = [] \<longleftrightarrow> set bs = {}" by simp
  also have "\<dots> \<longleftrightarrow> ReachableSQL f slot" unfolding bs(2) ReachableSQL_def BuriedSQL_def list_ex_iff by auto
  finally show ?thesis using bs(1) by (simp add: IsSlotAccessible_def)
qed

lemma depth_audit_silent:
  assumes "rows_fk f" and "AuditLaneDepths f = []" and "n \<in> set (fl_nodes f)" and "nd_parent n = Some l" and "GetNode f l = Some lane"
    and "nd_class lane = NodeClassLANE" and "occupied f n"
  shows "nd_depth n \<noteq> None"
proof
  assume none: "nd_depth n = None"
  have "0 < count_rows (\<lambda>b. sb_node b = Some (nd_id n)) (fl_bins f)"
    using assms(7) by (auto simp: occupied_def list_ex_iff count_rows_def filter_empty_conv)
  then have "AuditLaneDepths f \<noteq> []"
    using assms(3-6) none by (auto simp: AuditLaneDepths_def parent_row_def intro!: bexI [of _ n])
  then show False using assms(2) by simp
qed


text \<open>A bin put down at a node, for what the selectors promise about the floor afterwards.\<close>

definition place :: "bin_id \<Rightarrow> node_id \<Rightarrow> floor \<Rightarrow> floor" where
  "place b i f = f\<lparr>fl_bins := update_rows (\<lambda>x. sb_id x = b) (\<lambda>x. x\<lparr>sb_node := Some i\<rparr>) (fl_bins f)\<rparr>"

text \<open>Two lanes of a group: the first with a bin at the back, the second with a bin at the back that order 40 has claimed.\<close>

definition node_row :: "node_id \<Rightarrow> string \<Rightarrow> node_id option \<Rightarrow> int option \<Rightarrow> string \<Rightarrow> node" where
  "node_row i name par d cls = \<lparr>nd_id = i, nd_name = name, nd_synthetic = (cls \<noteq> ''''), nd_zone = '''', nd_enabled = True, nd_depth = d,
     nd_parent = par, nd_claimed = None, nd_class = cls\<rparr>"

definition bin_at :: "bin_id \<Rightarrow> node_id \<Rightarrow> instant \<Rightarrow> order_id option \<Rightarrow> bin" where
  "bin_at b i t claim = \<lparr>sb_id = b, sb_type = ''TOTE'', sb_node = Some i, sb_status = BinStatusAvailable, sb_claimed = claim, sb_payload = ''PANEL'',
     sb_confirmed = True, sb_locked = False, sb_loaded = Some t, sb_created = 0\<rparr>"

definition two_lanes :: floor where
  "two_lanes = empty_floor\<lparr>fl_next := 20,
     fl_nodes := [node_row 1 ''G'' None None ''NGRP'', node_row 2 ''A'' (Some 1) None ''LANE'', node_row 3 ''A1'' (Some 2) (Some 1) '''',
       node_row 4 ''A2'' (Some 2) (Some 2) '''', node_row 5 ''A3'' (Some 2) (Some 3) '''', node_row 6 ''B'' (Some 1) None ''LANE'',
       node_row 7 ''B2'' (Some 6) (Some 2) '''', node_row 8 ''B1'' (Some 6) (Some 1) ''''],
     fl_bins := [bin_at 10 5 100 None, bin_at 11 7 90 (Some 40)],
     fl_orders := [\<lparr>fo_id = 40, fo_status = StatusDispatched, fo_bin = Some 11, fo_source = ''B2'', fo_delivery = ''LINE'', fo_parent = None\<rparr>]\<rparr>"

lemma two_lanes_rows: "rows_fk two_lanes"
  by (auto simp: rows_fk_def up_def has_node_def two_lanes_def node_row_def empty_floor_def)


section \<open>A store walls nobody in\<close>

lemma place_nodes [simp]: "fl_nodes (place b i f) = fl_nodes f"
  by (simp add: place_def)

lemma occupied_place: "occupied (place b i f) n \<Longrightarrow> occupied f n \<or> nd_id n = i"
  by (auto simp: occupied_def place_def update_rows_def list_ex_iff split: if_splits)

lemma reachable_place:
  assumes "distinct (map nd_id (fl_nodes f))" and "n \<in> set (fl_nodes f)" and "ReachableSQL f held" and "\<not> ShallowerInSameLane n held"
  shows "ReachableSQL (place b (nd_id n) f) held"
proof -
  have "\<not> ShallowerInSameLane m held" if "m \<in> set (fl_nodes f)" "occupied (place b (nd_id n) f) m" for m
    using occupied_place [OF that(2)] that(1) assms by (auto simp: not_buried distinct_map dest: inj_onD)
  then show ?thesis by (simp add: not_buried)
qed

text \<open>C2. Where a store may go. The slot the selector returns is an empty, unspoken-for, physical slot of the lane that a robot can
  reach, the deepest such slot that walls in nobody; putting any bin there leaves every bin that another live order is coming for, and
  that could be reached, reachable. The lane is reported closed by a claim exactly when slots were free and each of them would wall in
  such a bin, and as full exactly when no slot was free.\<close>

theorem store_slot_safe:
  assumes "distinct (map nd_id (fl_nodes f))"
  shows "case FindStoreSlotInLaneExcluding f lane ord of
      StoreSlot n \<Rightarrow> n \<in> set (fl_nodes f) \<and> nd_parent n = Some lane \<and> \<not> nd_synthetic n \<and> \<not> occupied f n \<and> ReachableSQL f n \<and> \<not> spoken_for f ord n \<and>
        (\<forall>c\<in>set (fl_nodes f). store_candidate f lane ord True c \<longrightarrow> depth0 c \<le> depth0 n) \<and>
        (\<forall>b held x q. held \<in> set (fl_nodes f) \<and> x \<in> set (fl_bins f) \<and> sb_node x = Some (nd_id held) \<and> q \<in> set (fl_orders f) \<and>
           coming_for q held x \<and> fo_id q \<noteq> ord \<and> live_order q \<and> ReachableSQL f held \<longrightarrow> ReachableSQL (place b (nd_id n) f) held)
    | LaneClosedByClaim \<Rightarrow> (\<exists>c\<in>set (fl_nodes f). store_candidate f lane ord False c) \<and>
        (\<forall>c\<in>set (fl_nodes f). store_candidate f lane ord False c \<longrightarrow> walls_in f ord c)
    | NoEmptySlot \<Rightarrow> (\<forall>c\<in>set (fl_nodes f). \<not> store_candidate f lane ord False c)"
proof (cases "findStoreSlot f lane ord True")
  case (Some n)
  then have n: "n \<in> set (fl_nodes f)" "store_candidate f lane ord True n"
    and deepest: "\<forall>c\<in>set (fl_nodes f). store_candidate f lane ord True c \<longrightarrow> depth0 c \<le> depth0 n"
    unfolding findStoreSlot_def by (auto dest: best_row_Some)
  have "ReachableSQL (place b (nd_id n) f) held"
    if "held \<in> set (fl_nodes f)" "x \<in> set (fl_bins f)" "sb_node x = Some (nd_id held)" "q \<in> set (fl_orders f)"
      "coming_for q held x" "fo_id q \<noteq> ord" "live_order q" "ReachableSQL f held" for b held x q
  proof -
    have "\<not> walls_in f ord n" using n(2) by (simp add: store_candidate_def)
    then have "\<not> ShallowerInSameLane n held" using that by (auto simp: walls_in_def list_ex_iff)
    then show ?thesis using reachable_place [OF assms n(1) that(8)] by simp
  qed
  then show ?thesis using n deepest Some by (auto simp: FindStoreSlotInLaneExcluding_def store_candidate_def)
next
  case None
  then have shut: "store_candidate f lane ord False c \<Longrightarrow> walls_in f ord c" if "c \<in> set (fl_nodes f)" for c
    using that unfolding findStoreSlot_def best_row_None by (auto simp: store_candidate_def)
  show ?thesis
  proof (cases "findStoreSlot f lane ord False")
    case None
    then show ?thesis using \<open>findStoreSlot f lane ord True = None\<close>
      by (simp add: FindStoreSlotInLaneExcluding_def) (simp add: findStoreSlot_def best_row_None)
  next
    case (Some m)
    then have "m \<in> set (fl_nodes f) \<and> store_candidate f lane ord False m" unfolding findStoreSlot_def by (auto dest: best_row_Some)
    then show ?thesis using Some None shut by (auto simp: FindStoreSlotInLaneExcluding_def)
  qed
qed

theorem store_slot_safe_witness:
  "FindStoreSlotInLane two_lanes 2 = StoreSlot (node_row 4 ''A2'' (Some 2) (Some 2) '''') \<and>
   ReachableSQL (place 99 4 two_lanes) (node_row 7 ''B2'' (Some 6) (Some 2) '''') \<and>
   FindStoreSlotInLane two_lanes 6 = LaneClosedByClaim \<and> walls_in two_lanes 0 (node_row 8 ''B1'' (Some 6) (Some 1) '''')"
proof -
  let ?held = "node_row 7 ''B2'' (Some 6) (Some 2) ''''" and ?front = "node_row 8 ''B1'' (Some 6) (Some 1) ''''"
  have d: "distinct (map nd_id (fl_nodes two_lanes))" using two_lanes_rows by (simp add: rows_fk_def)
  have slot: "FindStoreSlotInLaneExcluding two_lanes 2 0 = StoreSlot (node_row 4 ''A2'' (Some 2) (Some 2) '''')" by code_simp
  have shut: "FindStoreSlotInLaneExcluding two_lanes 6 0 = LaneClosedByClaim" by code_simp
  have front: "store_candidate two_lanes 6 0 False ?front" "?front \<in> set (fl_nodes two_lanes)" by code_simp+
  let ?q = "\<lparr>fo_id = 40, fo_status = StatusDispatched, fo_bin = Some 11, fo_source = ''B2'', fo_delivery = ''LINE'', fo_parent = None\<rparr>"
  have held: "?held \<in> set (fl_nodes two_lanes)" "bin_at 11 7 90 (Some 40) \<in> set (fl_bins two_lanes)" "?q \<in> set (fl_orders two_lanes)"
    "sb_node (bin_at 11 7 90 (Some 40)) = Some (nd_id ?held)" "coming_for ?q ?held (bin_at 11 7 90 (Some 40))" "live_order ?q"
    "ReachableSQL two_lanes ?held" "fo_id ?q \<noteq> 0" by code_simp+
  have "nd_id (node_row 4 ''A2'' (Some 2) (Some 2) '''') = 4" by (simp add: node_row_def)
  then have "ReachableSQL (place 99 4 two_lanes) ?held"
    using store_slot_safe [OF d, of 2 0] held unfolding slot store_slot.case by metis
  moreover have "walls_in two_lanes 0 ?front" using store_slot_safe [OF d, of 6 0] front unfolding shut store_slot.case by blast
  ultimately show ?thesis using slot shut by (simp add: FindStoreSlotInLane_def)
qed

end
