(* ===== verification/Capacity.thy ===== *)
theory Capacity
  imports Lanes
begin

text \<open>
  The gate that asks, before an order is dispatched, whether its destination can take a bin
  (\<^verbatim>\<open>dispatch/capacity.go\<close>).  The gate reads through an interface of six queries, each of which may fail;
  the locale \<^verbatim>\<open>capacity_reads\<close> is that interface with its contract, that a query which answers answers
  the truth about the floor, and it is interpreted on the floor's own queries under any pattern of
  failures.  The theory shows that the gate fails closed, that it names the real reason, and exactly
  when it lets an order through.
\<close>

section \<open>The interface\<close>

record capacity_db =
  cd_node :: "string \<Rightarrow> unit + node option"
  cd_bins :: "node_id \<Rightarrow> nat option"
  cd_inflight :: "string \<Rightarrow> order_id \<Rightarrow> nat option"
  cd_children :: "node_id \<Rightarrow> node list option"
  cd_levels :: "node_id \<Rightarrow> MaintainLevel list option"
  cd_empties :: "string \<Rightarrow> node_id \<Rightarrow> nat option"

section \<open>The gate\<close>

text \<open>No block stands for being let through.\<close>

type_synonym CapacityBlock = "(QueueCause \<times> QueueParams) option"

fun level_totals :: "capacity_db \<Rightarrow> node_id \<Rightarrow> MaintainLevel list \<Rightarrow> (int \<times> int) option" where
  "level_totals db g [] = Some (0, 0)"
| "level_totals db g (l # ls) = (case cd_empties db (ml_code l) g of
       None \<Rightarrow> None
     | Some n \<Rightarrow> (case level_totals db g ls of None \<Rightarrow> None | Some (want, held) \<Rightarrow> Some (want + ml_want l, held + int n)))"

definition ngrpAtDeclaredLevel :: "capacity_db \<Rightarrow> node_id \<Rightarrow> int option \<Rightarrow> bool option" where
  "ngrpAtDeclaredLevel db g binType = (case cd_levels db g of
       None \<Rightarrow> None
     | Some levels \<Rightarrow> if levels = [] then Some False
         else (case binType of
             Some t \<Rightarrow> (case List.find (\<lambda>l. ml_type l = t) levels of
                 None \<Rightarrow> Some False
               | Some l \<Rightarrow> (case cd_empties db (ml_code l) g of None \<Rightarrow> None | Some held \<Rightarrow> Some (ml_want l \<le> int held)))
           | None \<Rightarrow> (case level_totals db g levels of None \<Rightarrow> None | Some (want, held) \<Rightarrow> Some (want \<le> held))))"

text \<open>What one child tells: unreadable, taken or free.\<close>

datatype child_state = ChildUnreadable | ChildTaken | ChildFree

definition child_state_of :: "capacity_db \<Rightarrow> order_id \<Rightarrow> node \<Rightarrow> child_state" where
  "child_state_of db excl c = (case cd_bins db (nd_id c) of
       None \<Rightarrow> ChildUnreadable
     | Some k \<Rightarrow> if 0 < k then ChildTaken
         else (case cd_inflight db (nd_name c) excl of
             None \<Rightarrow> ChildUnreadable
           | Some m \<Rightarrow> if 0 < m then ChildTaken else ChildFree))"

definition at_destination :: "string \<Rightarrow> QueueParams" where
  "at_destination dest = no_params\<lparr>qp_destination := dest\<rparr>"

definition checkNGRPCapacity :: "capacity_db \<Rightarrow> node \<Rightarrow> string \<Rightarrow> order_id \<Rightarrow> int option \<Rightarrow> CapacityBlock" where
  "checkNGRPCapacity db g name excl binType = (let params = at_destination name in
     case ngrpAtDeclaredLevel db (nd_id g) binType of
       None \<Rightarrow> Some (CauseCapacityCheckFailed, params)
     | Some True \<Rightarrow> Some (CauseNGRPAtLevel, params\<lparr>qp_at_level := True\<rparr>)
     | Some False \<Rightarrow> (case cd_children db (nd_id g) of
           None \<Rightarrow> Some (CauseCapacityCheckFailed, params)
         | Some children \<Rightarrow> (let states = map (child_state_of db excl) (filter (\<lambda>c. nd_enabled c \<and> \<not> nd_synthetic c) children) in
             if children = [] \<or> states = [] then None
             else if ChildFree \<in> set states then None
             else if ChildUnreadable \<in> set states then Some (CauseCapacityCheckFailed, params)
             else Some (CauseNGRPFull, params))))"

definition CheckDropoffCapacityForType :: "capacity_db \<Rightarrow> string \<Rightarrow> order_id \<Rightarrow> int option \<Rightarrow> CapacityBlock" where
  "CheckDropoffCapacityForType db dest excl binType = (if dest = '''' then None else let params = at_destination dest in
     case cd_node db dest of
       Inl _ \<Rightarrow> Some (CauseCapacityCheckFailed, params)
     | Inr None \<Rightarrow> None
     | Inr (Some n) \<Rightarrow>
         if nd_synthetic n then (if nd_class n = NodeClassNGRP then checkNGRPCapacity db n dest excl binType else None)
         else (case cd_bins db (nd_id n) of
             None \<Rightarrow> Some (CauseCapacityCheckFailed, params)
           | Some k \<Rightarrow> if 0 < k then Some (CauseDropoffOccupied, params\<lparr>qp_blocking := int k\<rparr>)
               else (case cd_inflight db dest excl of
                   None \<Rightarrow> Some (CauseCapacityCheckFailed, params)
                 | Some m \<Rightarrow> if 0 < m then Some (CauseDropoffInflight, params\<lparr>qp_inbound := int m\<rparr>) else None)))"

definition CheckDropoffCapacity :: "capacity_db \<Rightarrow> string \<Rightarrow> order_id \<Rightarrow> CapacityBlock" where
  "CheckDropoffCapacity db dest excl = CheckDropoffCapacityForType db dest excl None"

section \<open>The floor's own queries, some of which fail\<close>

datatype read = ReadNode string | ReadBins node_id | ReadInflight string | ReadChildren node_id | ReadLevels node_id | ReadEmpties string

definition floor_capacity :: "(read \<Rightarrow> bool) \<Rightarrow> floor \<Rightarrow> capacity_db" where
  "floor_capacity fails f = \<lparr>
     cd_node = \<lambda>name. if fails (ReadNode name) then Inl () else Inr (GetByDotName f name),
     cd_bins = \<lambda>i. if fails (ReadBins i) then None else Some (CountBinsByNode f i),
     cd_inflight = \<lambda>name excl. if fails (ReadInflight name) then None else Some (CountInFlightByDeliveryNodeExcluding f name excl),
     cd_children = \<lambda>i. if fails (ReadChildren i) then None else Some (ListChildren f i),
     cd_levels = \<lambda>i. if fails (ReadLevels i) then None else Some (ListMaintainLevels f i),
     cd_empties = \<lambda>code i. if fails (ReadEmpties code) then None else Some (CountEmptyOfTypeInGroup f code i)\<rparr>"

section \<open>What a truthful interface gives\<close>

text \<open>The level question with every query answered.\<close>

definition level_reached :: "floor \<Rightarrow> node_id \<Rightarrow> int option \<Rightarrow> bool" where
  "level_reached f g binType = (let levels = ListMaintainLevels f g in levels \<noteq> [] \<and>
     (case binType of
        Some t \<Rightarrow> (case List.find (\<lambda>l. ml_type l = t) levels of None \<Rightarrow> False | Some l \<Rightarrow> ml_want l \<le> int (CountEmptyOfTypeInGroup f (ml_code l) g))
      | None \<Rightarrow> sum_list (map ml_want levels) \<le> sum_list (map (\<lambda>l. int (CountEmptyOfTypeInGroup f (ml_code l) g)) levels)))"

definition room_at :: "floor \<Rightarrow> order_id \<Rightarrow> node \<Rightarrow> string \<Rightarrow> bool" where
  "room_at f excl n name \<longleftrightarrow> CountBinsByNode f (nd_id n) = 0 \<and> CountInFlightByDeliveryNodeExcluding f name excl = 0"

definition group_room :: "floor \<Rightarrow> order_id \<Rightarrow> node \<Rightarrow> bool" where
  "group_room f excl g = (let cs = filter (\<lambda>c. nd_enabled c \<and> \<not> nd_synthetic c) (ListChildren f (nd_id g)) in
     cs = [] \<or> list_ex (\<lambda>c. room_at f excl c (nd_name c)) cs)"

definition unanswered :: "capacity_db \<Rightarrow> bool" where
  "unanswered db \<longleftrightarrow> (\<exists>name. cd_node db name = Inl ()) \<or> (\<exists>i. cd_bins db i = None) \<or> (\<exists>name excl. cd_inflight db name excl = None) \<or>
     (\<exists>i. cd_children db i = None) \<or> (\<exists>i. cd_levels db i = None) \<or> (\<exists>code i. cd_empties db code i = None)"

lemma totals_unanswered: "level_totals db g ls = None \<Longrightarrow> unanswered db"
  by (induction ls) (auto simp: unanswered_def split: option.splits)

lemma level_unanswered: "ngrpAtDeclaredLevel db g t = None \<Longrightarrow> unanswered db"
  by (auto simp: ngrpAtDeclaredLevel_def split: option.splits if_splits dest: totals_unanswered) (auto simp: unanswered_def)

lemma child_unanswered: "child_state_of db excl c = ChildUnreadable \<Longrightarrow> unanswered db"
  by (auto simp: child_state_of_def unanswered_def split: option.splits if_splits)

locale capacity_reads =
  fixes db :: capacity_db and f :: floor
  assumes node_truth: "cd_node db name = Inr r \<Longrightarrow> r = GetByDotName f name"
    and bins_truth: "cd_bins db i = Some k \<Longrightarrow> k = CountBinsByNode f i"
    and inflight_truth: "cd_inflight db name excl = Some k \<Longrightarrow> k = CountInFlightByDeliveryNodeExcluding f name excl"
    and children_truth: "cd_children db i = Some cs \<Longrightarrow> cs = ListChildren f i"
    and levels_truth: "cd_levels db i = Some ls \<Longrightarrow> ls = ListMaintainLevels f i"
    and empties_truth: "cd_empties db code i = Some k \<Longrightarrow> k = CountEmptyOfTypeInGroup f code i"
begin

lemma totals_truth:
  "level_totals db g ls = Some (want, held) \<Longrightarrow>
     want = sum_list (map ml_want ls) \<and> held = sum_list (map (\<lambda>l. int (CountEmptyOfTypeInGroup f (ml_code l) g)) ls)"
  by (induction ls arbitrary: want held) (auto split: option.splits dest: empties_truth)

lemma level_truth:
  assumes "ngrpAtDeclaredLevel db g t = Some b"
  shows "b = level_reached f g t"
proof -
  obtain ls where ls: "cd_levels db g = Some ls" using assms by (auto simp: ngrpAtDeclaredLevel_def split: option.splits)
  have eq: "ListMaintainLevels f g = ls" using levels_truth [OF ls] by simp
  show ?thesis using assms unfolding ngrpAtDeclaredLevel_def level_reached_def Let_def ls eq
    by (auto split: option.splits if_splits dest: empties_truth totals_truth)
qed

lemma child_free: "child_state_of db excl c = ChildFree \<Longrightarrow> room_at f excl c (nd_name c)"
  by (auto simp: child_state_of_def room_at_def split: option.splits if_splits dest: bins_truth inflight_truth)

lemma child_taken: "child_state_of db excl c = ChildTaken \<Longrightarrow> \<not> room_at f excl c (nd_name c)"
  by (auto simp: child_state_of_def room_at_def split: option.splits if_splits dest: bins_truth inflight_truth)

lemma group_gate:
  "case checkNGRPCapacity db g name excl t of
      None \<Rightarrow> \<not> level_reached f (nd_id g) t \<and> group_room f excl g
    | Some (cause, p) \<Rightarrow> qp_destination p = name \<and>
        (cause = CauseNGRPAtLevel \<and> level_reached f (nd_id g) t \<or>
         cause = CauseNGRPFull \<and> \<not> level_reached f (nd_id g) t \<and> \<not> group_room f excl g \<or> cause = CauseCapacityCheckFailed \<and> unanswered db)"
proof (cases "ngrpAtDeclaredLevel db (nd_id g) t")
  case None
  then show ?thesis using level_unanswered [OF None] by (simp add: checkNGRPCapacity_def at_destination_def Let_def)
next
  case (Some b)
  note level = level_truth [OF Some]
  show ?thesis
  proof (cases "b \<or> cd_children db (nd_id g) = None")
    case True
    moreover have "unanswered db" if "cd_children db (nd_id g) = None" using that by (auto simp: unanswered_def)
    ultimately show ?thesis using Some level by (auto simp: checkNGRPCapacity_def at_destination_def Let_def split: bool.splits option.splits)
  next
    case False
    then obtain children where ch: "cd_children db (nd_id g) = Some children" by blast
    let ?cs = "filter (\<lambda>c. nd_enabled c \<and> \<not> nd_synthetic c) children"
    let ?states = "map (child_state_of db excl) ?cs"
    have kids: "children = ListChildren f (nd_id g)" by (rule children_truth [OF ch])
    have free: "group_room f excl g" if open_child: "ChildFree \<in> set ?states"
    proof -
      obtain c where c: "c \<in> set ?cs" "ChildFree = child_state_of db excl c" using open_child unfolding set_map by (rule imageE)
      show ?thesis using c(1) child_free [OF c(2) [symmetric]] unfolding group_room_def kids [symmetric] Let_def list_ex_iff by blast
    qed
    have none: "group_room f excl g" if "?cs = []" using that by (simp add: group_room_def kids)
    have full: "\<not> group_room f excl g" if "?cs \<noteq> []" "ChildFree \<notin> set ?states" "ChildUnreadable \<notin> set ?states"
    proof -
      have "\<not> room_at f excl c (nd_name c)" if "c \<in> set ?cs" for c
      proof -
        have "child_state_of db excl c \<in> set ?states" unfolding set_map using that by (rule imageI)
        then show ?thesis
          using \<open>ChildFree \<notin> set ?states\<close> \<open>ChildUnreadable \<notin> set ?states\<close> child_taken [of excl c] by (metis child_state.exhaust)
      qed
      then show ?thesis using \<open>?cs \<noteq> []\<close> unfolding group_room_def kids [symmetric] Let_def list_ex_iff by blast
    qed
    have gate: "checkNGRPCapacity db g name excl t = (if children = [] \<or> ?states = [] then None else if ChildFree \<in> set ?states then None
        else if ChildUnreadable \<in> set ?states then Some (CauseCapacityCheckFailed, at_destination name) else Some (CauseNGRPFull, at_destination name))"
      using Some False ch by (simp add: checkNGRPCapacity_def Let_def)
    have shut: "\<not> level_reached f (nd_id g) t" using False level by simp
    consider "?cs = []" | "?cs \<noteq> []" "ChildFree \<in> set ?states" | "?cs \<noteq> []" "ChildFree \<notin> set ?states" by blast
    then show ?thesis
    proof cases
      case 1
      then have "checkNGRPCapacity db g name excl t = None" unfolding gate by simp
      then show ?thesis using shut none [OF 1] by simp
    next
      case 2
      then have "checkNGRPCapacity db g name excl t = None" unfolding gate by simp
      then show ?thesis using shut free [OF 2(2)] by simp
    next
      case 3
      then have "children \<noteq> []" by auto
      with 3 have "checkNGRPCapacity db g name excl t =
        (if ChildUnreadable \<in> set ?states then Some (CauseCapacityCheckFailed, at_destination name) else Some (CauseNGRPFull, at_destination name))"
        unfolding gate by simp
      moreover have "unanswered db" if lost: "ChildUnreadable \<in> set ?states"
      proof -
        obtain c where "ChildUnreadable = child_state_of db excl c" using lost unfolding set_map by (rule imageE)
        then show ?thesis using child_unanswered [of db excl c] by simp
      qed
      ultimately show ?thesis using shut full [OF 3] by (simp add: at_destination_def)
    qed
  qed
qed

lemma node_gate:
  assumes "GetByDotName f dest = Some n" and "\<not> nd_synthetic n" and "dest \<noteq> ''''"
  shows "case CheckDropoffCapacityForType db dest excl t of
      None \<Rightarrow> room_at f excl n dest
    | Some (cause, p) \<Rightarrow> qp_destination p = dest \<and>
        (cause = CauseDropoffOccupied \<and> 0 < qp_blocking p \<and> qp_blocking p = int (CountBinsByNode f (nd_id n)) \<or>
         cause = CauseDropoffInflight \<and> CountBinsByNode f (nd_id n) = 0 \<and> 0 < qp_inbound p \<and>
           qp_inbound p = int (CountInFlightByDeliveryNodeExcluding f dest excl) \<or>
         cause = CauseCapacityCheckFailed \<and> unanswered db)"
proof (cases "cd_node db dest")
  case (Inl e)
  then have "unanswered db" by (auto simp: unanswered_def)
  then show ?thesis using assms(3) Inl by (simp add: CheckDropoffCapacityForType_def Let_def at_destination_def)
next
  case (Inr r)
  have r: "r = Some n" using node_truth [OF Inr] assms(1) by simp
  note gate = CheckDropoffCapacityForType_def Let_def at_destination_def room_at_def
  show ?thesis
  proof (cases "cd_bins db (nd_id n)")
    case None
    then have "unanswered db" by (auto simp: unanswered_def)
    then show ?thesis using Inr r assms(2,3) None by (simp add: gate)
  next
    case (Some k)
    note bins = bins_truth [OF Some]
    show ?thesis
    proof (cases "cd_inflight db dest excl")
      case None
      then have "unanswered db" by (auto simp: unanswered_def)
      then show ?thesis using Inr r assms(2,3) Some bins None by (simp add: gate)
    next
      case flights: (Some m)
      then show ?thesis using Inr r assms(2,3) Some bins inflight_truth [OF flights] by (simp add: gate)
    qed
  qed
qed

end

interpretation floor_reads: capacity_reads "floor_capacity fails f" f for fails f
  by unfold_locales (auto simp: floor_capacity_def split: if_splits)

lemma floor_unanswered: "unanswered (floor_capacity fails f) \<Longrightarrow> \<exists>r. fails r"
  by (auto simp: unanswered_def floor_capacity_def split: if_splits)



end
