(* ===== verification/Resolver.thy ===== *)
theory Resolver
  imports Capacity
begin

text \<open>
  How an order for a synthetic node is given a concrete one (\<^verbatim>\<open>dispatch/binresolver\<close>): the retrieve
  strategies of a node group with their verdict on buried bins, the two store strategies, and the
  default resolver around them.  A database error inside a scan, which the code logs and skips, is not
  modelled.  The theory shows that strict first-in-first-out really takes the oldest bin of a
  single-file group or asks for it to be dug out, that a store takes the best of the slots that are safe
  to take, and that the resolver and the capacity gate agree on the declared level.
\<close>

section \<open>Results\<close>

record ResolveResult =
  rr_node :: "node option"
  rr_bin :: "bin option"

datatype resolve_error =
    BuriedError bin node node_id
  | StructuralError string string string
  | NoBinInGroup string
  | NoSlotInGroup string
  | NoChildren string
  | NoChildBin
  | NoChildSlot
  | NoEnabledChild string

datatype ResolveMode = ResolveModeRetrieve | ResolveModeStore | ResolveModeOther

section \<open>Helpers\<close>

definition isBinAvailableForRetrieve :: "string \<Rightarrow> bin \<Rightarrow> bool" where
  "isBinAvailableForRetrieve code b =
     (if sb_claimed b \<noteq> None \<or> sb_locked b \<or> \<not> sb_confirmed b then False
      else if \<not> Sourceable (sb_status b) \<or> sb_status b = BinStatusStaged then False
      else if code \<noteq> '''' \<and> sb_payload b \<noteq> code then False else True)"

definition BinUnavailableReason :: "floor \<Rightarrow> bin \<Rightarrow> string \<Rightarrow> string" where
  "BinUnavailableReason f b code =
     (case sb_claimed b of
        Some q \<Rightarrow> ''already claimed by order '' @ format_int q
      | None \<Rightarrow>
          if pending_on_bin f (sb_id b) then ''pending reservation held''
          else if sb_locked b then ''locked for active handling''
          else if BlocksPickup (sb_status b) then ''status='' @ [CHR 0x22] @ sb_status b @ [CHR 0x22] @ '' rejects pickup''
          else if code \<noteq> '''' \<and> sb_payload b \<noteq> '''' \<and> sb_payload b \<noteq> code
            then ''payload '' @ [CHR 0x22] @ sb_payload b @ [CHR 0x22] @ '' does not match order payload '' @ [CHR 0x22] @ code @ [CHR 0x22]
          else '''')"

definition IsAvailableAtConcreteNode :: "floor \<Rightarrow> bin \<Rightarrow> string \<Rightarrow> bool" where
  "IsAvailableAtConcreteNode f b code = (BinUnavailableReason f b code = '''')"

record storageCandidate =
  sc_node :: node
  sc_match :: bool
  sc_count :: nat
  sc_depth :: int
  sc_compatible :: bool

definition candidateBetter :: "storageCandidate \<Rightarrow> storageCandidate \<Rightarrow> bool" where
  "candidateBetter c best =
     (if sc_match c \<noteq> sc_match best then sc_match c
      else if sc_depth c \<noteq> sc_depth best then sc_depth best < sc_depth c
      else if sc_compatible c \<noteq> sc_compatible best then sc_compatible c
      else sc_count c < sc_count best)"

fun bestStorageCandidate :: "storageCandidate list \<Rightarrow> storageCandidate option" where
  "bestStorageCandidate [] = None"
| "bestStorageCandidate (c # cs) = Some (foldl (\<lambda>best c. if candidateBetter c best then c else best) c cs)"

definition getGroupAlgorithm :: "floor \<Rightarrow> node_id \<Rightarrow> string \<Rightarrow> string \<Rightarrow> string" where
  "getGroupAlgorithm f g key dflt =
     (if GetNodeProperty f g ''asrs_enabled'' = ''off'' then dflt
      else let v = GetNodeProperty f g key in if v = '''' then dflt else v)"

section \<open>Retrieve\<close>

type_synonym buried = "(bin \<times> node \<times> node_id) option"

definition lane_open :: "node \<Rightarrow> bool" where
  "lane_open c \<longleftrightarrow> nd_enabled c \<and> nd_class c = NodeClassLANE"

definition keep_older :: "(bin \<times> 'a) option \<Rightarrow> bin \<times> 'a \<Rightarrow> (bin \<times> 'a) option" where
  "keep_older best x = (case best of None \<Rightarrow> Some x | Some y \<Rightarrow> if binTimestamp (fst x) < binTimestamp (fst y) then Some x else best)"

definition checkOldestBuried :: "floor \<Rightarrow> node list \<Rightarrow> string \<Rightarrow> buried" where
  "checkOldestBuried f children code = foldl (\<lambda>best c. if \<not> lane_open c then best
     else case FindOldestBuriedBin f (nd_id c) code of None \<Rightarrow> best | Some (b, slot) \<Rightarrow> keep_older best (b, slot, nd_id c)) None children"

fun checkShallowestBuried :: "floor \<Rightarrow> node list \<Rightarrow> string \<Rightarrow> buried" where
  "checkShallowestBuried f [] code = None"
| "checkShallowestBuried f (c # cs) code = (if \<not> lane_open c then checkShallowestBuried f cs code
     else case FindBuriedBin f (nd_id c) code of None \<Rightarrow> checkShallowestBuried f cs code | Some (b, slot) \<Rightarrow> Some (b, slot, nd_id c))"

record retrieveStrategy =
  rs_firstMatch :: bool
  rs_skipBuriedIfAccessible :: bool
  rs_checkBuried :: "(floor \<Rightarrow> node list \<Rightarrow> string \<Rightarrow> buried) option"
  rs_shouldTriggerBuried :: "bin \<Rightarrow> bin option \<Rightarrow> bool"

definition RetrieveFIFO :: string where "RetrieveFIFO = ''FIFO''"
definition RetrieveCOST :: string where "RetrieveCOST = ''COST''"
definition RetrieveFAVL :: string where "RetrieveFAVL = ''FAVL''"

definition strategyFIFO :: retrieveStrategy where
  "strategyFIFO = \<lparr>rs_firstMatch = False, rs_skipBuriedIfAccessible = False, rs_checkBuried = Some checkOldestBuried,
     rs_shouldTriggerBuried = \<lambda>buried acc. case acc of None \<Rightarrow> True | Some b \<Rightarrow> binTimestamp buried < binTimestamp b\<rparr>"

definition strategyCOST :: retrieveStrategy where
  "strategyCOST = \<lparr>rs_firstMatch = False, rs_skipBuriedIfAccessible = True, rs_checkBuried = Some checkShallowestBuried,
     rs_shouldTriggerBuried = \<lambda>buried acc. acc = None\<rparr>"

definition strategyFAVL :: retrieveStrategy where
  "strategyFAVL = \<lparr>rs_firstMatch = True, rs_skipBuriedIfAccessible = False, rs_checkBuried = None, rs_shouldTriggerBuried = \<lambda>_ _. False\<rparr>"

text \<open>The entry of a name that is no key of the map: every field zero.\<close>

definition strategyZero :: retrieveStrategy where
  "strategyZero = \<lparr>rs_firstMatch = False, rs_skipBuriedIfAccessible = False, rs_checkBuried = None, rs_shouldTriggerBuried = \<lambda>_ _. False\<rparr>"

definition retrieveStrategies :: "string \<Rightarrow> retrieveStrategy" where
  "retrieveStrategies algo = (if algo = RetrieveFIFO then strategyFIFO else if algo = RetrieveCOST then strategyCOST
     else if algo = RetrieveFAVL then strategyFAVL else strategyZero)"

text \<open>What one child offers, in the order the scan meets it.\<close>

definition child_offers :: "floor \<Rightarrow> string \<Rightarrow> node \<Rightarrow> (bin \<times> node option) list" where
  "child_offers f code c =
     (if \<not> nd_enabled c then []
      else if nd_class c = NodeClassLANE then (case FindSourceBinInLane f (nd_id c) code of None \<Rightarrow> [] | Some b \<Rightarrow> [(b, slot_of f b)])
      else if \<not> nd_synthetic c then map (\<lambda>b. (b, Some c)) (filter (isBinAvailableForRetrieve code) (ListBinsByNode f (nd_id c)))
      else [])"

definition classifyEmptyGroup :: "floor \<Rightarrow> node \<Rightarrow> string \<Rightarrow> resolve_error" where
  "classifyEmptyGroup f g code = (let children = ListChildren f (nd_id g) in
     if \<not> list_ex nd_enabled children then StructuralError (nd_name g) code ''group has no enabled child nodes''
     else if code \<noteq> '''' \<and>
       \<not> list_ex (\<lambda>c. nd_enabled c \<and> (GetEffectivePayloads f (nd_id c) = [] \<or> code \<in> set (GetEffectivePayloads f (nd_id c)))) children
     then StructuralError (nd_name g) code ''no child node accepts this payload type''
     else NoBinInGroup (nd_name g))"

definition scanForBestBin :: "floor \<Rightarrow> node \<Rightarrow> string \<Rightarrow> retrieveStrategy \<Rightarrow> DigAsker \<Rightarrow> resolve_error + ResolveResult" where
  "scanForBestBin f g code s asker =
     (let children = ListChildNodesUnlocked f (nd_id g) asker;
          offers = concat (map (child_offers f code) children)
      in if rs_firstMatch s \<and> offers \<noteq> [] then Inr \<lparr>rr_node = snd (hd offers), rr_bin = Some (fst (hd offers))\<rparr>
         else
           let best = foldl keep_older None offers;
               found = (case best of Some (b, n) \<Rightarrow> Inr \<lparr>rr_node = n, rr_bin = Some b\<rparr> | None \<Rightarrow> Inl (classifyEmptyGroup f g code))
           in case rs_checkBuried s of
                None \<Rightarrow> found
              | Some check \<Rightarrow>
                  if rs_skipBuriedIfAccessible s \<and> best \<noteq> None then found
                  else (case check f children code of
                      None \<Rightarrow> found
                    | Some (b, slot, lane) \<Rightarrow>
                        if rs_shouldTriggerBuried s b (map_option fst best) then Inl (BuriedError b slot lane) else found))"

definition ResolveRetrieve :: "floor \<Rightarrow> node \<Rightarrow> string \<Rightarrow> DigAsker \<Rightarrow> resolve_error + ResolveResult" where
  "ResolveRetrieve f g code asker =
     scanForBestBin f g code (retrieveStrategies (getGroupAlgorithm f (nd_id g) ''retrieve_algorithm'' RetrieveFIFO)) asker"

section \<open>Store\<close>

definition PropResolveAround :: string where "PropResolveAround = ''resolve_around''"
definition StoreLKND :: string where "StoreLKND = ''LKND''"
definition StoreDPTH :: string where "StoreDPTH = ''DPTH''"

definition binTypeAllowed :: "floor \<Rightarrow> node_id \<Rightarrow> int \<Rightarrow> bool" where
  "binTypeAllowed f i t = (let bts = GetEffectiveBinTypes f i in bts = [] \<or> t \<in> set bts)"

definition type_fits :: "floor \<Rightarrow> int option \<Rightarrow> node_id \<Rightarrow> bool" where
  "type_fits f binType i = (case binType of None \<Rightarrow> True | Some t \<Rightarrow> binTypeAllowed f i t)"

definition lane_takes :: "floor \<Rightarrow> string \<Rightarrow> int option \<Rightarrow> node \<Rightarrow> bool" where
  "lane_takes f code binType c \<longleftrightarrow>
     (code = '''' \<or> GetEffectivePayloads f (nd_id c) = [] \<or> code \<in> set (GetEffectivePayloads f (nd_id c))) \<and> type_fits f binType (nd_id c)"

definition holds_payload :: "floor \<Rightarrow> string \<Rightarrow> node_id \<Rightarrow> bool" where
  "holds_payload f code i = (code \<noteq> '''' \<and> list_ex (\<lambda>b. sb_payload b = code) (ListBinsByNode f i))"

definition direct_free :: "floor \<Rightarrow> node \<Rightarrow> bool" where
  "direct_free f c \<longleftrightarrow> nd_claimed c = None \<and> CountBinsByNode f (nd_id c) + CountActiveByDeliveryNode f (nd_name c) < 1"

definition lknd_candidate :: "floor \<Rightarrow> node_id \<Rightarrow> string \<Rightarrow> int option \<Rightarrow> node \<Rightarrow> storageCandidate option" where
  "lknd_candidate f g code binType c =
     (if \<not> nd_enabled c then None
      else if nd_class c = NodeClassLANE then
        (if \<not> lane_takes f code binType c then None
         else case FindStoreSlotInLane f (nd_id c) of
             StoreSlot slot \<Rightarrow> Some \<lparr>sc_node = slot, sc_match = list_ex (\<lambda>s. holds_payload f code (nd_id s)) (ListLaneSlots f (nd_id c)),
               sc_count = CountBinsInLane f (nd_id c), sc_depth = depth0 c,
               sc_compatible = (GetNodeProperty f g PropResolveAround = ''on'' \<and> LaneAcceptsInbound f (nd_id c))\<rparr>
           | _ \<Rightarrow> None)
      else if \<not> nd_synthetic c then
        (if \<not> direct_free f c then None
         else if \<not> type_fits f binType (nd_id c) then None
         else Some \<lparr>sc_node = c, sc_match = holds_payload f code (nd_id c), sc_count = CountBinsByNode f (nd_id c), sc_depth = depth0 c, sc_compatible = False\<rparr>)
      else None)"

definition resolveStoreLKND :: "floor \<Rightarrow> node \<Rightarrow> string \<Rightarrow> int option \<Rightarrow> DigAsker \<Rightarrow> resolve_error + ResolveResult" where
  "resolveStoreLKND f g code binType asker =
     (case bestStorageCandidate (List.map_filter (lknd_candidate f (nd_id g) code binType) (ListChildNodesUnlocked f (nd_id g) asker)) of
        None \<Rightarrow> Inl (NoSlotInGroup (nd_name g))
      | Some c \<Rightarrow> Inr \<lparr>rr_node = Some (sc_node c), rr_bin = None\<rparr>)"

fun dpth_lane :: "floor \<Rightarrow> string \<Rightarrow> int option \<Rightarrow> node list \<Rightarrow> node option" where
  "dpth_lane f code binType [] = None"
| "dpth_lane f code binType (c # cs) =
     (if \<not> lane_open c \<or> \<not> lane_takes f code binType c then dpth_lane f code binType cs
      else case FindStoreSlotInLane f (nd_id c) of StoreSlot slot \<Rightarrow> Some slot | _ \<Rightarrow> dpth_lane f code binType cs)"

definition resolveStoreDPTH :: "floor \<Rightarrow> node \<Rightarrow> string \<Rightarrow> int option \<Rightarrow> DigAsker \<Rightarrow> resolve_error + ResolveResult" where
  "resolveStoreDPTH f g code binType asker =
     (let children = ListChildNodesUnlocked f (nd_id g) asker in
      case dpth_lane f code binType children of
        Some slot \<Rightarrow> Inr \<lparr>rr_node = Some slot, rr_bin = None\<rparr>
      | None \<Rightarrow> (case select_row (\<lambda>c. nd_enabled c \<and> \<not> nd_synthetic c \<and> type_fits f binType (nd_id c) \<and> direct_free f c) children of
            Some c \<Rightarrow> Inr \<lparr>rr_node = Some c, rr_bin = None\<rparr>
          | None \<Rightarrow> Inl (NoSlotInGroup (nd_name g))))"

fun sum_levels :: "floor \<Rightarrow> node_id \<Rightarrow> MaintainLevel list \<Rightarrow> int \<Rightarrow> int \<Rightarrow> int \<times> int" where
  "sum_levels f g [] want held = (want, held)"
| "sum_levels f g (l # ls) want held = sum_levels f g ls (want + ml_want l) (held + int (CountEmptyOfTypeInGroup f (ml_code l) g))"

fun level_of_type :: "floor \<Rightarrow> node_id \<Rightarrow> int \<Rightarrow> MaintainLevel list \<Rightarrow> bool" where
  "level_of_type f g t [] = False"
| "level_of_type f g t (l # ls) = (if ml_type l \<noteq> t then level_of_type f g t ls else ml_want l \<le> int (CountEmptyOfTypeInGroup f (ml_code l) g))"

definition atDeclaredLevel :: "floor \<Rightarrow> node \<Rightarrow> int option \<Rightarrow> bool" where
  "atDeclaredLevel f g binType = (let levels = ListMaintainLevels f (nd_id g) in
     if levels = [] then False
     else case binType of Some t \<Rightarrow> level_of_type f (nd_id g) t levels
       | None \<Rightarrow> (case sum_levels f (nd_id g) levels 0 0 of (want, held) \<Rightarrow> want \<le> held))"

definition ResolveStore :: "floor \<Rightarrow> node \<Rightarrow> string \<Rightarrow> int option \<Rightarrow> DigAsker \<Rightarrow> resolve_error + ResolveResult" where
  "ResolveStore f g code binType asker =
     (if atDeclaredLevel f g binType then Inl (NoSlotInGroup (nd_name g))
      else if getGroupAlgorithm f (nd_id g) ''store_algorithm'' StoreLKND = StoreDPTH then resolveStoreDPTH f g code binType asker
      else resolveStoreLKND f g code binType asker)"

section \<open>The default resolver\<close>

definition resolveRetrieve :: "floor \<Rightarrow> node list \<Rightarrow> string \<Rightarrow> resolve_error + node" where
  "resolveRetrieve f children code =
     (case select_row (\<lambda>c. nd_enabled c \<and> list_ex (isBinAvailableForRetrieve code) (ListBinsByNode f (nd_id c))) children of
        Some c \<Rightarrow> Inr c | None \<Rightarrow> Inl NoChildBin)"

definition plain_candidate :: "floor \<Rightarrow> string \<Rightarrow> node \<Rightarrow> storageCandidate option" where
  "plain_candidate f code c =
     (if \<not> nd_enabled c \<or> nd_synthetic c then None
      else if 1 \<le> CountBinsByNode f (nd_id c) + CountActiveByDeliveryNode f (nd_name c) then None
      else Some \<lparr>sc_node = c, sc_match = holds_payload f code (nd_id c), sc_count = CountBinsByNode f (nd_id c), sc_depth = 0, sc_compatible = False\<rparr>)"

definition resolveStore :: "floor \<Rightarrow> node list \<Rightarrow> string \<Rightarrow> resolve_error + node" where
  "resolveStore f children code =
     (case bestStorageCandidate (List.map_filter (plain_candidate f code) children) of None \<Rightarrow> Inl NoChildSlot | Some c \<Rightarrow> Inr (sc_node c))"

definition on_node_result :: "resolve_error + node \<Rightarrow> resolve_error + ResolveResult" where
  "on_node_result r = (case r of Inl e \<Rightarrow> Inl e | Inr n \<Rightarrow> Inr \<lparr>rr_node = Some n, rr_bin = None\<rparr>)"

definition Resolve :: "floor \<Rightarrow> node \<Rightarrow> ResolveMode \<Rightarrow> string \<Rightarrow> int option \<Rightarrow> DigAsker \<Rightarrow> resolve_error + ResolveResult" where
  "Resolve f n mode code binType asker = (let children = ListChildren f (nd_id n) in
     if children = [] then Inl (NoChildren (nd_name n))
     else if nd_class n = NodeClassNGRP \<and> mode = ResolveModeRetrieve then ResolveRetrieve f n code asker
     else if nd_class n = NodeClassNGRP \<and> mode = ResolveModeStore then ResolveStore f n code binType asker
     else (case mode of
         ResolveModeRetrieve \<Rightarrow> on_node_result (resolveRetrieve f children code)
       | ResolveModeStore \<Rightarrow> on_node_result (resolveStore f children code)
       | ResolveModeOther \<Rightarrow> on_node_result (case select_row nd_enabled children of Some c \<Rightarrow> Inr c | None \<Rightarrow> Inl (NoEnabledChild (nd_name n)))))"

section \<open>The oldest of a list\<close>

lemma keep_older_some: "\<exists>y. foldl keep_older (Some x) xs = Some y"
  by (induction xs arbitrary: x) (auto simp: keep_older_def)

lemma keep_older_step: "keep_older (Some x) a = (if binTimestamp (fst a) < binTimestamp (fst x) then Some a else Some x)"
  by (simp add: keep_older_def)

lemma keep_older_fold:
  "foldl keep_older (Some x) xs = Some y \<Longrightarrow> y \<in> set (x # xs) \<and> (\<forall>z\<in>set (x # xs). binTimestamp (fst y) \<le> binTimestamp (fst z))"
proof (induction xs arbitrary: x)
  case (Cons a xs)
  show ?case
  proof (cases "binTimestamp (fst a) < binTimestamp (fst x)")
    case True
    then have "foldl keep_older (Some a) xs = Some y" using Cons.prems by (simp add: keep_older_step)
    from Cons.IH [OF this] show ?thesis using True by auto
  next
    case False
    then have "foldl keep_older (Some x) xs = Some y" using Cons.prems by (simp add: keep_older_step)
    from Cons.IH [OF this] show ?thesis using False by auto
  qed
qed simp

lemma oldest_None: "foldl keep_older None xs = None \<longleftrightarrow> xs = []"
  using keep_older_some [of "hd xs" "tl xs"] by (cases xs) (auto simp: keep_older_def)

lemma oldest_Some:
  "foldl keep_older None xs = Some y \<Longrightarrow> y \<in> set xs \<and> (\<forall>z\<in>set xs. binTimestamp (fst y) \<le> binTimestamp (fst z))"
  using keep_older_fold [of "hd xs" "tl xs" y] by (cases xs) (auto simp: keep_older_def)

lemma foldl_concat: "foldl g a (concat xss) = foldl (foldl g) a xss"
  by (induction xss arbitrary: a) auto

definition buried_offers :: "floor \<Rightarrow> string \<Rightarrow> node \<Rightarrow> (bin \<times> node \<times> node_id) list" where
  "buried_offers f code c = (if \<not> lane_open c then [] else case FindOldestBuriedBin f (nd_id c) code of None \<Rightarrow> [] | Some (b, slot) \<Rightarrow> [(b, slot, nd_id c)])"

lemma checkOldestBuried_offers: "checkOldestBuried f cs code = foldl keep_older None (concat (map (buried_offers f code) cs))"
proof -
  have "(\<lambda>best c. if \<not> lane_open c then best else case FindOldestBuriedBin f (nd_id c) code of None \<Rightarrow> best | Some (b, slot) \<Rightarrow> keep_older best (b, slot, nd_id c)) =
      (\<lambda>best c. foldl keep_older best (buried_offers f code c))"
    by (intro ext) (auto simp: buried_offers_def split: option.splits)
  then show ?thesis by (simp add: checkOldestBuried_def foldl_concat foldl_map)
qed

section \<open>What a group can give\<close>

definition child_retrievable :: "floor \<Rightarrow> string \<Rightarrow> node \<Rightarrow> bin \<Rightarrow> bool" where
  "child_retrievable f code c b \<longleftrightarrow> b \<in> set (fl_bins f) \<and> nd_enabled c \<and>
     (if nd_class c = NodeClassLANE then lane_source f (nd_id c) code b \<and> (buried_bin f b \<or> \<not> pending_on_bin f (sb_id b))
      else \<not> nd_synthetic c \<and> sb_node b = Some (nd_id c) \<and> isBinAvailableForRetrieve code b)"

definition must_dig :: "floor \<Rightarrow> node \<Rightarrow> bin \<Rightarrow> bool" where
  "must_dig f c b \<longleftrightarrow> nd_class c = NodeClassLANE \<and> buried_bin f b"

definition retrievable :: "floor \<Rightarrow> node \<Rightarrow> string \<Rightarrow> DigAsker \<Rightarrow> bin \<Rightarrow> bool" where
  "retrievable f g code asker b \<longleftrightarrow> (\<exists>c\<in>set (ListChildNodesUnlocked f (nd_id g) asker). child_retrievable f code c b)"

lemma unlocked_rows: "c \<in> set (ListChildNodesUnlocked f g asker) \<Longrightarrow> c \<in> set (fl_nodes f) \<and> nd_parent c = Some g"
  by (simp add: ListChildNodesUnlocked_def)

lemma lane_source_slot: "lane_source f lane code b \<Longrightarrow> \<exists>n. slot_of f b = Some n \<and> nd_parent n = Some lane"
  by (auto simp: lane_source_def split: option.splits)

lemma reachable_or_buried: "slot_of f b = Some n \<Longrightarrow> reachable_bin f b \<longleftrightarrow> \<not> buried_bin f b"
  by (simp add: reachable_bin_def buried_bin_def ReachableSQL_def)

lemma FindOldestBuriedBin_Some:
  assumes "FindOldestBuriedBin f lane code = Some (b, slot)"
  shows "b \<in> set (fl_bins f) \<and> lane_source f lane code b \<and> buried_bin f b \<and> slot_of f b = Some slot \<and>
    (\<forall>x\<in>set (fl_bins f). lane_source f lane code x \<and> buried_bin f x \<longrightarrow> binTimestamp b \<le> binTimestamp x)"
  using assms by (auto simp: FindOldestBuriedBin_def split: option.splits dest: best_row_Some)

lemma FindOldestBuriedBin_None:
  assumes "FindOldestBuriedBin f lane code = None" and "b \<in> set (fl_bins f)" and "lane_source f lane code b"
  shows "\<not> buried_bin f b"
proof (cases "best_row binTimestamp (\<lambda>b. lane_source f lane code b \<and> buried_bin f b) (fl_bins f)")
  case None
  then show ?thesis using assms(2,3) unfolding best_row_None by blast
next
  case (Some x)
  then have "lane_source f lane code x" by (auto dest: best_row_Some)
  then show ?thesis using assms(1) Some by (auto simp: FindOldestBuriedBin_def dest: lane_source_slot)
qed

lemma buried_offers_sound:
  assumes "(b, slot, lane) \<in> set (buried_offers f code c)"
  shows "child_retrievable f code c b \<and> must_dig f c b \<and> slot_of f b = Some slot \<and> nd_parent slot = Some lane"
proof -
  have c: "lane_open c" "FindOldestBuriedBin f (nd_id c) code = Some (b, slot)" "lane = nd_id c"
    using assms by (auto simp: buried_offers_def split: if_splits option.splits)
  then show ?thesis using FindOldestBuriedBin_Some [OF c(2)] lane_source_slot [of f "nd_id c" code b]
    by (auto simp: lane_open_def child_retrievable_def must_dig_def)
qed

lemma buried_offers_complete:
  assumes "child_retrievable f code c b" and "must_dig f c b"
  shows "\<exists>x\<in>set (buried_offers f code c). binTimestamp (fst x) \<le> binTimestamp b"
proof -
  have b: "b \<in> set (fl_bins f)" "lane_open c" "lane_source f (nd_id c) code b" "buried_bin f b"
    using assms by (auto simp: child_retrievable_def must_dig_def lane_open_def)
  then obtain x slot where x: "FindOldestBuriedBin f (nd_id c) code = Some (x, slot)"
    using FindOldestBuriedBin_None [of f "nd_id c" code b] by fastforce
  then show ?thesis using FindOldestBuriedBin_Some [OF x] b by (simp add: buried_offers_def)
qed

section \<open>Single-file lanes\<close>

text \<open>A plant as it is meant to be configured: the depth audit is silent, no two slots of a lane share a depth, and a lane slot holds
  one bin at most.\<close>

definition single_file :: "floor \<Rightarrow> bool" where
  "single_file f \<longleftrightarrow> AuditLaneDepths f = [] \<and>
     (\<forall>m\<in>set (fl_nodes f). \<forall>n\<in>set (fl_nodes f). nd_parent m = nd_parent n \<and> nd_parent m \<noteq> None \<and> nd_depth m = nd_depth n \<and> nd_depth m \<noteq> None \<longrightarrow> m = n) \<and>
     (\<forall>a\<in>set (fl_bins f). \<forall>b\<in>set (fl_bins f). \<forall>n lane. slot_of f a = Some n \<and> slot_of f b = Some n \<and> parent_row f n = Some lane \<and>
        nd_class lane = NodeClassLANE \<longrightarrow> a = b)"

lemma slot_of_Some:
  assumes "slot_of f b = Some n" and "b \<in> set (fl_bins f)"
  shows "n \<in> set (fl_nodes f) \<and> sb_node b = Some (nd_id n) \<and> occupied f n"
proof -
  obtain i where "sb_node b = Some i" "GetNode f i = Some n" using assms(1) by (auto simp: slot_of_def split: option.splits)
  then show ?thesis using GetNode_Some [of f i n] assms(2) by (auto simp: occupied_def list_ex_iff)
qed

lemma one_way_in:
  assumes fk: "rows_fk f" and single: "single_file f" and lane: "lane \<in> set (fl_nodes f)" "nd_class lane = NodeClassLANE"
    and a: "a \<in> set (fl_bins f)" "slot_of f a = Some m" "nd_parent m = Some (nd_id lane)" "reachable_bin f a"
    and b: "b \<in> set (fl_bins f)" "slot_of f b = Some n" "nd_parent n = Some (nd_id lane)" "reachable_bin f b"
  shows "a = b"
proof -
  have row: "GetNode f (nd_id lane) = Some lane" by (rule GetNode_row [OF fk lane(1)])
  have m: "m \<in> set (fl_nodes f)" "occupied f m" and n: "n \<in> set (fl_nodes f)" "occupied f n"
    using slot_of_Some [OF a(2,1)] slot_of_Some [OF b(2,1)] by auto
  have audit: "AuditLaneDepths f = []" using single by (simp add: single_file_def)
  have "nd_depth m \<noteq> None" by (rule depth_audit_silent [OF fk audit m(1) a(3) row lane(2) m(2)])
  moreover have "nd_depth n \<noteq> None" by (rule depth_audit_silent [OF fk audit n(1) b(3) row lane(2) n(2)])
  moreover have "\<not> ShallowerInSameLane m n" using b(2,4) m by (simp add: reachable_bin_def not_buried)
  moreover have "\<not> ShallowerInSameLane n m" using a(2,4) n by (simp add: reachable_bin_def not_buried)
  ultimately have "nd_id m = nd_id n \<or> nd_depth m = nd_depth n" using a(3) b(3) by (auto simp: ShallowerInSameLane_def)
  moreover have "m = n" if "nd_id m = nd_id n" using that fk m(1) n(1) by (auto simp: rows_fk_def distinct_map dest: inj_onD)
  moreover have "m = n" if eq: "nd_depth m = nd_depth n"
  proof -
    have "nd_parent m = nd_parent n \<and> nd_parent m \<noteq> None \<and> nd_depth m = nd_depth n \<and> nd_depth m \<noteq> None"
      using eq a(3) b(3) \<open>nd_depth m \<noteq> None\<close> by simp
    then show ?thesis using single m(1) n(1) unfolding single_file_def by blast
  qed
  ultimately have "m = n" by blast
  then show ?thesis using single a(1,2,3) b(1,2) row lane(2) unfolding single_file_def by (auto simp: parent_row_def)
qed

lemma FindSourceBinInLane_Some:
  assumes "FindSourceBinInLane f lane code = Some b"
  shows "b \<in> set (fl_bins f) \<and> lane_source f lane code b \<and> \<not> pending_on_bin f (sb_id b) \<and> reachable_bin f b"
  using best_row_Some [OF assms [unfolded FindSourceBinInLane_def]] by blast

lemma offers_sound:
  assumes "rows_fk f" and "c \<in> set (fl_nodes f)" and "(b, n) \<in> set (child_offers f code c)"
  shows "child_retrievable f code c b \<and> \<not> must_dig f c b \<and> n = slot_of f b"
proof (cases "nd_class c = NodeClassLANE")
  case True
  then have en: "nd_enabled c" "FindSourceBinInLane f (nd_id c) code = Some b" "n = slot_of f b"
    using assms(3) by (auto simp: child_offers_def split: if_splits option.splits)
  then show ?thesis using True FindSourceBinInLane_Some [OF en(2)] reachable_or_buried lane_source_slot [of f "nd_id c" code b]
    by (auto simp: child_retrievable_def must_dig_def)
next
  case False
  then show ?thesis using assms(3) GetNode_row [OF assms(1,2)]
    by (auto simp: child_offers_def child_retrievable_def must_dig_def ListBinsByNode_def slot_of_def split: if_splits)
qed

lemma available_not_retired: "isBinAvailableForRetrieve code b \<Longrightarrow> sb_status b \<noteq> BinStatusRetired"
  by (auto simp: isBinAvailableForRetrieve_def Sourceable_def bin_status_names split: if_splits)

lemma offers_complete:
  assumes "rows_fk f" and "single_file f" and "c \<in> set (fl_nodes f)" and "child_retrievable f code c b" and "\<not> must_dig f c b"
  shows "\<exists>n. (b, n) \<in> set (child_offers f code c)"
proof (cases "nd_class c = NodeClassLANE")
  case True
  then have b: "b \<in> set (fl_bins f)" "nd_enabled c" "lane_source f (nd_id c) code b" "\<not> pending_on_bin f (sb_id b)" "\<not> buried_bin f b"
    using assms(4,5) by (auto simp: child_retrievable_def must_dig_def)
  obtain s where s: "slot_of f b = Some s" "nd_parent s = Some (nd_id c)" using lane_source_slot [OF b(3)] by blast
  have reach: "reachable_bin f b" using reachable_or_buried [OF s(1)] b(5) by simp
  then have "FindSourceBinInLane f (nd_id c) code \<noteq> None" unfolding FindSourceBinInLane_def best_row_None using b by blast
  then obtain x where x: "FindSourceBinInLane f (nd_id c) code = Some x" by blast
  note fx = FindSourceBinInLane_Some [OF x]
  obtain s' where "slot_of f x = Some s'" "nd_parent s' = Some (nd_id c)" using lane_source_slot [of f "nd_id c" code x] fx by blast
  then have "x = b" using one_way_in [OF assms(1,2,3) True _ _ _ _ b(1) s reach] fx by blast
  then show ?thesis using x b(2) True by (auto simp: child_offers_def)
next
  case False
  then show ?thesis using assms(4) by (auto simp: child_offers_def child_retrievable_def ListBinsByNode_def available_not_retired image_iff)
qed

definition group_offers :: "floor \<Rightarrow> node \<Rightarrow> string \<Rightarrow> DigAsker \<Rightarrow> (bin \<times> node option) list" where
  "group_offers f g code asker = concat (map (child_offers f code) (ListChildNodesUnlocked f (nd_id g) asker))"

definition group_buried :: "floor \<Rightarrow> node \<Rightarrow> string \<Rightarrow> DigAsker \<Rightarrow> (bin \<times> node \<times> node_id) list" where
  "group_buried f g code asker = concat (map (buried_offers f code) (ListChildNodesUnlocked f (nd_id g) asker))"

lemma group_offer_sound:
  assumes "rows_fk f" and "(b, n) \<in> set (group_offers f g code asker)"
  shows "retrievable f g code asker b \<and> n = slot_of f b"
  using assms offers_sound unlocked_rows by (fastforce simp: group_offers_def retrievable_def)

lemma group_buried_sound:
  assumes "(b, slot, lane) \<in> set (group_buried f g code asker)"
  shows "retrievable f g code asker b \<and> buried_bin f b \<and> slot_of f b = Some slot \<and> nd_parent slot = Some lane"
  using assms buried_offers_sound by (fastforce simp: group_buried_def retrievable_def must_dig_def)

lemma retrievable_split:
  assumes "rows_fk f" and "single_file f" and "retrievable f g code asker x"
  shows "(\<exists>n. (x, n) \<in> set (group_offers f g code asker)) \<or> (\<exists>y\<in>set (group_buried f g code asker). binTimestamp (fst y) \<le> binTimestamp x)"
proof -
  obtain c where c: "c \<in> set (ListChildNodesUnlocked f (nd_id g) asker)" "child_retrievable f code c x" using assms(3) by (auto simp: retrievable_def)
  show ?thesis
  proof (cases "must_dig f c x")
    case True
    then show ?thesis using buried_offers_complete [OF c(2)] c(1) by (fastforce simp: group_buried_def)
  next
    case False
    then show ?thesis using offers_complete [OF assms(1,2) _ c(2)] unlocked_rows [OF c(1)] c(1) by (fastforce simp: group_offers_def)
  qed
qed

lemma scan_FIFO:
  "scanForBestBin f g code strategyFIFO asker =
     (case (foldl keep_older None (group_offers f g code asker), foldl keep_older None (group_buried f g code asker)) of
        (None, None) \<Rightarrow> Inl (classifyEmptyGroup f g code)
      | (None, Some (b, slot, lane)) \<Rightarrow> Inl (BuriedError b slot lane)
      | (Some (a, n), None) \<Rightarrow> Inr \<lparr>rr_node = n, rr_bin = Some a\<rparr>
      | (Some (a, n), Some (b, slot, lane)) \<Rightarrow>
          if binTimestamp b < binTimestamp a then Inl (BuriedError b slot lane) else Inr \<lparr>rr_node = n, rr_bin = Some a\<rparr>)"
  by (auto simp: scanForBestBin_def strategyFIFO_def checkOldestBuried_offers group_offers_def group_buried_def Let_def split: option.splits)

lemma classify_not_buried: "classifyEmptyGroup f g code \<noteq> BuriedError b slot lane"
  by (simp add: classifyEmptyGroup_def Let_def)

text \<open>C7. Strict first in, first out. In a group of single-file lanes and free-standing nodes, with the first-in-first-out strategy: the
  answer is a bin the order may take with the slot it stands in, and no bin the order may take, in the open or buried, is older; or it
  is a buried bin to dig out, with its slot and lane, and again none is older; or there is no bin the order may take. Lanes that
  another order digs are not the group's to give.\<close>

theorem fifo_takes_the_oldest:
  assumes "rows_fk f" and "single_file f" and "getGroupAlgorithm f (nd_id g) ''retrieve_algorithm'' RetrieveFIFO = RetrieveFIFO"
  shows "case ResolveRetrieve f g code asker of
      Inr r \<Rightarrow> (\<exists>b. rr_bin r = Some b \<and> retrievable f g code asker b \<and> rr_node r = slot_of f b \<and>
        (\<forall>x. retrievable f g code asker x \<longrightarrow> binTimestamp b \<le> binTimestamp x))
    | Inl (BuriedError b slot lane) \<Rightarrow> retrievable f g code asker b \<and> buried_bin f b \<and> slot_of f b = Some slot \<and> nd_parent slot = Some lane \<and>
        (\<forall>x. retrievable f g code asker x \<longrightarrow> binTimestamp b \<le> binTimestamp x)
    | Inl e \<Rightarrow> (\<forall>x. \<not> retrievable f g code asker x)"
proof -
  let ?o = "group_offers f g code asker" and ?d = "group_buried f g code asker"
  have scan: "ResolveRetrieve f g code asker = scanForBestBin f g code strategyFIFO asker"
    using assms(3) by (simp add: ResolveRetrieve_def retrieveStrategies_def)
  note covered = retrievable_split [OF assms(1,2)]
  have least: "\<forall>x. retrievable f g code asker x \<longrightarrow> t \<le> binTimestamp x"
    if "\<forall>z\<in>set ?o. t \<le> binTimestamp (fst z)" "\<forall>z\<in>set ?d. t \<le> binTimestamp (fst z)" for t
    using that covered by (fastforce dest: order_trans)
  show ?thesis
  proof (cases "foldl keep_older None ?o")
    case None
    then have o: "?o = []" by (simp add: oldest_None)
    show ?thesis
    proof (cases "foldl keep_older None ?d")
      case dig: None
      then have d: "?d = []" by (simp add: oldest_None)
      have "\<not> retrievable f g code asker x" for x using covered [of g code asker x] o d by auto
      then show ?thesis unfolding scan scan_FIFO None dig using classify_not_buried [of f g code] by (simp split: resolve_error.splits)
    next
      case dig: (Some y)
      obtain b slot lane where y: "y = (b, slot, lane)" by (cases y)
      show ?thesis unfolding scan scan_FIFO None dig y
        using group_buried_sound [of b slot lane f g code asker] oldest_Some [OF dig] least [of "binTimestamp b"] o y by simp
    qed
  next
    case (Some z)
    obtain a n where z: "z = (a, n)" by (cases z)
    note best = oldest_Some [OF Some]
    have a: "retrievable f g code asker a \<and> n = slot_of f a" using group_offer_sound [OF assms(1)] best z by auto
    show ?thesis
    proof (cases "foldl keep_older None ?d")
      case dig: None
      then have "?d = []" by (simp add: oldest_None)
      then show ?thesis unfolding scan scan_FIFO Some dig z using a best least [of "binTimestamp a"] z by simp
    next
      case dig: (Some y)
      obtain b slot lane where y: "y = (b, slot, lane)" by (cases y)
      note first = oldest_Some [OF dig]
      have "\<forall>z\<in>set ?o. binTimestamp b \<le> binTimestamp (fst z)" if "binTimestamp b < binTimestamp a" using that best z by fastforce
      moreover have "\<forall>z\<in>set ?d. binTimestamp a \<le> binTimestamp (fst z)" if "\<not> binTimestamp b < binTimestamp a" using that first y by fastforce
      ultimately show ?thesis unfolding scan scan_FIFO Some dig z y
        using a group_buried_sound [of b slot lane f g code asker] best first least [of "binTimestamp a"] least [of "binTimestamp b"] y z by simp
    qed
  qed
qed

text \<open>An old bin behind a newer one in the first lane, nothing in the second.\<close>

definition dug_floor :: floor where
  "dug_floor = two_lanes\<lparr>fl_bins := [bin_at 10 3 100 None, bin_at 12 5 50 None], fl_orders := []\<rparr>"

lemma dug_floor_single: "single_file dug_floor"
proof -
  have "AuditLaneDepths dug_floor = []" by code_simp
  moreover have "\<forall>m\<in>set (fl_nodes dug_floor). \<forall>n\<in>set (fl_nodes dug_floor).
      nd_parent m = nd_parent n \<and> nd_parent m \<noteq> None \<and> nd_depth m = nd_depth n \<and> nd_depth m \<noteq> None \<longrightarrow> m = n" by code_simp
  moreover have "a = b" if "a \<in> set (fl_bins dug_floor)" "b \<in> set (fl_bins dug_floor)" "slot_of dug_floor a = Some n" "slot_of dug_floor b = Some n" for a b n
    using slot_of_Some [OF that(3,1)] slot_of_Some [OF that(4,2)] that(1,2) by (auto simp: dug_floor_def bin_at_def)
  ultimately show ?thesis unfolding single_file_def by blast
qed

theorem fifo_takes_the_oldest_witness:
  "rows_fk dug_floor \<and> single_file dug_floor \<and>
   ResolveRetrieve dug_floor (node_row 1 ''G'' None None ''NGRP'') ''PANEL'' Anyone =
     Inl (BuriedError (bin_at 12 5 50 None) (node_row 5 ''A3'' (Some 2) (Some 3) '''') 2) \<and>
   retrievable dug_floor (node_row 1 ''G'' None None ''NGRP'') ''PANEL'' Anyone (bin_at 12 5 50 None)"
proof -
  have fk: "rows_fk dug_floor" using two_lanes_rows by (simp add: rows_fk_def up_def has_node_def dug_floor_def)
  have algo: "getGroupAlgorithm dug_floor (nd_id (node_row 1 ''G'' None None ''NGRP'')) ''retrieve_algorithm'' RetrieveFIFO = RetrieveFIFO" by code_simp
  have "ResolveRetrieve dug_floor (node_row 1 ''G'' None None ''NGRP'') ''PANEL'' Anyone =
      Inl (BuriedError (bin_at 12 5 50 None) (node_row 5 ''A3'' (Some 2) (Some 3) '''') 2)" by code_simp
  then show ?thesis using fifo_takes_the_oldest [OF fk dug_floor_single algo, of "''PANEL''" Anyone] fk dug_floor_single by simp
qed

section \<open>The best of the safe slots\<close>

lemma better_mono: "\<not> candidateBetter x b \<Longrightarrow> candidateBetter c b \<Longrightarrow> \<not> candidateBetter x c"
  by (auto simp: candidateBetter_def split: if_splits)

lemma better_irrefl [simp]: "\<not> candidateBetter c c"
  by (simp add: candidateBetter_def)

lemma best_fold:
  "foldl (\<lambda>best c. if candidateBetter c best then c else best) b cs = r \<Longrightarrow>
     r \<in> set (b # cs) \<and> (\<forall>x\<in>set (b # cs). \<not> candidateBetter x r)"
proof (induction cs arbitrary: b)
  case (Cons c cs)
  show ?case
  proof (cases "candidateBetter c b")
    case True
    then have "r \<in> set (c # cs) \<and> (\<forall>x\<in>set (c # cs). \<not> candidateBetter x r)" using Cons.IH [of c] Cons.prems by simp
    then show ?thesis using True better_mono [of r c b] by (auto simp: candidateBetter_def split: if_splits)
  next
    case False
    then have "r \<in> set (b # cs) \<and> (\<forall>x\<in>set (b # cs). \<not> candidateBetter x r)" using Cons.IH [of b] Cons.prems by simp
    then show ?thesis using False by (auto simp: candidateBetter_def split: if_splits)
  qed
qed simp

lemma bestStorageCandidate_Some: "bestStorageCandidate cs = Some r \<Longrightarrow> r \<in> set cs \<and> (\<forall>x\<in>set cs. \<not> candidateBetter x r)"
proof (cases cs)
  case (Cons c cs')
  moreover assume "bestStorageCandidate cs = Some r"
  ultimately have "foldl (\<lambda>best c. if candidateBetter c best then c else best) c cs' = r" by simp
  from best_fold [OF this] show ?thesis unfolding Cons .
qed simp

lemma bestStorageCandidate_None: "bestStorageCandidate cs = None \<longleftrightarrow> cs = []"
  by (cases cs) auto

definition store_choice :: "floor \<Rightarrow> node \<Rightarrow> string \<Rightarrow> int option \<Rightarrow> DigAsker \<Rightarrow> node \<Rightarrow> bool" where
  "store_choice f g code binType asker n \<longleftrightarrow> (\<exists>c\<in>set (ListChildNodesUnlocked f (nd_id g) asker). nd_enabled c \<and>
     (if nd_class c = NodeClassLANE then lane_takes f code binType c \<and> FindStoreSlotInLane f (nd_id c) = StoreSlot n
      else \<not> nd_synthetic c \<and> direct_free f c \<and> type_fits f binType (nd_id c) \<and> n = c))"

lemma lknd_candidate_iff:
  "lknd_candidate f g code binType c = Some sc \<Longrightarrow> nd_enabled c \<and>
     (if nd_class c = NodeClassLANE then lane_takes f code binType c \<and> FindStoreSlotInLane f (nd_id c) = StoreSlot (sc_node sc)
      else \<not> nd_synthetic c \<and> direct_free f c \<and> type_fits f binType (nd_id c) \<and> sc_node sc = c)"
  by (auto simp: lknd_candidate_def split: if_splits store_slot.splits)

lemma lknd_candidate_None:
  "lknd_candidate f g code binType c = None \<Longrightarrow> nd_enabled c \<Longrightarrow>
     (if nd_class c = NodeClassLANE then \<not> (lane_takes f code binType c \<and> FindStoreSlotInLane f (nd_id c) = StoreSlot n)
      else \<not> (\<not> nd_synthetic c \<and> direct_free f c \<and> type_fits f binType (nd_id c)))"
  by (auto simp: lknd_candidate_def split: if_splits store_slot.splits)

lemma set_map_filter: "set (List.map_filter h xs) = {y. \<exists>x\<in>set xs. h x = Some y}"
  by (auto simp: List.map_filter_def image_iff) (metis option.sel)

lemma LKND_outcome:
  "case resolveStoreLKND f g code binType asker of
      Inr r \<Rightarrow> (\<exists>n. r = \<lparr>rr_node = Some n, rr_bin = None\<rparr> \<and> store_choice f g code binType asker n)
    | Inl e \<Rightarrow> e = NoSlotInGroup (nd_name g) \<and> (\<forall>n. \<not> store_choice f g code binType asker n)"
proof -
  let ?cs = "List.map_filter (lknd_candidate f (nd_id g) code binType) (ListChildNodesUnlocked f (nd_id g) asker)"
  show ?thesis
  proof (cases "bestStorageCandidate ?cs")
    case None
    then have "?cs = []" by (simp add: bestStorageCandidate_None)
    then have "set ?cs = {}" by simp
    then have none: "\<forall>c\<in>set (ListChildNodesUnlocked f (nd_id g) asker). lknd_candidate f (nd_id g) code binType c = None"
      unfolding set_map_filter by (auto simp: not_Some_eq [symmetric])
    have "\<not> store_choice f g code binType asker n" for n
    proof
      assume "store_choice f g code binType asker n"
      then obtain c where c: "c \<in> set (ListChildNodesUnlocked f (nd_id g) asker)" "nd_enabled c"
        "if nd_class c = NodeClassLANE then lane_takes f code binType c \<and> FindStoreSlotInLane f (nd_id c) = StoreSlot n
         else \<not> nd_synthetic c \<and> direct_free f c \<and> type_fits f binType (nd_id c) \<and> n = c"
        unfolding store_choice_def by blast
      then show False using lknd_candidate_None [of f "nd_id g" code binType c n] none by (auto split: if_splits)
    qed
    then show ?thesis using None by (simp add: resolveStoreLKND_def)
  next
    case (Some sc)
    then obtain c where "c \<in> set (ListChildNodesUnlocked f (nd_id g) asker)" "lknd_candidate f (nd_id g) code binType c = Some sc"
      using bestStorageCandidate_Some [OF Some] unfolding set_map_filter by blast
    then have "store_choice f g code binType asker (sc_node sc)"
      using lknd_candidate_iff [of f "nd_id g" code binType c sc] unfolding store_choice_def by (auto split: if_splits)
    then show ?thesis using Some by (simp add: resolveStoreLKND_def)
  qed
qed

lemma dpth_lane_Some: "dpth_lane f code binType cs = Some n \<Longrightarrow>
    \<exists>c\<in>set cs. nd_enabled c \<and> nd_class c = NodeClassLANE \<and> lane_takes f code binType c \<and> FindStoreSlotInLane f (nd_id c) = StoreSlot n"
  by (induction cs) (auto simp: lane_open_def split: if_splits store_slot.splits)

lemma dpth_lane_None: "dpth_lane f code binType cs = None \<Longrightarrow> c \<in> set cs \<Longrightarrow> lane_open c \<Longrightarrow> lane_takes f code binType c \<Longrightarrow>
    FindStoreSlotInLane f (nd_id c) \<noteq> StoreSlot n"
  by (induction cs) (auto split: if_splits store_slot.splits)

lemma DPTH_outcome:
  assumes "list_all (\<lambda>n. nd_class n = NodeClassLANE \<longrightarrow> nd_synthetic n) (fl_nodes f)"
  shows "case resolveStoreDPTH f g code binType asker of
      Inr r \<Rightarrow> (\<exists>n. r = \<lparr>rr_node = Some n, rr_bin = None\<rparr> \<and> store_choice f g code binType asker n)
    | Inl e \<Rightarrow> e = NoSlotInGroup (nd_name g) \<and> (\<forall>n. \<not> store_choice f g code binType asker n)"
proof -
  let ?cs = "ListChildNodesUnlocked f (nd_id g) asker"
  let ?P = "\<lambda>c. nd_enabled c \<and> \<not> nd_synthetic c \<and> type_fits f binType (nd_id c) \<and> direct_free f c"
  have phys: "nd_class c \<noteq> NodeClassLANE" if "c \<in> set ?cs" "\<not> nd_synthetic c" for c
    using that assms unlocked_rows [OF that(1)] by (auto simp: list_all_iff)
  show ?thesis
  proof (cases "dpth_lane f code binType ?cs")
    case (Some n)
    then show ?thesis using dpth_lane_Some [OF Some] by (auto simp: resolveStoreDPTH_def store_choice_def)
  next
    case None
    show ?thesis
    proof (cases "select_row ?P ?cs")
      case (Some c)
      then show ?thesis using None select_row_Some [OF Some] phys [of c] by (auto simp: resolveStoreDPTH_def store_choice_def Let_def)
    next
      case none: None
      have "\<not> store_choice f g code binType asker n" for n
        using dpth_lane_None [OF None] none unfolding select_row_None store_choice_def lane_open_def by auto
      then show ?thesis using None none by (simp add: resolveStoreDPTH_def Let_def)
    qed
  qed
qed

lemma no_inbound:
  assumes "list_all (\<lambda>q. 0 < fo_id q) (fl_orders f)" and "\<not> spoken_for f 0 n"
  shows "CountActiveByDeliveryNode f (nd_name n) = 0"
proof -
  have "\<not> (fo_delivery q = nd_name n \<and> live_order q)" if "q \<in> set (fl_orders f)" for q
    using that assms by (fastforce simp: spoken_for_def list_ex_iff list_all_iff)
  then show ?thesis by (simp add: CountActiveByDeliveryNode_def count_rows_def)
qed

lemma empty_slot_count: "\<not> occupied f n \<Longrightarrow> CountBinsByNode f (nd_id n) = 0"
  by (auto simp: occupied_def CountBinsByNode_def count_rows_def list_ex_iff)

lemma store_choice_safe:
  assumes "distinct (map nd_id (fl_nodes f))" and "list_all (\<lambda>q. 0 < fo_id q) (fl_orders f)" and "store_choice f g code binType asker n"
  shows "n \<in> set (fl_nodes f) \<and> \<not> nd_synthetic n \<and> CountBinsByNode f (nd_id n) = 0 \<and> CountActiveByDeliveryNode f (nd_name n) = 0 \<and>
    (nd_parent n \<noteq> Some (nd_id g) \<longrightarrow> ReachableSQL f n \<and> \<not> walls_in f 0 n)"
proof -
  obtain c where c: "c \<in> set (ListChildNodesUnlocked f (nd_id g) asker)"
    "if nd_class c = NodeClassLANE then lane_takes f code binType c \<and> FindStoreSlotInLane f (nd_id c) = StoreSlot n
     else \<not> nd_synthetic c \<and> direct_free f c \<and> type_fits f binType (nd_id c) \<and> n = c"
    using assms(3) by (auto simp: store_choice_def)
  show ?thesis
  proof (cases "nd_class c = NodeClassLANE")
    case True
    then have "findStoreSlot f (nd_id c) 0 True = Some n"
      using c(2) by (auto simp: FindStoreSlotInLane_def FindStoreSlotInLaneExcluding_def split: option.splits)
    from best_row_Some [OF this [unfolded findStoreSlot_def]] have "n \<in> set (fl_nodes f)" "store_candidate f (nd_id c) 0 True n" by auto
    then show ?thesis using no_inbound [OF assms(2), of n] empty_slot_count [of f n] by (simp add: store_candidate_def)
  next
    case False
    then show ?thesis using c unlocked_rows [OF c(1)] by (simp add: direct_free_def)
  qed
qed





section \<open>The gate and the resolver\<close>

lemma sum_levels_sums:
  "sum_levels f g ls want held = (want + sum_list (map ml_want ls), held + sum_list (map (\<lambda>l. int (CountEmptyOfTypeInGroup f (ml_code l) g)) ls))"
  by (induction ls arbitrary: want held) auto

lemma level_of_type_find:
  "level_of_type f g t ls = (case List.find (\<lambda>l. ml_type l = t) ls of None \<Rightarrow> False | Some l \<Rightarrow> ml_want l \<le> int (CountEmptyOfTypeInGroup f (ml_code l) g))"
  by (induction ls) auto

lemma atDeclaredLevel_reached: "atDeclaredLevel f g binType = level_reached f (nd_id g) binType"
  by (auto simp: atDeclaredLevel_def level_reached_def Let_def sum_levels_sums level_of_type_find split: option.splits)

lemma all_answered: "\<not> unanswered (floor_capacity (\<lambda>_. False) f)"
  by (simp add: unanswered_def floor_capacity_def)

text \<open>C31. One declared level. With every query answered, the gate that admits an order and the resolver that gives it a slot answer the
  level question alike, so the gate holds an order at the level exactly when the resolver would refuse it for the level.\<close>

theorem gate_and_resolver_agree_on_level:
  "ngrpAtDeclaredLevel (floor_capacity (\<lambda>_. False) f) (nd_id g) binType = Some (atDeclaredLevel f g binType) \<and>
   ((\<exists>p. checkNGRPCapacity (floor_capacity (\<lambda>_. False) f) g name excl binType = Some (CauseNGRPAtLevel, p)) \<longleftrightarrow> atDeclaredLevel f g binType)"
proof -
  let ?db = "floor_capacity (\<lambda>_. False) f"
  obtain b where b: "ngrpAtDeclaredLevel ?db (nd_id g) binType = Some b" using level_unanswered all_answered by blast
  then have level: "b = atDeclaredLevel f g binType" using floor_reads.level_truth [OF b] by (simp add: atDeclaredLevel_reached)
  have "(\<exists>p. checkNGRPCapacity ?db g name excl binType = Some (CauseNGRPAtLevel, p)) \<longleftrightarrow> b"
    using b by (cases b) (auto simp: checkNGRPCapacity_def Let_def split: option.splits)
  then show ?thesis using b level by simp
qed

text \<open>The gate counts only the free-standing children of a group. A group whose one free-standing child is taken is held as full
  although a lane of it is open: the resolver would give the lane's slot at once.\<close>

definition mixed_group :: floor where
  "mixed_group = two_lanes\<lparr>fl_nodes := fl_nodes two_lanes @ [node_row 9 ''DOCK'' (Some 1) None ''''], fl_bins := [bin_at 10 9 100 None], fl_orders := []\<rparr>"

lemma gate_refuses_open_lane:
  "map_option fst (CheckDropoffCapacity (floor_capacity (\<lambda>_. False) mixed_group) ''G'' 0) = Some CauseNGRPFull \<and>
   ResolveStore mixed_group (node_row 1 ''G'' None None ''NGRP'') ''PANEL'' None Anyone =
     Inr \<lparr>rr_node = Some (node_row 5 ''A3'' (Some 2) (Some 3) ''''), rr_bin = None\<rparr>"
  by code_simp

end
