(* ===== verification/Spec2Isabelle.thy ===== *)
theory Spec2Isabelle
  imports Lifecycle EdgeOrders Transport Resolver
begin

text \<open>
  \<^bold>\<open>Shingo: a verification of its order, floor and inventory logic.\<close>

  Shingo moves bins of material through a plant with mobile robots.  Two programs share the work.
  \<^verbatim>\<open>shingo-core\<close> owns the orders, the bins and the map of the plant in a Postgres database and talks to
  the fleet manager.  \<^verbatim>\<open>shingo-edge\<close> runs at a station on the shop floor, keeps a copy of the station's
  orders in SQLite, counts parts from the PLC and talks to Core.  Both use the package \<^verbatim>\<open>protocol\<close>: the
  wire messages, the order state machine and the drain loop of the outbox.  Messages go through an outbox
  table on each side, which a drainer empties into the broker.

  \<^bold>\<open>Conventions.\<close>  A database table is a list of rows and a statement is a function on it (\<^verbatim>\<open>update_rows\<close>,
  \<^verbatim>\<open>delete_rows\<close>, \<^verbatim>\<open>best_row\<close> for ORDER BY with LIMIT 1, in \<^verbatim>\<open>Prelude\<close>).  A transaction is one step.  A
  Go string is a \<^typ>\<open>string\<close>, an instant is an integer, an error is a value of a sum or option type.  A call
  that leaves the program (database, broker, fleet) is an argument that says whether it failed.  Numbers
  that Go keeps in 64 bits are unbounded here: counts, identifiers and sequence numbers of a plant are far
  from that width, and no property depends on the wrap-around.  Concurrency is a step relation or a
  sequence of inputs: a caller may hold an old copy of a row, and the theorems hold for every copy.

  \<^bold>\<open>The theories.\<close>

  \<^item> \<^verbatim>\<open>Prelude\<close>: tables, Go's string routines, the rewrite collections.
  \<^item> \<^verbatim>\<open>OrderStatus\<close> (\<^verbatim>\<open>protocol/status.go\<close>, \<^verbatim>\<open>protocol/types.go\<close>): the statuses, the transition table,
    \<^verbatim>\<open>IsForwardJump\<close> as a breadth-first search that is shown to decide reachability, the classes of status
    and their SQL lists.  The locale \<^verbatim>\<open>transition_system\<close> states what a table with terminal states promises;
    it is interpreted on the order machine here and on the bin machine in \<^verbatim>\<open>Floor\<close>.
  \<^item> \<^verbatim>\<open>Reasons\<close> and \<^verbatim>\<open>Waits\<close> (\<^verbatim>\<open>protocol/status.go\<close>, \<^verbatim>\<open>protocol/duration.go\<close>, \<^verbatim>\<open>dispatch/queue_cause.go\<close>,
    \<^verbatim>\<open>queue_reason.go\<close>, \<^verbatim>\<open>queue_releasers.go\<close>): why an order waits or ended, the operator's sentences, and
    that each cause of a wait has exactly one releaser with a re-driver and a backstop.
  \<^item> \<^verbatim>\<open>Reservations\<close> (\<^verbatim>\<open>store/reservations\<close>, \<^verbatim>\<open>binresolver/lane_lock.go\<close>): holds on bins, slots and lane mouths.
    In every reachable table a bin or slot has one holder and the rows of a mouth are compatible; a lane
    acquisition is all or nothing; the dig lock satisfies the locale \<^verbatim>\<open>exclusive_lock\<close>.
  \<^item> \<^verbatim>\<open>Futility\<close> (\<^verbatim>\<open>dispatch/futility.go\<close>): the detector of orders that keep ending without a delivery.
  \<^item> \<^verbatim>\<open>Lifecycle\<close> (\<^verbatim>\<open>dispatch/lifecycle.go\<close>, \<^verbatim>\<open>store/orders.go\<close>, \<^verbatim>\<open>store/orders/orders.go\<close>): \<^verbatim>\<open>transition\<close>, the
    action table, every named transition, the terminal write that releases all holds.  An order ends
    once, its terminal row is final, a refusal changes nothing, an ending is announced once.
  \<^item> \<^verbatim>\<open>EdgeOrders\<close> (\<^verbatim>\<open>shingo-edge/orders\<close>, \<^verbatim>\<open>messaging/edge_handler.go\<close>, \<^verbatim>\<open>store/orders/orders.go\<close>, the changeover
    states of \<^verbatim>\<open>shingo-edge/domain\<close>): the Edge's mirror of the orders, driven by handlers and operator
    actions.  It adopts what Core reports, keeps terminal rows except for three named inputs, and its
    history has no gap.
  \<^item> \<^verbatim>\<open>InventoryWire\<close>, \<^verbatim>\<open>Accumulator\<close> (\<^verbatim>\<open>protocol/payloads.go\<close>, \<^verbatim>\<open>shingo-edge/uop/accumulator.go\<close>): recording
    threads and the flusher interleave; counts are conserved, sequence numbers increase, a flush ships all.
  \<^item> \<^verbatim>\<open>BinLedger\<close>, \<^verbatim>\<open>LedgerRuns\<close> (\<^verbatim>\<open>service/bin_manifest.go\<close>, \<^verbatim>\<open>uop/applier.go\<close>, \<^verbatim>\<open>store/audit\<close>, \<^verbatim>\<open>RecordCount\<close> of
    \<^verbatim>\<open>service/bin_service.go\<close>): Core's count of each bin.  The ledger explains the count, a delta is applied
    once, a reset starts a new epoch and is announced, the lineside buckets keep their invariant.
  \<^item> \<^verbatim>\<open>Inventory\<close>: both ends together when the messages arrive in order and at least once.
  \<^item> \<^verbatim>\<open>Outbox\<close> (\<^verbatim>\<open>protocol/outbox/drainer.go\<close>, both \<^verbatim>\<open>messaging/outbox.go\<close>, both \<^verbatim>\<open>store/messaging\<close>): the drain loop
    over the interface \<^verbatim>\<open>Store\<close>.  The locale \<^verbatim>\<open>outbox_store\<close> holds the laws of that interface; the Edge's
    and Core's tables are its two interpretations.  No message is lost silently and an outage shorter
    than the retry budget costs nothing.
  \<^item> \<^verbatim>\<open>Transport\<close>: the accumulator, the outbox and the applier composed.  While no publish is refused, a
    bin's count on Core is right; a refused publish reorders two messages and loses a count.
  \<^item> \<^verbatim>\<open>Floor\<close> (\<^verbatim>\<open>store/nodes\<close>, \<^verbatim>\<open>domain/bin_status.go\<close>, \<^verbatim>\<open>domain/node.go\<close>): the tree of groups, lanes and slots and
    its writes; the parentage guard refuses exactly the moves that close a cycle.
  \<^item> \<^verbatim>\<open>Lanes\<close> (\<^verbatim>\<open>store/nodes/lanes.go\<close>, \<^verbatim>\<open>store/lane_queries.go\<close>, \<^verbatim>\<open>lane_reachability.go\<close>): what a robot at the mouth of
    a single-file lane can reach; the store selector walls in nobody.
  \<^item> \<^verbatim>\<open>Capacity\<close> (\<^verbatim>\<open>dispatch/capacity.go\<close>): the gate before dispatch.  Its six reads are the locale
    \<^verbatim>\<open>capacity_reads\<close>, interpreted on the floor; the gate is exact whichever reads fail.
  \<^item> \<^verbatim>\<open>Resolver\<close> (\<^verbatim>\<open>dispatch/binresolver\<close>): a concrete slot or bin for a group.  First-in-first-out takes the
    oldest bin or names it for digging; a store goes to a reachable empty slot that walls in nobody; the
    gate and the resolver agree on the declared level.

  \<^bold>\<open>Bounds and termination.\<close>  The ancestor walk of the parentage guard takes the source's own bound,
  \<^verbatim>\<open>MaxNodeDepth\<close> hops, and the theorem on the guard assumes a tree no deeper than that.  The walks that have no
  bound in the source get as many hops as there are nodes, which is enough in a tree, and every run of
  writes leaves a tree.  The retry loops \<^verbatim>\<open>recordBin\<close> and \<^verbatim>\<open>recordBucket\<close> are partial functions, shown to return
  from every reachable state.  The breadth-first search has a termination proof.  The drain limit, the retry
  limit and the retention times are the source's constants or arguments.

  \<^bold>\<open>Where the code departs from its comments.\<close>  Small closed lemmas evaluate the model on such inputs, for
  example \<^verbatim>\<open>refused_publish_loses_count\<close>, \<^verbatim>\<open>gate_refuses_open_lane\<close>, \<^verbatim>\<open>stale_skip_takes_illegal_edge\<close>,
  \<^verbatim>\<open>rollback_revives_cancelled\<close> and \<^verbatim>\<open>racing_moves_close_a_cycle\<close>.  The theorems beside them state the
  conditions under which the promise holds.

  \<^bold>\<open>Not modelled.\<close>  The planners and the dispatcher (\<^verbatim>\<open>dispatch/reshuffle.go\<close>, \<^verbatim>\<open>compound.go\<close>, \<^verbatim>\<open>lane_gate*.go\<close>,
  \<^verbatim>\<open>complex_*.go\<close>, \<^verbatim>\<open>planning_service.go\<close>, \<^verbatim>\<open>allocator.go\<close>), the fulfillment scanner and both engines: they
  compose the components above and each needs a model of the fleet's replies.  Order creation on both
  sides, most of \<^verbatim>\<open>bin_service.go\<close> and \<^verbatim>\<open>store/bins\<close>, the writes of maintained levels and of the type and
  payload restrictions of a node, \<^verbatim>\<open>ReleaseOccupancyForLane\<close>, Core's inbox table and the changeover planner are
  plain row writes outside the invariants proved here.  Encoding, signing and routing of envelopes, the fleet
  and PLC clients, configuration, backup, web pages and commands are input and output.
\<close>

end
